(* ===== verification/Bytes.thy ===== *)
theory Bytes
  imports Main "HOL-Library.Word" "HOL-Library.Sublist"
begin

text \<open>
  The prelude: what the program takes from the Rust standard library on byte slices, strings and
  integers, and the lemmas on them that the component theories share.

  A byte is a \<^typ>\<open>char\<close> (both have 256 values), so a \<^verbatim>\<open>&[u8]\<close> and the UTF-8
  bytes of a \<^verbatim>\<open>String\<close> are a \<^typ>\<open>string\<close>, and a literal of the source is a
  literal here. A \<^verbatim>\<open>u64\<close> is a \<^typ>\<open>64 word\<close>, whose \<open>+\<close> wraps as it does in the
  release build; lengths and offsets into a buffer (\<^verbatim>\<open>usize\<close>) are \<^typ>\<open>nat\<close>, which
  no buffer can overflow.
\<close>

section \<open>Names\<close>

type_synonym bytes = string
type_synonym u64 = "64 word"
type_synonym i64 = "64 word"

abbreviation newline :: char where "newline \<equiv> CHR 0x0A"
abbreviation quote :: char where "quote \<equiv> CHR 0x22"
abbreviation backslash :: char where "backslash \<equiv> CHR 0x5C"

named_theorems bytes_simps \<open>characteristic equations of the byte operations\<close>
named_theorems bytes_dest \<open>what a successful byte operation says of its input\<close>

section \<open>Prefixes, suffixes and search\<close>

text \<open>\<^verbatim>\<open>str::strip_prefix\<close> and \<^verbatim>\<open>slice::strip_suffix\<close>.\<close>

fun strip_prefix :: "bytes \<Rightarrow> bytes \<Rightarrow> bytes option" where
  "strip_prefix [] s = Some s"
| "strip_prefix (p # ps) [] = None"
| "strip_prefix (p # ps) (c # cs) = (if p = c then strip_prefix ps cs else None)"

definition strip_suffix :: "bytes \<Rightarrow> bytes \<Rightarrow> bytes option" where
  "strip_suffix p s = map_option rev (strip_prefix (rev p) (rev s))"

lemma strip_prefix_Some [bytes_dest]: "strip_prefix p s = Some r \<longleftrightarrow> s = p @ r"
  by (induction p s rule: strip_prefix.induct) auto

lemma strip_prefix_append [simp]: "strip_prefix p (p @ r) = Some r"
  by (simp add: strip_prefix_Some)

lemma strip_prefix_None: "strip_prefix p s = None \<longleftrightarrow> \<not> prefix p s"
  by (induction p s rule: strip_prefix.induct) auto

lemma strip_suffix_Some [bytes_dest]: "strip_suffix p s = Some r \<longleftrightarrow> s = r @ p"
proof -
  have "strip_suffix p s = Some r \<longleftrightarrow> strip_prefix (rev p) (rev s) = Some (rev r)"
    by (auto simp: strip_suffix_def)
  also have "\<dots> \<longleftrightarrow> s = r @ p"
    by (metis rev_append rev_rev_ident strip_prefix_Some)
  finally show ?thesis .
qed

lemma strip_suffix_append [simp]: "strip_suffix p (r @ p) = Some r"
  by (simp add: strip_suffix_Some)

text \<open>
  \<^verbatim>\<open>slice.windows(n).position(|w| w == needle)\<close>: the index of the first occurrence. An empty
  needle never occurs in the program.
\<close>

fun find_sub :: "bytes \<Rightarrow> bytes \<Rightarrow> nat option" where
  "find_sub [] needle = None"
| "find_sub (c # cs) needle =
     (if prefix needle (c # cs) then Some 0 else map_option Suc (find_sub cs needle))"

text \<open>\<^verbatim>\<open>iter().position(|&b| b == c)\<close>.\<close>

fun position_byte :: "char \<Rightarrow> bytes \<Rightarrow> nat option" where
  "position_byte c [] = None"
| "position_byte c (x # xs) = (if x = c then Some 0 else map_option Suc (position_byte c xs))"

lemma position_byte_append [simp]:
  "c \<notin> set xs \<Longrightarrow> position_byte c (xs @ c # ys) = Some (length xs)"
  by (induction xs) auto

lemma position_byte_None: "position_byte c xs = None \<longleftrightarrow> c \<notin> set xs"
  by (induction xs) auto

lemma position_byte_Some:
  "position_byte c xs = Some i \<Longrightarrow> i < length xs \<and> xs ! i = c \<and> c \<notin> set (take i xs)"
  by (induction xs arbitrary: i) (auto split: if_splits)

lemma find_sub_bound: "find_sub h n = Some i \<Longrightarrow> i < length h"
  by (induction h arbitrary: i) (auto split: if_splits)

lemma find_sub_Some: "find_sub h n = Some i \<Longrightarrow> prefix n (drop i h)"
  by (induction h arbitrary: i) (auto split: if_splits)

text \<open>
  The scan passes over a stretch in which the needle starts nowhere. The needles of the program
  are a comma, a quote and a name, so it is enough that the stretch has no quote right after a
  comma; this is what makes the byte search sound inside JSON.
\<close>

lemma find_sub_skip:
  assumes "\<And>i. i < length xs \<Longrightarrow> \<not> prefix n (drop i xs @ ys)"
  shows "find_sub (xs @ ys) n = map_option (\<lambda>k. length xs + k) (find_sub ys n)"
  using assms
proof (induction xs)
  case Nil
  then show ?case by (simp add: option.map_ident)
next
  case (Cons x xs)
  have "\<not> prefix n (x # xs @ ys)" using Cons.prems [of 0] by simp
  moreover have "find_sub (xs @ ys) n = map_option (\<lambda>k. length xs + k) (find_sub ys n)"
  proof (rule Cons.IH)
    fix i assume "i < length xs"
    then show "\<not> prefix n (drop i xs @ ys)" using Cons.prems [of "Suc i"] by simp
  qed
  ultimately show ?case by (simp add: option.map_comp comp_def)
qed

lemma find_sub_here [simp]: "n \<noteq> [] \<Longrightarrow> find_sub (n @ ys) n = Some 0"
  by (cases n) simp_all

section \<open>Lines\<close>

text \<open>
  \<^verbatim>\<open>slice.split(|&b| b == c)\<close>: the pieces between the separators, at least one of them.
\<close>

fun split_byte :: "char \<Rightarrow> bytes \<Rightarrow> bytes list" where
  "split_byte c [] = [[]]"
| "split_byte c (x # xs) =
     (if x = c then [] # split_byte c xs
      else (case split_byte c xs of [] \<Rightarrow> [[x]] | l # ls \<Rightarrow> (x # l) # ls))"

text \<open>\<^verbatim>\<open>slice.split_inclusive(|&b| b == c)\<close>: the pieces with their separator, the last
  possibly without one.\<close>

fun split_inclusive :: "char \<Rightarrow> bytes \<Rightarrow> bytes list" where
  "split_inclusive c [] = []"
| "split_inclusive c (x # xs) =
     (if x = c then [x] # split_inclusive c xs
      else (case split_inclusive c xs of [] \<Rightarrow> [[x]] | l # ls \<Rightarrow> (x # l) # ls))"

text \<open>\<^verbatim>\<open>bytes.ends_with(b"\n")\<close>.\<close>

definition ends_with_newline :: "bytes \<Rightarrow> bool" where
  "ends_with_newline s \<longleftrightarrow> s \<noteq> [] \<and> last s = newline"

text \<open>Lines, each with its terminator: the inverse view of a log file.\<close>

definition unlines :: "bytes list \<Rightarrow> bytes" where
  "unlines ls = concat (map (\<lambda>l. l @ [newline]) ls)"

definition one_line :: "bytes \<Rightarrow> bool" where
  "one_line l \<longleftrightarrow> newline \<notin> set l"

lemma unlines_simps [simp]:
  "unlines [] = []"
  "unlines (l # ls) = l @ newline # unlines ls"
  "unlines (ls @ ms) = unlines ls @ unlines ms"
  by (simp_all add: unlines_def)

lemma unlines_eq_Nil [simp]: "unlines ls = [] \<longleftrightarrow> ls = []"
  by (cases ls) simp_all

lemma ends_with_newline_snoc [simp]: "ends_with_newline (s @ [newline])"
  by (simp add: ends_with_newline_def)

lemma ends_with_newline_Nil [simp]: "\<not> ends_with_newline []"
  by (simp add: ends_with_newline_def)

lemma ends_with_newline_single [simp]: "ends_with_newline [newline]"
  by (simp add: ends_with_newline_def)

lemma ends_with_newline_append [simp]:
  "ends_with_newline (s @ t) \<longleftrightarrow> (if t = [] then ends_with_newline s else ends_with_newline t)"
  by (simp add: ends_with_newline_def)

lemma ends_with_newline_unlines [simp]: "ends_with_newline (unlines ls) \<longleftrightarrow> ls \<noteq> []"
  by (induction ls rule: rev_induct) simp_all

lemma ends_with_newlineE:
  assumes "ends_with_newline s"
  obtains t where "s = t @ [newline]"
  using assms by (metis append_butlast_last_id ends_with_newline_def)

lemma split_byte_not_Nil [simp]: "split_byte c s \<noteq> []"
  by (cases s) (auto split: list.splits)

lemma split_byte_pieces: "l \<in> set (split_byte c s) \<Longrightarrow> c \<notin> set l"
  by (induction c s arbitrary: l rule: split_byte.induct) (auto split: if_splits list.splits)

lemma unlines_split_byte: "unlines (split_byte newline s) = s @ [newline]"
  by (induction s) (auto split: list.splits)

lemma split_byte_line: "c \<notin> set l \<Longrightarrow> split_byte c l = [l]"
  by (induction l) auto

lemma split_byte_append:
  "c \<notin> set l \<Longrightarrow> split_byte c (l @ c # s) = l # split_byte c s"
  by (induction l) auto

lemma split_byte_unlines:
  "ls \<noteq> [] \<Longrightarrow> list_all one_line ls \<Longrightarrow> split_byte newline (butlast (unlines ls)) = ls"
proof (induction ls)
  case (Cons l ls)
  then show ?case
    by (cases "ls = []") (simp_all add: one_line_def split_byte_line split_byte_append butlast_append)
qed simp

text \<open>Every newline-terminated text is the lines \<^const>\<open>split_byte\<close> finds in it, uniquely.\<close>

lemma lines_of_terminated:
  assumes "ends_with_newline s"
  shows "s = unlines (split_byte newline (butlast s))"
    and "list_all one_line (split_byte newline (butlast s))"
  using assms
  by (auto elim!: ends_with_newlineE simp: unlines_split_byte one_line_def list_all_iff
      dest: split_byte_pieces)

lemma terminated_linesE:
  assumes "ends_with_newline s"
  obtains ls where "s = unlines ls" "list_all one_line ls" "ls \<noteq> []"
  using lines_of_terminated [OF assms] by (metis split_byte_not_Nil)

lemma unlines_inject:
  assumes "list_all one_line ls" "list_all one_line ms"
  shows "unlines ls = unlines ms \<longleftrightarrow> ls = ms"
proof
  assume eq: "unlines ls = unlines ms"
  show "ls = ms"
  proof (cases "ls = []")
    case False
    with eq have "ms \<noteq> []" by auto
    with False eq assms show ?thesis by (metis split_byte_unlines)
  next
    case True
    with eq show ?thesis by (metis unlines_eq_Nil)
  qed
qed simp

lemma split_inclusive_append:
  "c \<notin> set l \<Longrightarrow> split_inclusive c (l @ c # s) = (l @ [c]) # split_inclusive c s"
  by (induction l) auto

lemma split_inclusive_unlines:
  "list_all one_line ls \<Longrightarrow> split_inclusive newline (unlines ls) = map (\<lambda>l. l @ [newline]) ls"
  by (induction ls) (simp_all add: one_line_def split_inclusive_append)

lemma concat_split_inclusive: "concat (split_inclusive c s) = s"
  by (induction s) (auto split: list.splits)

text \<open>\<^verbatim>\<open>iter().filter(|&&b| b == c).count()\<close>.\<close>

definition count_byte :: "char \<Rightarrow> bytes \<Rightarrow> nat" where
  "count_byte c s = length (filter (\<lambda>b. b = c) s)"

lemma count_byte_simps [simp]:
  "count_byte c [] = 0"
  "count_byte c (x # s) = (if x = c then Suc (count_byte c s) else count_byte c s)"
  "count_byte c (s @ t) = count_byte c s + count_byte c t"
  by (simp_all add: count_byte_def)

lemma count_byte_0: "c \<notin> set s \<Longrightarrow> count_byte c s = 0"
  by (induction s) auto

lemma count_byte_unlines:
  "list_all one_line ls \<Longrightarrow> count_byte newline (unlines ls) = length ls"
  by (induction ls) (simp_all add: one_line_def count_byte_0)

section \<open>The lines of a text\<close>

text \<open>
  \<^verbatim>\<open>str::lines\<close> and \<^verbatim>\<open>BufRead::lines\<close>: a line ends in a newline or a carriage return and a newline,
  and a last line may have neither.
\<close>

definition text_line :: "bytes \<Rightarrow> bytes" where
  "text_line l =
     (case strip_suffix [newline] l of
        None \<Rightarrow> l
      | Some s \<Rightarrow> (case strip_suffix [CHR 0x0D] s of None \<Rightarrow> s | Some t \<Rightarrow> t))"

definition text_lines :: "bytes \<Rightarrow> bytes list" where
  "text_lines s = map text_line (split_inclusive newline s)"

end
