(* ===== verification/Numerals.thy ===== *)
theory Numerals
  imports Bytes
begin

text \<open>
  The prelude, second part: ASCII classes, decimal numbers as the program prints and parses them
  (\<^verbatim>\<open>format!\<close> and \<^verbatim>\<open>str::parse\<close> on \<^verbatim>\<open>u64\<close> and \<^verbatim>\<open>i64\<close>), UTF-8 validity
  and the \<^verbatim>\<open>str\<close> methods \<^verbatim>\<open>trim_end\<close>, \<^verbatim>\<open>split_once\<close> and \<^verbatim>\<open>rsplit_once\<close>,
  with the round trips the parsers rest on.
\<close>

section \<open>ASCII classes\<close>

definition is_ascii_digit :: "char \<Rightarrow> bool" where
  "is_ascii_digit c \<longleftrightarrow> c \<in> set ''0123456789''"

definition is_ascii_hexdigit :: "char \<Rightarrow> bool" where
  "is_ascii_hexdigit c \<longleftrightarrow> c \<in> set ''0123456789abcdefABCDEF''"

definition is_ascii_alphanumeric :: "char \<Rightarrow> bool" where
  "is_ascii_alphanumeric c \<longleftrightarrow>
     c \<in> set ''0123456789abcdefghijklmnopqrstuvwxyzABCDEFGHIJKLMNOPQRSTUVWXYZ''"

lemma is_ascii_hexdigit_not [simp]:
  "\<not> is_ascii_hexdigit newline" "\<not> is_ascii_hexdigit quote" "\<not> is_ascii_hexdigit backslash"
  "\<not> is_ascii_hexdigit CHR '' ''" "\<not> is_ascii_hexdigit CHR '',''" "\<not> is_ascii_hexdigit CHR ''}''"
  by (simp_all add: is_ascii_hexdigit_def)

lemma is_ascii_digit_not [simp]:
  "\<not> is_ascii_digit newline" "\<not> is_ascii_digit quote" "\<not> is_ascii_digit CHR '' ''"
  "\<not> is_ascii_digit CHR '',''" "\<not> is_ascii_digit CHR ''+''" "\<not> is_ascii_digit CHR ''-''"
  by (simp_all add: is_ascii_digit_def)

text \<open>A hash as the program carries it: the hex text of 32 bytes.\<close>

definition is_hex64 :: "bytes \<Rightarrow> bool" where
  "is_hex64 s \<longleftrightarrow> length s = 64 \<and> list_all is_ascii_hexdigit s"

lemma is_hex64_chars:
  assumes "is_hex64 s"
  shows "newline \<notin> set s" "quote \<notin> set s" "backslash \<notin> set s" "CHR '' '' \<notin> set s" "s \<noteq> []"
  using assms by (auto simp: is_hex64_def list_all_iff)

section \<open>Decimal digits\<close>

definition digit_char :: "nat \<Rightarrow> char" where
  "digit_char n = char_of (48 + n)"

definition digit_val :: "char \<Rightarrow> nat" where
  "digit_val c = of_char c - 48"

fun show_nat :: "nat \<Rightarrow> bytes" where
  "show_nat n = (if n < 10 then [digit_char n] else show_nat (n div 10) @ [digit_char (n mod 10)])"

declare show_nat.simps [simp del]

text \<open>The digits of a non-empty run of them, most significant first.\<close>

definition digits_val :: "bytes \<Rightarrow> nat" where
  "digits_val s = foldl (\<lambda>n c. 10 * n + digit_val c) 0 s"

definition parse_digits :: "bytes \<Rightarrow> nat option" where
  "parse_digits s = (if s \<noteq> [] \<and> list_all is_ascii_digit s then Some (digits_val s) else None)"

lemma digit_cases: "n < 10 \<Longrightarrow> n \<in> {0, 1, 2, 3, 4, 5, 6, 7, 8, 9 :: nat}"
  by auto

lemma digit_chars:
  "char_of (48 :: nat) = CHR ''0''" "char_of (49 :: nat) = CHR ''1''"
  "char_of (50 :: nat) = CHR ''2''" "char_of (51 :: nat) = CHR ''3''"
  "char_of (52 :: nat) = CHR ''4''" "char_of (53 :: nat) = CHR ''5''"
  "char_of (54 :: nat) = CHR ''6''" "char_of (55 :: nat) = CHR ''7''"
  "char_of (56 :: nat) = CHR ''8''" "char_of (57 :: nat) = CHR ''9''"
  by (simp_all add: char_of_eq_iff)

lemma digit_char_simps [simp]:
  "digit_char 0 = CHR ''0''" "digit_char (Suc 0) = CHR ''1''" "digit_char 1 = CHR ''1''"
  "digit_char 2 = CHR ''2''" "digit_char 3 = CHR ''3''" "digit_char 4 = CHR ''4''"
  "digit_char 5 = CHR ''5''" "digit_char 6 = CHR ''6''" "digit_char 7 = CHR ''7''"
  "digit_char 8 = CHR ''8''" "digit_char 9 = CHR ''9''"
  by (simp_all add: digit_char_def digit_chars)

lemma digit_char_props:
  assumes "n < 10"
  shows "is_ascii_digit (digit_char n)" "digit_val (digit_char n) = n"
proof -
  show "digit_val (digit_char n) = n"
    using assms by (simp add: digit_char_def digit_val_def)
  show "is_ascii_digit (digit_char n)"
    using digit_cases [OF assms] by (elim insertE emptyE) (simp_all add: is_ascii_digit_def)
qed

lemma digits_val_simps [simp]:
  "digits_val [] = 0"
  "digits_val (s @ [c]) = 10 * digits_val s + digit_val c"
  by (simp_all add: digits_val_def)

lemma digits_val_single [simp]: "digits_val [c] = digit_val c"
  by (simp add: digits_val_def)

lemma show_nat_digits: "list_all is_ascii_digit (show_nat n)"
proof (induction n rule: show_nat.induct)
  case (1 n)
  then show ?case by (subst show_nat.simps) (simp add: digit_char_props)
qed

lemma show_nat_not_Nil [simp]: "show_nat n \<noteq> []"
  by (subst show_nat.simps) simp

lemma digits_val_show_nat [simp]: "digits_val (show_nat n) = n"
proof (induction n rule: show_nat.induct)
  case (1 n)
  then show ?case by (subst show_nat.simps) (auto simp: digit_char_props)
qed

lemma parse_digits_show_nat [simp]: "parse_digits (show_nat n) = Some n"
  by (simp add: parse_digits_def show_nat_digits)

lemma show_nat_chars:
  "c \<in> set (show_nat n) \<Longrightarrow> is_ascii_digit c"
  using show_nat_digits by (simp add: list_all_iff)

lemma show_nat_inject [simp]: "show_nat m = show_nat n \<longleftrightarrow> m = n"
  by (metis digits_val_show_nat)

section \<open>Integers as text\<close>

text \<open>
  \<^verbatim>\<open>str::parse::<u64>\<close>: an optional \<open>+\<close>, then at least one digit and nothing else, and
  \<^verbatim>\<open>Err\<close> on overflow. For \<^verbatim>\<open>i64\<close> also a \<open>-\<close>.
\<close>

definition parse_u64 :: "bytes \<Rightarrow> u64 option" where
  "parse_u64 s =
     (case parse_digits (case s of c # r \<Rightarrow> if c = CHR ''+'' then r else s | [] \<Rightarrow> s) of
        None \<Rightarrow> None
      | Some n \<Rightarrow> if n < 2 ^ 64 then Some (word_of_nat n) else None)"

definition parse_i64 :: "bytes \<Rightarrow> i64 option" where
  "parse_i64 s =
     (case s of
        [] \<Rightarrow> None
      | c # r \<Rightarrow>
          if c = CHR ''-'' then
            (case parse_digits r of
               None \<Rightarrow> None
             | Some n \<Rightarrow> if n \<le> 2 ^ 63 then Some (- word_of_nat n) else None)
          else
            (case parse_digits (if c = CHR ''+'' then r else s) of
               None \<Rightarrow> None
             | Some n \<Rightarrow> if n < 2 ^ 63 then Some (word_of_nat n) else None))"

definition show_u64 :: "u64 \<Rightarrow> bytes" where
  "show_u64 n = show_nat (unat n)"

definition show_i64 :: "i64 \<Rightarrow> bytes" where
  "show_i64 n = (if sint n < 0 then CHR ''-'' # show_nat (nat (- sint n)) else show_nat (nat (sint n)))"

lemma show_nat_head:
  obtains c r where "show_nat n = c # r" "is_ascii_digit c"
  using show_nat_digits [of n] show_nat_not_Nil [of n] by (cases "show_nat n") auto

lemma unat_word_of_nat: "n < 2 ^ 64 \<Longrightarrow> unat (word_of_nat n :: u64) = n"
  by (simp add: unat_of_nat)

lemma unat_lt_2_64: "unat (n :: u64) < 2 ^ 64"
  using unsigned_less [of n, where ?'a = nat] by simp

lemma parse_show_u64 [simp]: "parse_u64 (show_u64 n) = Some n"
proof -
  obtain c r where cr: "show_nat (unat n) = c # r" "is_ascii_digit c"
    by (rule show_nat_head)
  then have "c \<noteq> CHR ''+''" by auto
  with cr have "parse_u64 (show_u64 n) = (case parse_digits (show_nat (unat n)) of
      None \<Rightarrow> None | Some n \<Rightarrow> if n < 2 ^ 64 then Some (word_of_nat n) else None)"
    by (simp add: parse_u64_def show_u64_def)
  then show ?thesis using unat_lt_2_64 [of n] by simp
qed

lemma show_u64_chars: "c \<in> set (show_u64 n) \<Longrightarrow> is_ascii_digit c"
  by (simp add: show_u64_def show_nat_chars)

lemma show_u64_not_Nil [simp]: "show_u64 n \<noteq> []"
  by (simp add: show_u64_def)

lemma show_u64_inject [simp]: "show_u64 m = show_u64 n \<longleftrightarrow> m = n"
  by (simp add: show_u64_def word_unat_eq_iff)

lemma show_u64_not_in [simp]:
  "newline \<notin> set (show_u64 n)" "quote \<notin> set (show_u64 n)" "CHR '' '' \<notin> set (show_u64 n)"
  "CHR '','' \<notin> set (show_u64 n)" "CHR ''.'' \<notin> set (show_u64 n)"
  using show_u64_chars by (auto simp: is_ascii_digit_def)

lemma show_i64_chars: "c \<in> set (show_i64 n) \<Longrightarrow> is_ascii_digit c \<or> c = CHR ''-''"
  by (auto simp: show_i64_def show_nat_chars split: if_splits)

lemma show_i64_not_in [simp]:
  "newline \<notin> set (show_i64 n)" "quote \<notin> set (show_i64 n)" "CHR '','' \<notin> set (show_i64 n)"
  using show_i64_chars by fastforce+

lemma sint_range_64: "- (2 ^ 63) \<le> sint (n :: i64)" "sint (n :: i64) < 2 ^ 63"
  using sint_ge [of n] sint_lt [of n] by simp_all

lemma parse_show_i64 [simp]: "parse_i64 (show_i64 n) = Some n"
proof (cases "sint n < 0")
  case True
  have "nat (- sint n) \<le> 2 ^ 63" using sint_range_64 [of n] True by simp
  moreover have "- (word_of_nat (nat (- sint n)) :: i64) = n"
    using True by (simp add: of_nat_nat)
  ultimately show ?thesis using True by (simp add: parse_i64_def show_i64_def)
next
  case False
  obtain c r where cr: "show_nat (nat (sint n)) = c # r" "is_ascii_digit c"
    by (rule show_nat_head)
  then have c: "c \<noteq> CHR ''+''" "c \<noteq> CHR ''-''" by auto
  have "nat (sint n) < 2 ^ 63" using sint_range_64 [of n] False by simp
  moreover have "(word_of_nat (nat (sint n)) :: i64) = n"
    using False by (simp add: of_nat_nat)
  moreover have "parse_digits (c # r) = Some (nat (sint n))"
    using cr(1) by (metis parse_digits_show_nat)
  ultimately show ?thesis using False c by (simp add: parse_i64_def show_i64_def cr(1))
qed

section \<open>UTF-8\<close>

text \<open>
  \<^verbatim>\<open>str::from_utf8(..).ok()\<close>: the Unicode table of well-formed byte sequences, which has no
  overlong forms, no surrogates and nothing above U+10FFFF.
\<close>

definition byte_in :: "nat \<Rightarrow> nat \<Rightarrow> char \<Rightarrow> bool" where
  "byte_in lo hi c \<longleftrightarrow> lo \<le> of_char c \<and> of_char c \<le> hi"

fun utf8_valid :: "bytes \<Rightarrow> bool" where
  "utf8_valid [] = True"
| "utf8_valid (a # s) =
     (if byte_in 0 0x7F a then utf8_valid s
      else (case s of
        [] \<Rightarrow> False
      | b # t \<Rightarrow>
          if byte_in 0xC2 0xDF a then byte_in 0x80 0xBF b \<and> utf8_valid t
          else (case t of
            [] \<Rightarrow> False
          | c # u \<Rightarrow>
              if byte_in 0xE0 0xEF a then
                byte_in (if byte_in 0xE0 0xE0 a then 0xA0 else 0x80)
                        (if byte_in 0xED 0xED a then 0x9F else 0xBF) b
                \<and> byte_in 0x80 0xBF c \<and> utf8_valid u
              else (case u of
                [] \<Rightarrow> False
              | d # v \<Rightarrow>
                  byte_in 0xF0 0xF4 a
                  \<and> byte_in (if byte_in 0xF0 0xF0 a then 0x90 else 0x80)
                            (if byte_in 0xF4 0xF4 a then 0x8F else 0xBF) b
                  \<and> byte_in 0x80 0xBF c \<and> byte_in 0x80 0xBF d \<and> utf8_valid v))))"

definition from_utf8 :: "bytes \<Rightarrow> bytes option" where
  "from_utf8 s = (if utf8_valid s then Some s else None)"

lemma utf8_valid_ascii: "list_all (byte_in 0 0x7F) s \<Longrightarrow> utf8_valid s"
  by (induction s) auto

lemma utf8_valid_ascii_append [simp]:
  "list_all (byte_in 0 0x7F) s \<Longrightarrow> utf8_valid (s @ t) = utf8_valid t"
  by (induction s) auto

lemma ascii_hexdigit [simp]: "is_ascii_hexdigit c \<Longrightarrow> byte_in 0 0x7F c"
  by (auto simp: is_ascii_hexdigit_def byte_in_def)

lemma ascii_digit [simp]: "is_ascii_digit c \<Longrightarrow> byte_in 0 0x7F c"
  by (auto simp: is_ascii_digit_def byte_in_def)

lemma ascii_byte: "byte_in 0 0x7F newline" "byte_in 0 0x7F CHR '' ''"
  by (simp_all add: byte_in_def)

lemma from_utf8_Some: "from_utf8 s = Some t \<longleftrightarrow> t = s \<and> utf8_valid s"
  by (auto simp: from_utf8_def)

lemma utf8_valid_digits: "list_all is_ascii_digit s \<Longrightarrow> utf8_valid s"
  by (rule utf8_valid_ascii) (auto simp: list_all_iff)

lemma utf8_valid_hex: "list_all is_ascii_hexdigit s \<Longrightarrow> utf8_valid s"
  by (rule utf8_valid_ascii) (auto simp: list_all_iff)

lemma utf8_valid_show_u64 [simp]: "utf8_valid (show_u64 n)"
  by (simp add: show_u64_def utf8_valid_digits show_nat_digits)

lemma utf8_valid_show_i64 [simp]: "utf8_valid (show_i64 n)"
  using utf8_valid_digits [OF show_nat_digits]
  by (simp add: show_i64_def byte_in_def)

section \<open>Methods of \<^verbatim>\<open>str\<close>\<close>

text \<open>
  \<^verbatim>\<open>char::is_whitespace\<close> on the UTF-8 encoding: the one-byte, two-byte and three-byte
  characters of the Unicode property White\_Space.
\<close>

definition ws1 :: "char \<Rightarrow> bool" where
  "ws1 a \<longleftrightarrow> byte_in 0x09 0x0D a \<or> a = CHR '' ''"

definition ws2 :: "char \<Rightarrow> char \<Rightarrow> bool" where
  "ws2 a b \<longleftrightarrow> a = CHR 0xC2 \<and> (b = CHR 0x85 \<or> b = CHR 0xA0)"

definition ws3 :: "char \<Rightarrow> char \<Rightarrow> char \<Rightarrow> bool" where
  "ws3 a b c \<longleftrightarrow>
     a = CHR 0xE1 \<and> b = CHR 0x9A \<and> c = CHR 0x80
   \<or> a = CHR 0xE2 \<and> b = CHR 0x80
       \<and> (byte_in 0x80 0x8A c \<or> c = CHR 0xA8 \<or> c = CHR 0xA9 \<or> c = CHR 0xAF)
   \<or> a = CHR 0xE2 \<and> b = CHR 0x81 \<and> c = CHR 0x9F
   \<or> a = CHR 0xE3 \<and> b = CHR 0x80 \<and> c = CHR 0x80"

text \<open>\<^verbatim>\<open>trim_end\<close>, on the reversed bytes.\<close>

fun trim_end_rev :: "bytes \<Rightarrow> bytes" where
  "trim_end_rev [] = []"
| "trim_end_rev (c # s) =
     (if ws1 c then trim_end_rev s
      else (case s of
        [] \<Rightarrow> c # s
      | b # t \<Rightarrow>
          if ws2 b c then trim_end_rev t
          else (case t of
            [] \<Rightarrow> c # s
          | a # u \<Rightarrow> if ws3 a b c then trim_end_rev u else c # s)))"

definition trim_end :: "bytes \<Rightarrow> bytes" where
  "trim_end s = rev (trim_end_rev (rev s))"

fun trim_start :: "bytes \<Rightarrow> bytes" where
  "trim_start [] = []"
| "trim_start (a # s) =
     (if ws1 a then trim_start s
      else (case s of
        [] \<Rightarrow> a # s
      | b # t \<Rightarrow>
          if ws2 a b then trim_start t
          else (case t of
            [] \<Rightarrow> a # s
          | c # u \<Rightarrow> if ws3 a b c then trim_start u else a # s)))"

definition trim :: "bytes \<Rightarrow> bytes" where
  "trim s = trim_end (trim_start s)"

definition split_once :: "char \<Rightarrow> bytes \<Rightarrow> (bytes \<times> bytes) option" where
  "split_once c s = map_option (\<lambda>i. (take i s, drop (Suc i) s)) (position_byte c s)"

definition rsplit_once :: "char \<Rightarrow> bytes \<Rightarrow> (bytes \<times> bytes) option" where
  "rsplit_once c s = map_option (\<lambda>(b, a). (rev a, rev b)) (split_once c (rev s))"

lemma split_once_append [simp]: "c \<notin> set s \<Longrightarrow> split_once c (s @ c # t) = Some (s, t)"
  by (simp add: split_once_def)

lemma split_once_Some: "split_once c s = Some (a, b) \<longleftrightarrow> s = a @ c # b \<and> c \<notin> set a"
proof
  assume "split_once c s = Some (a, b)"
  then obtain i where i: "position_byte c s = Some i" "a = take i s" "b = drop (Suc i) s"
    by (auto simp: split_once_def)
  with position_byte_Some [OF i(1)] show "s = a @ c # b \<and> c \<notin> set a"
    by (metis append_take_drop_id Cons_nth_drop_Suc)
qed auto

lemma split_once_None: "split_once c s = None \<longleftrightarrow> c \<notin> set s"
  by (simp add: split_once_def position_byte_None)

lemma rsplit_once_Some: "rsplit_once c s = Some (a, b) \<longleftrightarrow> s = a @ c # b \<and> c \<notin> set b"
proof -
  have "rsplit_once c s = Some (a, b) \<longleftrightarrow> split_once c (rev s) = Some (rev b, rev a)"
    by (auto simp: rsplit_once_def)
  also have "\<dots> \<longleftrightarrow> s = a @ c # b \<and> c \<notin> set b"
    unfolding split_once_Some by (metis rev.simps(2) rev_append rev_rev_ident set_rev append.assoc append_Cons append_Nil)
  finally show ?thesis .
qed

lemma rsplit_once_None: "rsplit_once c s = None \<longleftrightarrow> c \<notin> set s"
  by (simp add: rsplit_once_def split_once_None)

lemma trim_end_printable:
  assumes "s \<noteq> []" "byte_in 0x21 0x7E (last s)"
  shows "trim_end (s @ [newline]) = s" "trim_end s = s"
proof -
  obtain t c where s: "s = t @ [c]" using assms(1) by (metis append_butlast_last_id)
  with assms(2) have "\<not> ws1 c" "\<And>b. \<not> ws2 b c" "\<And>a b. \<not> ws3 a b c"
    by (auto simp: byte_in_def ws1_def ws2_def ws3_def)
  then have "trim_end_rev (c # rev t) = c # rev t"
    by (simp split: list.split)
  then show "trim_end (s @ [newline]) = s" "trim_end s = s"
    by (simp_all add: s trim_end_def ws1_def byte_in_def)
qed

lemmas trim_end_newline = trim_end_printable(1)
lemmas trim_end_id = trim_end_printable(2)

lemma trim_start_plain:
  "\<not> ws1 c \<Longrightarrow> c \<notin> {CHR 0xC2, CHR 0xE1, CHR 0xE2, CHR 0xE3} \<Longrightarrow> trim_start (c # s) = c # s"
  by (auto simp: ws2_def ws3_def split: list.splits)

lemma trim_printable:
  assumes "s \<noteq> []" "byte_in 0x21 0x7E (hd s)" "byte_in 0x21 0x7E (last s)"
  shows "trim s = s"
proof -
  obtain c t where s: "s = c # t" using assms(1) by (cases s) auto
  have b: "byte_in 0x21 0x7E c" using assms(2) s by simp
  have "\<not> ws1 c" "c \<notin> {CHR 0xC2, CHR 0xE1, CHR 0xE2, CHR 0xE3}"
    using b by (auto simp: ws1_def byte_in_def)
  then have "trim_start s = s" unfolding s by (rule trim_start_plain)
  then show ?thesis using trim_end_id [OF assms(1,3)] by (simp add: trim_def)
qed

end
