(* ===== verification/HookInput.thy ===== *)
theory HookInput
  imports Numerals
begin

text \<open>
  The typed model of a Claude Code hook payload, \<^verbatim>\<open>src/src/hook/input.rs\<close>: the common
  fields, the seven events with a typed body, and \<^verbatim>\<open>HookInput::from_str\<close>.

  \<^verbatim>\<open>serde_json\<close> is a third-party crate, so its \<^verbatim>\<open>Value\<close> is a type variable \<open>'v\<close> with
  the accessors the program calls in a record \<open>value_api\<close>, and its parser and the deserialisers
  that \<^verbatim>\<open>#[derive(Deserialize)]\<close> generates are arguments of \<open>from_str\<close>. What
  \<^verbatim>\<open>serde\<close> reports when a payload does not fit is an opaque error value \<open>'e\<close>.
\<close>

section \<open>The JSON values the program reads\<close>

record 'v value_api =
  as_str :: "'v \<Rightarrow> bytes option"
  as_object :: "'v \<Rightarrow> (bytes \<rightharpoonup> 'v) option"
  of_string :: "bytes \<Rightarrow> 'v"
  of_object :: "(bytes \<rightharpoonup> 'v) \<Rightarrow> 'v"

text \<open>\<^verbatim>\<open>Value::get\<close> with a string: \<^verbatim>\<open>None\<close> unless the value is an object with that key.\<close>

definition value_get :: "'v value_api \<Rightarrow> 'v \<Rightarrow> bytes \<Rightarrow> 'v option" where
  "value_get api v k = (case as_object api v of None \<Rightarrow> None | Some m \<Rightarrow> m k)"

section \<open>Payload types\<close>

datatype permission_mode =
    PM_Default | PM_Plan | PM_AcceptEdits | PM_Auto | PM_DontAsk | PM_BypassPermissions
  | PM_Other bytes

datatype session_source =
    SS_Startup | SS_Resume | SS_Clear | SS_Compact | SS_Fork | SS_Other bytes

datatype session_end_reason =
    SE_Clear | SE_Resume | SE_Logout | SE_PromptInputExit | SE_Other | SE_Unrecognised bytes

record common =
  session_id :: bytes
  hook_event_name :: bytes
  transcript_path :: "bytes option"
  cwd :: bytes
  permission_mode :: "permission_mode option"
  prompt_id :: "bytes option"
  agent_id :: "bytes option"
  agent_type :: "bytes option"

record session_start = ss_source :: session_source
record session_end = se_reason :: session_end_reason
record user_prompt_submit = ups_prompt :: bytes

record stop =
  stop_hook_active :: bool
  last_assistant_message :: "bytes option"

record 'v tool_use =
  tool_name :: bytes
  tool_input :: 'v
  tool_use_id :: bytes

record 'v pre_tool_use = ptu_tool :: "'v tool_use"

record 'v post_tool_use =
  post_tool :: "'v tool_use"
  post_tool_response :: 'v
  post_duration_ms :: "u64 option"

record 'v post_tool_use_failure =
  fail_tool :: "'v tool_use"
  fail_error :: bytes
  fail_duration_ms :: "u64 option"

datatype 'v hook_event =
    HE_SessionStart session_start
  | HE_SessionEnd session_end
  | HE_UserPromptSubmit user_prompt_submit
  | HE_Stop stop
  | HE_PreToolUse "'v pre_tool_use"
  | HE_PostToolUse "'v post_tool_use"
  | HE_PostToolUseFailure "'v post_tool_use_failure"
  | HE_Other bytes

definition TYPED_NAMES :: "bytes list" where
  "TYPED_NAMES =
     [''SessionStart'', ''SessionEnd'', ''UserPromptSubmit'', ''Stop'', ''PreToolUse'',
      ''PostToolUse'', ''PostToolUseFailure'']"

text \<open>The value of the \<^verbatim>\<open>hook_event_name\<close> tag that selects each variant.\<close>

fun variant_name :: "'v hook_event \<Rightarrow> bytes" where
  "variant_name (HE_SessionStart _) = ''SessionStart''"
| "variant_name (HE_SessionEnd _) = ''SessionEnd''"
| "variant_name (HE_UserPromptSubmit _) = ''UserPromptSubmit''"
| "variant_name (HE_Stop _) = ''Stop''"
| "variant_name (HE_PreToolUse _) = ''PreToolUse''"
| "variant_name (HE_PostToolUse _) = ''PostToolUse''"
| "variant_name (HE_PostToolUseFailure _) = ''PostToolUseFailure''"
| "variant_name (HE_Other n) = n"

fun is_HE_Other :: "'v hook_event \<Rightarrow> bool" where
  "is_HE_Other (HE_Other _) = True"
| "is_HE_Other _ = False"

record 'v hook_input =
  common_of :: common
  event_of :: "'v hook_event"
  raw_of :: "bytes \<rightharpoonup> 'v"

datatype 'e parse_error =
    PE_Json 'e
  | PE_MissingEventName
  | PE_Common 'e
  | PE_Event bytes 'e

section \<open>Parsing a payload\<close>

text \<open>
  \<^verbatim>\<open>HookInput::from_str\<close>. \<open>parse\<close> is \<^verbatim>\<open>serde_json::from_str::<Value>\<close>, \<open>custom v\<close> the error
  \<^verbatim>\<open>serde::de::Error::custom\<close> makes of a value that is no object, \<open>de_common\<close> and
  \<open>de_event\<close> the derived deserialisers.
\<close>

definition from_str ::
  "'v value_api \<Rightarrow> (bytes \<Rightarrow> 'e + 'v) \<Rightarrow> ('v \<Rightarrow> 'e) \<Rightarrow> ('v \<Rightarrow> 'e + common) \<Rightarrow> ('v \<Rightarrow> 'e + 'v hook_event)
   \<Rightarrow> bytes \<Rightarrow> 'e parse_error + 'v hook_input" where
  "from_str api parse custom de_common de_event raw =
     (case parse raw of
        Inl e \<Rightarrow> Inl (PE_Json e)
      | Inr value \<Rightarrow>
     (case as_object api value of
        None \<Rightarrow> Inl (PE_Json (custom value))
      | Some m \<Rightarrow>
     (case Option.bind (m ''hook_event_name'') (as_str api) of
        None \<Rightarrow> Inl PE_MissingEventName
      | Some name \<Rightarrow>
     (case de_common value of
        Inl e \<Rightarrow> Inl (PE_Common e)
      | Inr common \<Rightarrow>
          (if name \<in> set TYPED_NAMES
           then (case de_event value of
                   Inl e \<Rightarrow> Inl (PE_Event name e)
                 | Inr event \<Rightarrow> Inr \<lparr>common_of = common, event_of = event, raw_of = m\<rparr>)
           else Inr \<lparr>common_of = common, event_of = HE_Other name, raw_of = m\<rparr>)))))"

text \<open>
  What \<^verbatim>\<open>serde\<close> documents of an internally tagged enum whose last variant is skipped: the
  variant it returns is the one the tag names, and never the skipped one.
\<close>

definition tagged :: "'v value_api \<Rightarrow> ('v \<Rightarrow> 'e + 'v hook_event) \<Rightarrow> bool" where
  "tagged api de_event \<longleftrightarrow>
     (\<forall>v e. de_event v = Inr e \<longrightarrow> \<not> is_HE_Other e \<and>
        Option.bind (value_get api v ''hook_event_name'') (as_str api) = Some (variant_name e))"

lemma tagged_name:
  "tagged api de_event \<Longrightarrow> de_event v = Inr e \<Longrightarrow> as_object api v = Some m \<Longrightarrow>
   Option.bind (m ''hook_event_name'') (as_str api) = Some name \<Longrightarrow>
   variant_name e = name \<and> \<not> is_HE_Other e"
  by (force simp: tagged_def value_get_def)

lemma variant_name_typed: "\<not> is_HE_Other e \<Longrightarrow> variant_name e \<in> set TYPED_NAMES"
  by (cases e) (simp_all add: TYPED_NAMES_def)

text \<open>The payload a successful parse came from, with every check that passed on the way.\<close>

lemma from_str_Inr:
  assumes "from_str api parse custom de_common de_event raw = Inr inp"
  obtains v name where "parse raw = Inr v" "as_object api v = Some (raw_of inp)"
    "Option.bind (raw_of inp ''hook_event_name'') (as_str api) = Some name"
    "de_common v = Inr (common_of inp)"
    "if name \<in> set TYPED_NAMES then de_event v = Inr (event_of inp) else event_of inp = HE_Other name"
  using assms
  by (auto simp: from_str_def split: sum.splits option.splits if_splits)

end
