(* ===== verification/Frame.thy ===== *)
theory Frame
  imports HookInput
begin

text \<open>
  One frame of the session log, \<^verbatim>\<open>src/src/hook/event.rs\<close>: the event, its transform from a hook
  payload, its serialisation, and the splice of the hash with \<^verbatim>\<open>seal\<close> and
  \<^verbatim>\<open>split_sealed\<close>.

  BLAKE3 is a parameter \<open>H\<close>: the hex text \<^verbatim>\<open>blake3::hash(bytes).to_hex()\<close> of some bytes.
  \<^verbatim>\<open>serde_json\<close> writes the members of a struct in declaration order and without blanks, which
  \<open>event_json\<close> spells out for \<^verbatim>\<open>Event\<close>; how it writes one string is a parameter \<open>js\<close>, and how it
  writes a body is a parameter \<open>bj\<close>.
\<close>

section \<open>Data\<close>

datatype kind = K_SessionStart | K_Prompt | K_ToolCall | K_ToolResult | K_SessionEnd | K_TurnEnd | K_Hook

text \<open>The wire name of a kind, by \<^verbatim>\<open>rename_all = "snake_case"\<close>.\<close>

fun kind_str :: "kind \<Rightarrow> bytes" where
  "kind_str K_SessionStart = ''session_start''"
| "kind_str K_Prompt = ''prompt''"
| "kind_str K_ToolCall = ''tool_call''"
| "kind_str K_ToolResult = ''tool_result''"
| "kind_str K_SessionEnd = ''session_end''"
| "kind_str K_TurnEnd = ''turn_end''"
| "kind_str K_Hook = ''hook''"

datatype 'v detail =
    D_SessionStart bytes
  | D_Prompt bytes
  | D_ToolCall bytes bytes 'v "bytes option" "bytes list option"
  | D_ToolResult bytes bytes "'v option" 'v bool "u64 option"
  | D_SessionEnd bytes
  | D_TurnEnd bool "bytes option"
  | D_Hook "bytes \<rightharpoonup> 'v"

record 'v body =
  b_cwd :: bytes
  b_transcript_path :: "bytes option"
  b_hook_event_name :: bytes
  b_permission_mode :: "bytes option"
  b_prompt_id :: "bytes option"
  b_agent_id :: "bytes option"
  b_agent_type :: "bytes option"
  b_hook_ppid :: "32 word option"
  b_detail :: "'v detail"

record 'v event =
  ev_v :: "16 word"
  ev_session_id :: bytes
  ev_seq :: u64
  ev_ts :: i64
  ev_host :: bytes
  ev_source :: bytes
  ev_kind :: kind
  ev_prev :: bytes
  ev_body :: "'v body"
  ev_hash :: "bytes option"

record invocation =
  inv_ts :: i64
  inv_host :: bytes
  inv_hook_ppid :: "32 word"

definition SCHEMA_VERSION :: "16 word" where
  "SCHEMA_VERSION = 0"

definition SOURCE_CLAUDE_CODE :: bytes where
  "SOURCE_CLAUDE_CODE = ''intent:claude-code''"

section \<open>From a payload to an event\<close>

text \<open>
  \<^verbatim>\<open>enum_str\<close> on the three string-only enums a body carries: their wire names, by the
  \<^verbatim>\<open>rename\<close> attributes of \<^verbatim>\<open>input.rs\<close>.
\<close>

fun permission_mode_str :: "permission_mode \<Rightarrow> bytes" where
  "permission_mode_str PM_Default = ''default''"
| "permission_mode_str PM_Plan = ''plan''"
| "permission_mode_str PM_AcceptEdits = ''acceptEdits''"
| "permission_mode_str PM_Auto = ''auto''"
| "permission_mode_str PM_DontAsk = ''dontAsk''"
| "permission_mode_str PM_BypassPermissions = ''bypassPermissions''"
| "permission_mode_str (PM_Other s) = s"

fun session_source_str :: "session_source \<Rightarrow> bytes" where
  "session_source_str SS_Startup = ''startup''"
| "session_source_str SS_Resume = ''resume''"
| "session_source_str SS_Clear = ''clear''"
| "session_source_str SS_Compact = ''compact''"
| "session_source_str SS_Fork = ''fork''"
| "session_source_str (SS_Other s) = s"

fun session_end_reason_str :: "session_end_reason \<Rightarrow> bytes" where
  "session_end_reason_str SE_Clear = ''clear''"
| "session_end_reason_str SE_Resume = ''resume''"
| "session_end_reason_str SE_Logout = ''logout''"
| "session_end_reason_str SE_PromptInputExit = ''prompt_input_exit''"
| "session_end_reason_str SE_Other = ''other''"
| "session_end_reason_str (SE_Unrecognised s) = s"

definition hoist_argv :: "'v value_api \<Rightarrow> bytes \<Rightarrow> 'v \<Rightarrow> bytes option" where
  "hoist_argv api name input =
     (if name = ''Bash'' \<or> name = ''PowerShell''
      then Option.bind (value_get api input ''command'') (as_str api) else None)"

definition PATH_KEYS :: "bytes list" where
  "PATH_KEYS = [''file_path'', ''notebook_path'']"

definition hoist_paths :: "'v value_api \<Rightarrow> 'v \<Rightarrow> bytes list option" where
  "hoist_paths api input =
     (let paths = List.map_filter (\<lambda>k. Option.bind (value_get api input k) (as_str api)) PATH_KEYS
      in if paths = [] then None else Some paths)"

fun from_hook_event :: "'v value_api \<Rightarrow> 'v hook_event \<Rightarrow> (bytes \<rightharpoonup> 'v) \<Rightarrow> kind \<times> 'v detail" where
  "from_hook_event api (HE_SessionStart e) raw =
     (K_SessionStart, D_SessionStart (session_source_str (ss_source e)))"
| "from_hook_event api (HE_UserPromptSubmit e) raw = (K_Prompt, D_Prompt (ups_prompt e))"
| "from_hook_event api (HE_PreToolUse e) raw =
     (let t = ptu_tool e;
          argv = hoist_argv api (tool_name t) (tool_input t);
          paths = hoist_paths api (tool_input t)
      in (K_ToolCall, D_ToolCall (tool_use_id t) (tool_name t) (tool_input t) argv paths))"
| "from_hook_event api (HE_PostToolUse e) raw =
     (let t = post_tool e
      in (K_ToolResult, D_ToolResult (tool_use_id t) (tool_name t) (Some (tool_input t))
            (post_tool_response e) True (post_duration_ms e)))"
| "from_hook_event api (HE_PostToolUseFailure e) raw =
     (let t = fail_tool e
      in (K_ToolResult, D_ToolResult (tool_use_id t) (tool_name t) (Some (tool_input t))
            (of_string api (fail_error e)) False (fail_duration_ms e)))"
| "from_hook_event api (HE_SessionEnd e) raw =
     (K_SessionEnd, D_SessionEnd (session_end_reason_str (se_reason e)))"
| "from_hook_event api (HE_Stop e) raw =
     (K_TurnEnd, D_TurnEnd (stop_hook_active e) (last_assistant_message e))"
| "from_hook_event api (HE_Other n) raw = (K_Hook, D_Hook raw)"

definition body_new :: "common \<Rightarrow> 32 word \<Rightarrow> 'v detail \<Rightarrow> 'v body" where
  "body_new c ppid detail =
     \<lparr>b_cwd = cwd c, b_transcript_path = transcript_path c,
      b_hook_event_name = hook_event_name c,
      b_permission_mode = map_option permission_mode_str (permission_mode c),
      b_prompt_id = prompt_id c, b_agent_id = agent_id c, b_agent_type = agent_type c,
      b_hook_ppid = Some ppid, b_detail = detail\<rparr>"

definition event_new :: "'v value_api \<Rightarrow> 'v hook_input \<Rightarrow> invocation \<Rightarrow> 'v event" where
  "event_new api input facts =
     (let (kind, detail) = from_hook_event api (event_of input) (raw_of input);
          common = common_of input
      in \<lparr>ev_v = SCHEMA_VERSION, ev_session_id = session_id common, ev_seq = 0,
          ev_ts = inv_ts facts, ev_host = inv_host facts, ev_source = SOURCE_CLAUDE_CODE,
          ev_kind = kind, ev_prev = [], ev_body = body_new common (inv_hook_ppid facts) detail,
          ev_hash = None\<rparr>)"

section \<open>Serialisation and the hash splice\<close>

definition genesis_prev :: "(bytes \<Rightarrow> bytes) \<Rightarrow> bytes \<Rightarrow> bytes" where
  "genesis_prev H sid = H sid"

text \<open>
  \<^verbatim>\<open>serde_json::to_string(self)\<close>: the members in declaration order; \<^verbatim>\<open>hash\<close> is skipped when it
  is \<^verbatim>\<open>None\<close>.
\<close>

definition event_json :: "(bytes \<Rightarrow> bytes) \<Rightarrow> ('v body \<Rightarrow> bytes) \<Rightarrow> 'v event \<Rightarrow> bytes" where
  "event_json js bj e =
     ''{\"v\":'' @ show_nat (unat (ev_v e)) @ '',\"session_id\":'' @ js (ev_session_id e)
     @ '',\"seq\":'' @ show_u64 (ev_seq e) @ '',\"ts\":'' @ show_i64 (ev_ts e)
     @ '',\"host\":'' @ js (ev_host e) @ '',\"source\":'' @ js (ev_source e)
     @ '',\"kind\":'' @ js (kind_str (ev_kind e)) @ '',\"prev\":'' @ js (ev_prev e)
     @ '',\"body\":'' @ bj (ev_body e)
     @ (case ev_hash e of None \<Rightarrow> [] | Some h \<Rightarrow> '',\"hash\":'' @ js h) @ ''}''"

text \<open>
  \<^verbatim>\<open>Event::seal\<close>: the line for the log, its newline included, and its hash. \<open>seal_text\<close> is the
  part after the serialisation: \<^verbatim>\<open>pop\<close> the closing brace and push the \<^verbatim>\<open>hash\<close> member.
\<close>

definition seal_text :: "(bytes \<Rightarrow> bytes) \<Rightarrow> bytes \<Rightarrow> bytes \<times> bytes" where
  "seal_text H line =
     (let hash = H line
      in (butlast line @ '',\"hash\":\"'' @ hash @ ''\"}'' @ [newline], hash))"

definition seal ::
  "(bytes \<Rightarrow> bytes) \<Rightarrow> (bytes \<Rightarrow> bytes) \<Rightarrow> ('v body \<Rightarrow> bytes) \<Rightarrow> 'v event \<Rightarrow> bytes \<times> bytes" where
  "seal H js bj e = seal_text H (event_json js bj e)"

text \<open>\<^verbatim>\<open>split_sealed\<close>: the bytes before the \<^verbatim>\<open>hash\<close> member, and the 64 hex digits in it.\<close>

definition split_sealed :: "bytes \<Rightarrow> (bytes \<times> bytes) option" where
  "split_sealed line0 =
     (let line = (case strip_suffix [newline] line0 of Some l \<Rightarrow> l | None \<Rightarrow> line0) in
      case strip_suffix ''\"}'' line of
        None \<Rightarrow> None
      | Some rest \<Rightarrow>
          if length rest < 64 then None
          else (let at = length rest - 64; hash = drop at rest in
            case strip_suffix '',\"hash\":\"'' (take at rest) of
              None \<Rightarrow> None
            | Some pre \<Rightarrow>
                if \<not> list_all is_ascii_hexdigit hash then None
                else map_option (\<lambda>h. (pre, h)) (from_utf8 hash)))"

definition hash_sealed_prefix :: "(bytes \<Rightarrow> bytes) \<Rightarrow> bytes \<Rightarrow> bytes" where
  "hash_sealed_prefix H pre = H (pre @ ''}'')"

text \<open>The line, without its newline, that has this prefix and hash: the inverse of the split.\<close>

definition sealed_line :: "bytes \<Rightarrow> bytes \<Rightarrow> bytes" where
  "sealed_line pre h = pre @ '',\"hash\":\"'' @ h @ ''\"}''"

end
