(* ===== verification/LinkedRun.thy ===== *)
theory LinkedRun
  imports Numerals
begin

text \<open>
  The interface two components share: a run of items, each of which names its position and the
  hash of the item before it, checked from the front with the expected position and hash threaded
  through. \<^verbatim>\<open>verify_segment\<close> walks the frames of a log this way, and \<^verbatim>\<open>verify_linkage\<close>
  the entries of a batch's index. \<open>walk\<close> is the loop; the locale \<open>linked_run\<close> states what one
  check promises and proves once what the loop then means.
\<close>

section \<open>The loop\<close>

fun walk :: "(u64 \<Rightarrow> 'a \<Rightarrow> 'h \<Rightarrow> 'e + 'h) \<Rightarrow> u64 \<Rightarrow> 'a list \<Rightarrow> 'h \<Rightarrow> 'e + (u64 \<times> 'h)" where
  "walk check s [] p = Inr (s, p)"
| "walk check s (x # xs) p =
     (case check s x p of Inl e \<Rightarrow> Inl e | Inr h \<Rightarrow> walk check (s + 1) xs h)"

lemma walk_append:
  "walk check s (xs @ ys) p =
     (case walk check s xs p of Inl e \<Rightarrow> Inl e | Inr (s', p') \<Rightarrow> walk check s' ys p')"
  by (induction xs arbitrary: s p) (auto split: sum.split)

text \<open>The first failure of a run is the failure of its first bad item.\<close>

lemma walk_Inl:
  assumes "walk check s xs p = Inl e"
  shows "\<exists>ys x zs s' p'. xs = ys @ x # zs \<and> walk check s ys p = Inr (s', p') \<and> check s' x p' = Inl e"
  using assms
proof (induction xs arbitrary: s p)
  case (Cons x xs)
  show ?case
  proof (cases "check s x p")
    case (Inl f)
    with Cons.prems have "x # xs = [] @ x # xs \<and> walk check s [] p = Inr (s, p) \<and> check s x p = Inl e"
      by simp
    then show ?thesis by blast
  next
    case (Inr h)
    with Cons.prems obtain ys y zs s' p' where
      "xs = ys @ y # zs" "walk check (s + 1) ys h = Inr (s', p')" "check s' y p' = Inl e"
      using Cons.IH by force
    with Inr have "x # xs = (x # ys) @ y # zs \<and> walk check s (x # ys) p = Inr (s', p') \<and>
      check s' y p' = Inl e" by simp
    then show ?thesis by blast
  qed
qed simp

section \<open>What a linked run is\<close>

definition linked ::
  "('a \<Rightarrow> bool) \<Rightarrow> ('a \<Rightarrow> u64) \<Rightarrow> ('a \<Rightarrow> 'h) \<Rightarrow> ('a \<Rightarrow> 'h) \<Rightarrow> u64 \<Rightarrow> 'h \<Rightarrow> 'a list \<Rightarrow> bool" where
  "linked ok seq_of prev_of hash_of s p xs \<longleftrightarrow>
     (\<forall>i < length xs. ok (xs ! i) \<and> seq_of (xs ! i) = s + word_of_nat i
        \<and> prev_of (xs ! i) = (if i = 0 then p else hash_of (xs ! (i - 1))))"

lemma linked_Nil [simp]: "linked ok sq pr hs s p []"
  by (simp add: linked_def)

lemma all_less_Suc_shift: "(\<forall>i < Suc n. P i) \<longleftrightarrow> P 0 \<and> (\<forall>i < n. P (Suc i))"
  by (metis less_Suc_eq_0_disj less_nat_zero_code not0_implies_Suc Suc_less_eq zero_less_Suc)

lemma linked_Cons [simp]:
  "linked ok sq pr hs s p (x # xs) \<longleftrightarrow>
     ok x \<and> sq x = s \<and> pr x = p \<and> linked ok sq pr hs (s + 1) (hs x) xs"
proof -
  have "linked ok sq pr hs s p (x # xs) \<longleftrightarrow> (ok x \<and> sq x = s \<and> pr x = p) \<and>
      (\<forall>i < length xs. ok (xs ! i) \<and> sq (xs ! i) = s + word_of_nat (Suc i) \<and>
         pr (xs ! i) = hs ((x # xs) ! i))"
    unfolding linked_def length_Cons all_less_Suc_shift by simp
  also have "\<dots> \<longleftrightarrow> (ok x \<and> sq x = s \<and> pr x = p) \<and> linked ok sq pr hs (s + 1) (hs x) xs"
    unfolding linked_def
    by (auto simp: algebra_simps nth_Cons' split: if_splits)
  finally show ?thesis by simp
qed

section \<open>The interface\<close>

locale linked_run =
  fixes check :: "u64 \<Rightarrow> 'a \<Rightarrow> 'h \<Rightarrow> 'e + 'h"
    and ok :: "'a \<Rightarrow> bool"
    and seq_of :: "'a \<Rightarrow> u64"
    and prev_of :: "'a \<Rightarrow> 'h"
    and hash_of :: "'a \<Rightarrow> 'h"
  assumes check_Inr:
    "check s x p = Inr h \<longleftrightarrow> ok x \<and> seq_of x = s \<and> prev_of x = p \<and> hash_of x = h"
begin

lemma check_Inl: "check s x p = Inl e \<Longrightarrow> ok x \<Longrightarrow> seq_of x = s \<Longrightarrow> prev_of x \<noteq> p"
  using check_Inr [of s x p "hash_of x"] by auto

text \<open>A walk succeeds on exactly the linked runs, and ends at the run's last hash.\<close>

lemma walk_Inr:
  "walk check s xs p = Inr (s', h) \<longleftrightarrow>
     linked ok seq_of prev_of hash_of s p xs \<and> s' = s + word_of_nat (length xs)
     \<and> h = (if xs = [] then p else hash_of (last xs))"
proof (induction xs arbitrary: s p)
  case Nil
  then show ?case by auto
next
  case (Cons x xs)
  show ?case
  proof (cases "check s x p")
    case (Inl e)
    then have "\<not> (ok x \<and> seq_of x = s \<and> prev_of x = p)"
      using check_Inr [of s x p "hash_of x"] by auto
    with Inl show ?thesis by auto
  next
    case (Inr h')
    then have "ok x \<and> seq_of x = s \<and> prev_of x = p \<and> hash_of x = h'" by (simp add: check_Inr)
    with Inr Cons.IH [of "s + 1" h'] show ?thesis by (auto simp: algebra_simps)
  qed
qed

lemma walk_snoc:
  "walk check s (xs @ [x]) p = Inr (s', h) \<longleftrightarrow>
     (\<exists>p'. walk check s xs p = Inr (seq_of x, p') \<and> ok x \<and> prev_of x = p' \<and> hash_of x = h
        \<and> s' = seq_of x + 1)"
  by (auto simp: walk_append check_Inr dest: check_Inl split: sum.splits prod.splits)

text \<open>
  Two runs that end at the same hash are the same from the end backwards, for as long as both go
  on, unless two different items at the same distance from the end share a hash.
\<close>

lemma walk_same_end:
  assumes "walk check s xs p = Inr (s1, h)" "walk check t ys q = Inr (t1, h)"
    "length xs = length ys" "xs \<noteq> ys"
  shows "\<exists>i < length xs. xs ! i \<noteq> ys ! i \<and> hash_of (xs ! i) = hash_of (ys ! i)"
  using assms(3,1,2,4)
proof (induction xs ys arbitrary: s1 t1 h rule: rev_induct2)
  case 1
  then show ?case by simp
next
  case (4 x xs y ys)
  then obtain p1 p2 where *:
    "walk check s xs p = Inr (seq_of x, p1)" "prev_of x = p1" "hash_of x = h"
    "walk check t ys q = Inr (seq_of y, p2)" "prev_of y = p2" "hash_of y = h"
    by (auto simp: walk_snoc)
  have len: "length xs = length ys" using 4 by simp
  show ?case
  proof (cases "x = y")
    case True
    with 4(5) have "xs \<noteq> ys" by simp
    with 4(1) [OF len] * True obtain i where
      "i < length xs" "xs ! i \<noteq> ys ! i" "hash_of (xs ! i) = hash_of (ys ! i)" by metis
    with len show ?thesis by (intro exI [of _ i]) (auto simp: nth_append)
  next
    case False
    with * len show ?thesis by (intro exI [of _ "length xs"]) (auto simp: nth_append)
  qed
qed simp_all

text \<open>
  Two runs from the same start that end at the same place have the same length, as long as
  neither is long enough for the 64-bit position to come round again.
\<close>

lemma walk_same_length:
  assumes "walk check s xs p = Inr (s1, h)" "walk check s ys q = Inr (s1, h')"
    "length xs < 2 ^ 64" "length ys < 2 ^ 64"
  shows "length xs = length ys"
proof -
  have "(word_of_nat (length xs) :: u64) = word_of_nat (length ys)"
    using assms(1,2) by (auto simp: walk_Inr)
  then have "length xs mod 2 ^ 64 = length ys mod 2 ^ 64"
    by (simp add: word_of_nat_eq_iff take_bit_eq_mod)
  with assms(3,4) show ?thesis by simp
qed

end

end
