(* ===== verification/Chain.thy ===== *)
theory Chain
  imports Frame LinkedRun "HOL-Library.Monad_Syntax"
begin

text \<open>
  The hash chain itself, the part of \<^verbatim>\<open>src/src/session_log.rs\<close> that opens no file: the byte
  search for the chain fields of a frame, \<^verbatim>\<open>check_frame\<close>, \<^verbatim>\<open>verify_segment\<close>, and the
  \<^verbatim>\<open><seq> <hash>\<close> sidecar format of \<^verbatim>\<open>Head\<close>.
\<close>

section \<open>Reading members out of frame bytes\<close>

definition SEQ :: bytes where "SEQ = '',\"seq\":''"
definition TS :: bytes where "TS = '',\"ts\":''"
definition PREV :: bytes where "PREV = '',\"prev\":\"''"

definition number :: "bytes \<Rightarrow> bytes \<Rightarrow> bytes option" where
  "number line member =
     do {
       i \<leftarrow> find_sub line member;
       let rest = drop (i + length member) line;
       e \<leftarrow> position_byte CHR '','' rest;
       from_utf8 (take e rest)
     }"

definition hex64 :: "bytes \<Rightarrow> bytes \<Rightarrow> bytes option" where
  "hex64 line member =
     do {
       i \<leftarrow> find_sub line member;
       let at = i + length member;
       value \<leftarrow> (if at + 64 \<le> length line then Some (take 64 (drop at line)) else None);
       (if \<not> list_all is_ascii_hexdigit value
           \<or> (case drop (at + 64) line of [] \<Rightarrow> True | c # _ \<Rightarrow> c \<noteq> quote)
        then None else Some value)
     }"

definition chain_fields :: "bytes \<Rightarrow> (u64 \<times> bytes) option" where
  "chain_fields line =
     do {
       n \<leftarrow> number line SEQ;
       seq \<leftarrow> parse_u64 n;
       prev \<leftarrow> hex64 line PREV;
       Some (seq, prev)
     }"

definition complete_frames :: "bytes \<Rightarrow> u64" where
  "complete_frames s = word_of_nat (count_byte newline s)"

section \<open>Errors\<close>

datatype chain_error =
    Unsealed u64
  | HashMismatch u64
  | SeqGap u64 u64
  | PrevMismatch u64
  | TornTail u64
  | HeadMissing u64
  | HeadInvalid bytes
  | HeadStale u64 u64
  | Truncated u64 u64
  | HeadMismatch u64
  | Io bytes

section \<open>One frame\<close>

definition check_frame ::
  "(bytes \<Rightarrow> bytes) \<Rightarrow> u64 \<Rightarrow> bytes \<Rightarrow> bytes \<Rightarrow> chain_error + bytes" where
  "check_frame H seq line expected_prev =
     (case split_sealed line of
        None \<Rightarrow> Inl (Unsealed seq)
      | Some (pre, embedded) \<Rightarrow>
          if hash_sealed_prefix H pre \<noteq> embedded then Inl (HashMismatch seq)
          else (case chain_fields line of
                  None \<Rightarrow> Inl (Unsealed seq)
                | Some (found, prev) \<Rightarrow>
                    if found \<noteq> seq then Inl (SeqGap seq found)
                    else if prev \<noteq> expected_prev then Inl (PrevMismatch seq)
                    else Inr embedded))"

text \<open>What one accepted line says of itself, for the contract of the walk.\<close>

definition frame_ok :: "(bytes \<Rightarrow> bytes) \<Rightarrow> bytes \<Rightarrow> bool" where
  "frame_ok H line =
     (case split_sealed line of
        None \<Rightarrow> False
      | Some (pre, embedded) \<Rightarrow> hash_sealed_prefix H pre = embedded \<and> chain_fields line \<noteq> None)"

definition frame_seq :: "bytes \<Rightarrow> u64" where
  "frame_seq line = (case chain_fields line of Some (s, _) \<Rightarrow> s | None \<Rightarrow> 0)"

definition frame_prev :: "bytes \<Rightarrow> bytes" where
  "frame_prev line = (case chain_fields line of Some (_, p) \<Rightarrow> p | None \<Rightarrow> [])"

definition frame_hash :: "bytes \<Rightarrow> bytes" where
  "frame_hash line = (case split_sealed line of Some (_, h) \<Rightarrow> h | None \<Rightarrow> [])"

interpretation frames: linked_run "check_frame H" "frame_ok H" frame_seq frame_prev frame_hash
  for H :: "bytes \<Rightarrow> bytes"
  by unfold_locales
    (auto simp: check_frame_def frame_ok_def frame_seq_def frame_prev_def frame_hash_def
      split: option.splits prod.splits)

section \<open>A run of frames\<close>

record head =
  hd_seq :: u64
  hd_hash :: bytes

definition verify_segment ::
  "(bytes \<Rightarrow> bytes) \<Rightarrow> bytes \<Rightarrow> head option \<Rightarrow> bytes \<Rightarrow> chain_error + head" where
  "verify_segment H sid after frames =
     (if frames = [] then
        (case after of Some h \<Rightarrow> Inr h | None \<Rightarrow> Inl (Unsealed 0))
      else
        (let (first_seq, first_prev) =
               (case after of
                  Some h \<Rightarrow> (hd_seq h + 1, hd_hash h)
                | None \<Rightarrow> (0, genesis_prev H sid))
         in
         if \<not> ends_with_newline frames then Inl (TornTail (first_seq + complete_frames frames))
         else
           (case walk (check_frame H) first_seq (split_byte newline (butlast frames)) first_prev of
              Inl e \<Rightarrow> Inl e
            | Inr (seq, h) \<Rightarrow> Inr \<lparr>hd_seq = seq - 1, hd_hash = h\<rparr>)))"

text \<open>Where a run that follows \<open>after\<close> starts: the position and the link of its first frame.\<close>

definition first_seq :: "head option \<Rightarrow> u64" where
  "first_seq after = (case after of Some h \<Rightarrow> hd_seq h + 1 | None \<Rightarrow> 0)"

definition first_prev :: "(bytes \<Rightarrow> bytes) \<Rightarrow> bytes \<Rightarrow> head option \<Rightarrow> bytes" where
  "first_prev H sid after = (case after of Some h \<Rightarrow> hd_hash h | None \<Rightarrow> genesis_prev H sid)"

text \<open>The lines of a run, and the contract a verified run meets.\<close>

definition chain_ok :: "(bytes \<Rightarrow> bytes) \<Rightarrow> bytes \<Rightarrow> head option \<Rightarrow> bytes list \<Rightarrow> bool" where
  "chain_ok H sid after ls \<longleftrightarrow>
     list_all one_line ls
     \<and> linked (frame_ok H) frame_seq frame_prev frame_hash (first_seq after) (first_prev H sid after) ls"

definition head_of :: "bytes \<Rightarrow> head" where
  "head_of line = \<lparr>hd_seq = frame_seq line, hd_hash = frame_hash line\<rparr>"

section \<open>The sidecar format\<close>

datatype head_error = NoSpace | NotHex64 | BadSeq bytes

text \<open>\<^verbatim>\<open>Head::from_str\<close> and \<^verbatim>\<open>Head\<close>'s \<^verbatim>\<open>Display\<close>.\<close>

definition parse_head :: "bytes \<Rightarrow> head_error + head" where
  "parse_head s =
     (case split_once CHR '' '' (trim_end s) of
        None \<Rightarrow> Inl NoSpace
      | Some (seq, hash) \<Rightarrow>
          if length hash \<noteq> 64 \<or> \<not> list_all is_ascii_hexdigit hash then Inl NotHex64
          else (case parse_u64 seq of
                  None \<Rightarrow> Inl (BadSeq seq)
                | Some n \<Rightarrow> Inr \<lparr>hd_seq = n, hd_hash = hash\<rparr>))"

definition show_head :: "head \<Rightarrow> bytes" where
  "show_head h = show_u64 (hd_seq h) @ '' '' @ hd_hash h"

text \<open>
  The text of a parse error, as \<^verbatim>\<open>HeadInvalid\<close> carries it. A number fails with the standard
  library's message for the first thing wrong from the left.
\<close>

fun int_error :: "nat \<Rightarrow> bytes \<Rightarrow> bytes" where
  "int_error acc [] = []"
| "int_error acc (c # cs) =
     (if \<not> is_ascii_digit c then ''invalid digit found in string''
      else if 2 ^ 64 \<le> 10 * acc + digit_val c then ''number too large to fit in target type''
      else int_error (10 * acc + digit_val c) cs)"

definition u64_error_str :: "bytes \<Rightarrow> bytes" where
  "u64_error_str s =
     (case s of
        [] \<Rightarrow> ''cannot parse integer from empty string''
      | c # r \<Rightarrow>
          if c = CHR ''+'' \<and> r \<noteq> [] then int_error 0 r else int_error 0 s)"

fun head_error_str :: "head_error \<Rightarrow> bytes" where
  "head_error_str NoSpace = ''head: expected `<seq> <hash>`''"
| "head_error_str NotHex64 = ''head: hash is not 64 hex characters''"
| "head_error_str (BadSeq s) = u64_error_str s"

text \<open>
  \<^verbatim>\<open>read_head\<close> of a sidecar whose file holds \<open>contents\<close>, \<^verbatim>\<open>None\<close> for a file that is not
  there. \<^verbatim>\<open>fs::read_to_string\<close> refuses text that is not UTF-8, which is an I/O failure.
\<close>

definition read_head :: "bytes option \<Rightarrow> chain_error + head option" where
  "read_head contents =
     (case contents of
        None \<Rightarrow> Inr None
      | Some s \<Rightarrow>
          if \<not> utf8_valid s then Inl (Io ''stream did not contain valid UTF-8'')
          else (case parse_head s of
                  Inl e \<Rightarrow> Inl (HeadInvalid (head_error_str e))
                | Inr h \<Rightarrow> Inr (Some h)))"

definition head_agrees :: "head \<Rightarrow> u64 \<Rightarrow> bytes \<Rightarrow> chain_error option" where
  "head_agrees h last_seq last_hash =
     (if hd_seq h < last_seq then Some (HeadStale (hd_seq h) last_seq)
      else if hd_seq h > last_seq then Some (Truncated (hd_seq h) last_seq)
      else if hd_hash h \<noteq> last_hash then Some (HeadMismatch last_seq)
      else None)"

lemma head_agrees_None:
  "head_agrees h s x = None \<longleftrightarrow> h = \<lparr>hd_seq = s, hd_hash = x\<rparr>"
  by (cases h) (auto simp: head_agrees_def)

section \<open>Lemmas: the split of a sealed line\<close>

lemma one_line_append [simp]: "one_line (s @ t) \<longleftrightarrow> one_line s \<and> one_line t"
  by (auto simp: one_line_def)

lemma one_line_Cons [simp]: "one_line (c # t) \<longleftrightarrow> c \<noteq> newline \<and> one_line t"
  by (auto simp: one_line_def)

lemma one_line_Nil [simp]: "one_line []"
  by (simp add: one_line_def)

lemma one_line_strip: "one_line l \<Longrightarrow> strip_suffix [newline] l = None"
  by (cases "strip_suffix [newline] l") (auto simp: strip_suffix_Some)

lemma split_sealed_line_iff:
  assumes "one_line l"
  shows "split_sealed l = Some (p, h) \<longleftrightarrow> l = sealed_line p h \<and> is_hex64 h"
proof
  assume ss: "split_sealed l = Some (p, h)"
  obtain rest where r: "strip_suffix ''\"}'' l = Some rest"
    using ss assms by (cases "strip_suffix ''\"}'' l") (auto simp: split_sealed_def one_line_strip)
  have len: "64 \<le> length rest"
    using ss r assms by (auto simp: split_sealed_def one_line_strip split: if_splits)
  obtain q where q: "strip_suffix '',\"hash\":\"'' (take (length rest - 64) rest) = Some q"
    using ss r len assms
    by (cases "strip_suffix '',\"hash\":\"'' (take (length rest - 64) rest)")
      (auto simp: split_sealed_def one_line_strip Let_def)
  have "q = p" "h = drop (length rest - 64) rest" "list_all is_ascii_hexdigit h"
    using ss r len q assms
    by (auto simp: split_sealed_def one_line_strip Let_def from_utf8_Some split: if_splits)
  with r q len have rest: "l = rest @ ''\"}''" "64 \<le> length rest"
    "take (length rest - 64) rest = p @ '',\"hash\":\"''" "h = drop (length rest - 64) rest"
    "list_all is_ascii_hexdigit h"
    by (simp_all add: strip_suffix_Some)
  then have "rest = p @ '',\"hash\":\"'' @ h"
    by (metis append.assoc append_take_drop_id)
  then have "l = sealed_line p h"
    by (subst rest(1)) (simp only: sealed_line_def append.assoc)
  moreover have "is_hex64 h"
    using rest(2,4,5) by (simp add: is_hex64_def)
  ultimately show "l = sealed_line p h \<and> is_hex64 h" ..
next
  assume l: "l = sealed_line p h \<and> is_hex64 h"
  define tag :: bytes where "tag = '',\"hash\":\"''"
  define r where "r = p @ tag @ h"
  have h: "length h = 64" "list_all is_ascii_hexdigit h" "from_utf8 h = Some h"
    using l utf8_valid_hex [of h] by (simp_all add: is_hex64_def from_utf8_def)
  have "strip_suffix ''\"}'' l = Some r"
    using l by (simp add: strip_suffix_Some sealed_line_def r_def tag_def)
  moreover have "64 \<le> length r" "drop (length r - 64) r = h" "take (length r - 64) r = p @ tag"
    using h(1) by (simp_all add: r_def)
  moreover have "strip_suffix tag (p @ tag) = Some p" by simp
  ultimately show "split_sealed l = Some (p, h)"
    using h assms by (simp add: split_sealed_def one_line_strip Let_def tag_def)
qed

lemma split_sealed_newline:
  "one_line l \<Longrightarrow> split_sealed (l @ [newline]) = split_sealed l"
  by (simp add: split_sealed_def one_line_strip)

lemma split_sealed_sealed_line:
  assumes "one_line p" "is_hex64 h"
  shows "split_sealed (sealed_line p h) = Some (p, h)"
proof -
  have "one_line (sealed_line p h)"
    using assms is_hex64_chars by (auto simp: sealed_line_def one_line_def)
  with assms show ?thesis by (simp add: split_sealed_line_iff)
qed

text \<open>A line whose hash is right is determined by what the hash covers.\<close>

definition sealed_bytes :: "bytes \<Rightarrow> bytes" where
  "sealed_bytes l = (case split_sealed l of Some (p, _) \<Rightarrow> p @ ''}'' | None \<Rightarrow> [])"

lemma frame_hash_sealed_bytes: "frame_ok H l \<Longrightarrow> frame_hash l = H (sealed_bytes l)"
  by (auto simp: frame_ok_def frame_hash_def sealed_bytes_def hash_sealed_prefix_def split: option.splits)

lemma sealed_bytes_inject:
  assumes "one_line l" "one_line m" "frame_ok H l" "frame_ok H m" "sealed_bytes l = sealed_bytes m"
  shows "l = m"
proof -
  obtain p where p: "split_sealed l = Some (p, frame_hash l)" "sealed_bytes l = p @ ''}''"
    using assms(3) by (auto simp: frame_ok_def frame_hash_def sealed_bytes_def split: option.splits)
  obtain q where q: "split_sealed m = Some (q, frame_hash m)" "sealed_bytes m = q @ ''}''"
    using assms(4) by (auto simp: frame_ok_def frame_hash_def sealed_bytes_def split: option.splits)
  have "p = q" using p q assms(5) by simp
  moreover have "frame_hash l = frame_hash m"
    using assms(3-5) by (simp add: frame_hash_sealed_bytes)
  ultimately show ?thesis
    using p(1) q(1) assms(1,2) by (simp add: split_sealed_line_iff)
qed

section \<open>Lemmas: a verified run\<close>

lemma linked_nth:
  assumes "linked ok sq pr hs s p xs" "i < length xs"
  shows "ok (xs ! i)" "sq (xs ! i) = s + word_of_nat i"
    "pr (xs ! i) = (if i = 0 then p else hs (xs ! (i - 1)))"
  using assms unfolding linked_def by blast+

lemma linked_last:
  assumes "linked ok sq pr hs s p xs" "xs \<noteq> []"
  shows "ok (last xs)" "sq (last xs) + 1 = s + word_of_nat (length xs)"
proof -
  have i: "length xs - 1 < length xs" using assms(2) by (cases xs) auto
  show "ok (last xs)"
    using linked_nth(1) [OF assms(1) i] assms(2) by (simp add: last_conv_nth)
  have "sq (last xs) = s + word_of_nat (length xs - 1)"
    using linked_nth(2) [OF assms(1) i] assms(2) by (simp add: last_conv_nth)
  then show "sq (last xs) + 1 = s + word_of_nat (length xs)"
    using assms(2) by (cases xs) (simp_all add: algebra_simps)
qed

lemma linked_append:
  "linked ok sq pr hs s p (xs @ ys) \<longleftrightarrow>
     linked ok sq pr hs s p xs
     \<and> linked ok sq pr hs (s + word_of_nat (length xs)) (if xs = [] then p else hs (last xs)) ys"
  by (induction xs arbitrary: s p) (auto simp: algebra_simps)

lemma first_simps [simp]:
  "first_seq None = 0" "first_seq (Some h) = hd_seq h + 1"
  "first_prev H sid None = genesis_prev H sid" "first_prev H sid (Some h) = hd_hash h"
  by (simp_all add: first_seq_def first_prev_def)

lemma verify_segment_Nil [simp]:
  "verify_segment H sid None [] = Inl (Unsealed 0)"
  "verify_segment H sid (Some h) [] = Inr h"
  by (simp_all add: verify_segment_def)

lemma verify_segment_walk:
  assumes "frames \<noteq> []"
  shows "verify_segment H sid after frames =
    (if \<not> ends_with_newline frames then Inl (TornTail (first_seq after + complete_frames frames))
     else case walk (check_frame H) (first_seq after) (split_byte newline (butlast frames))
                 (first_prev H sid after) of
            Inl e \<Rightarrow> Inl e | Inr (s, h) \<Rightarrow> Inr \<lparr>hd_seq = s - 1, hd_hash = h\<rparr>)"
  using assms by (cases after) (simp_all add: verify_segment_def)

lemma verify_segment_unlines:
  assumes "ls \<noteq> []" "list_all one_line ls"
  shows "verify_segment H sid after (unlines ls) =
    (case walk (check_frame H) (first_seq after) ls (first_prev H sid after) of
       Inl e \<Rightarrow> Inl e | Inr (s, h) \<Rightarrow> Inr \<lparr>hd_seq = s - 1, hd_hash = h\<rparr>)"
  using assms by (simp add: verify_segment_walk split_byte_unlines)

lemma verify_segment_unlines_Inr:
  assumes "ls \<noteq> []" "list_all one_line ls"
  shows "verify_segment H sid after (unlines ls) = Inr h \<longleftrightarrow>
    chain_ok H sid after ls \<and> h = head_of (last ls)"
proof -
  have *: "walk (check_frame H) (first_seq after) ls (first_prev H sid after) = Inr (s, x) \<longleftrightarrow>
      chain_ok H sid after ls \<and> s = frame_seq (last ls) + 1 \<and> x = frame_hash (last ls)" for s x
    using assms by (auto simp: frames.walk_Inr chain_ok_def linked_last(2))
  show ?thesis
  proof (cases "walk (check_frame H) (first_seq after) ls (first_prev H sid after)")
    case (Inl e)
    with * have "\<not> chain_ok H sid after ls" by auto
    with Inl assms show ?thesis by (simp add: verify_segment_unlines)
  next
    case (Inr r)
    then obtain s x where "r = (s, x)" by (cases r)
    with Inr * [of s x] assms show ?thesis
      by (auto simp: verify_segment_unlines head_of_def)
  qed
qed

lemma verify_segment_Inr:
  assumes "verify_segment H sid after frames = Inr h" "frames \<noteq> []"
  obtains ls where "ls \<noteq> []" "frames = unlines ls" "chain_ok H sid after ls" "h = head_of (last ls)"
proof -
  have e: "ends_with_newline frames"
    using assms by (auto simp: verify_segment_walk split: if_splits)
  then obtain ls where ls: "frames = unlines ls" "list_all one_line ls" "ls \<noteq> []"
    by (rule terminated_linesE)
  with assms(1) have "chain_ok H sid after ls \<and> h = head_of (last ls)"
    by (simp add: verify_segment_unlines_Inr)
  with ls show ?thesis by (intro that [of ls]) simp_all
qed

lemma chain_ok_append:
  assumes "ls \<noteq> []"
  shows "chain_ok H sid after (ls @ ms) \<longleftrightarrow>
    chain_ok H sid after ls \<and> chain_ok H sid (Some (head_of (last ls))) ms"
proof -
  have "frame_seq (last ls) + 1 = first_seq after + word_of_nat (length ls)"
    if "chain_ok H sid after ls"
    using that assms unfolding chain_ok_def by (intro linked_last(2)) auto
  with assms show ?thesis
    by (auto simp: chain_ok_def linked_append head_of_def)
qed

text \<open>
  A run may be checked in pieces: the second piece follows the head the first one ends at. The
  second piece must not be torn, because a torn end is reported before anything else is looked at.
\<close>

lemma verify_segment_append:
  assumes "ends_with_newline f" "ends_with_newline g"
  shows "verify_segment H sid after (f @ g) =
    (case verify_segment H sid after f of Inl e \<Rightarrow> Inl e | Inr h \<Rightarrow> verify_segment H sid (Some h) g)"
proof -
  obtain fs where f: "f = unlines fs" "list_all one_line fs" "fs \<noteq> []"
    using assms(1) by (rule terminated_linesE)
  obtain gs where g: "g = unlines gs" "list_all one_line gs" "gs \<noteq> []"
    using assms(2) by (rule terminated_linesE)
  have "verify_segment H sid after (unlines (fs @ gs)) =
    (case verify_segment H sid after (unlines fs) of
       Inl e \<Rightarrow> Inl e | Inr h \<Rightarrow> verify_segment H sid (Some h) (unlines gs))"
    using f(2,3) g(2,3)
    by (subst (1 2) verify_segment_unlines)
      (auto simp: walk_append verify_segment_unlines split: sum.splits)
  then show ?thesis unfolding f(1) g(1) by simp
qed

section \<open>Lemmas: the sidecar\<close>

lemma ascii_of_hex: "list_all is_ascii_hexdigit s \<Longrightarrow> list_all (byte_in 0 0x7F) s"
  by (auto simp: list_all_iff)

lemma utf8_valid_show_head:
  "is_hex64 (hd_hash h) \<Longrightarrow> utf8_valid (show_head h @ [newline])"
  using show_u64_chars ascii_of_hex
  by (intro utf8_valid_ascii)
    (auto simp: show_head_def is_hex64_def list_all_iff ascii_byte intro: ascii_digit ascii_hexdigit)

lemma last_hex64: "is_hex64 s \<Longrightarrow> byte_in 0x21 0x7E (last s)"
proof -
  assume "is_hex64 s"
  then have "is_ascii_hexdigit (last s)"
    using is_hex64_chars(5) by (auto simp: is_hex64_def list_all_iff)
  then show ?thesis by (auto simp: is_ascii_hexdigit_def byte_in_def)
qed

lemma parse_show_head:
  assumes "is_hex64 (hd_hash h)"
  shows "parse_head (show_head h @ [newline]) = Inr h" "parse_head (show_head h) = Inr h"
proof -
  have ne: "show_head h \<noteq> []" "last (show_head h) = last (hd_hash h)"
    using is_hex64_chars(5) [OF assms] by (simp_all add: show_head_def)
  have split: "split_once CHR '' '' (show_head h) = Some (show_u64 (hd_seq h), hd_hash h)"
    by (simp add: show_head_def)
  have "trim_end (show_head h @ [newline]) = show_head h"
    using ne last_hex64 [OF assms] by (intro trim_end_newline) simp_all
  moreover have "trim_end (show_head h) = show_head h"
    using ne last_hex64 [OF assms] by (intro trim_end_id) simp_all
  ultimately show "parse_head (show_head h @ [newline]) = Inr h" "parse_head (show_head h) = Inr h"
    using assms split by (simp_all add: parse_head_def is_hex64_def)
qed

lemma read_head_show [simp]:
  "is_hex64 (hd_hash h) \<Longrightarrow> read_head (Some (show_head h @ [newline])) = Inr (Some h)"
  by (simp add: read_head_def utf8_valid_show_head parse_show_head)

lemma read_head_None [simp]: "read_head None = Inr None"
  by (simp add: read_head_def)

lemma read_head_hex64: "read_head f = Inr (Some h) \<Longrightarrow> is_hex64 (hd_hash h)"
  by (auto simp: read_head_def parse_head_def is_hex64_def split: option.splits if_splits sum.splits)

end
