(* ===== verification/Backwards.thy ===== *)
theory Backwards
  imports Chain
begin

text \<open>
  The backwards reader of \<^verbatim>\<open>src/src/session_log.rs\<close>: \<^verbatim>\<open>Backwards\<close>,
  \<^verbatim>\<open>last_frame\<close> and \<^verbatim>\<open>read_after_seq\<close>, which find the end of a log and the frames after
  a given one by reading 64 KiB at a time from the end. The lemmas show that they compute what a
  scan of the whole file would, for any file, and that no slice they take is out of range.

  A slice out of range is a panic in the code and \<^const>\<open>None\<close> here. Nothing else fails: the
  file is read under the session's lock, so it does not change between two reads.
\<close>

section \<open>The reader\<close>

definition CHUNK :: nat where "CHUNK = 64 * 1024"

record backwards =
  bw_len :: nat
  bw_tail :: bytes
  bw_start :: nat

definition bw_open :: "bytes \<Rightarrow> backwards" where
  "bw_open bs = \<lparr>bw_len = length bs, bw_tail = [], bw_start = length bs\<rparr>"

definition widen :: "bytes \<Rightarrow> backwards \<Rightarrow> backwards" where
  "widen bs b =
     (let chunk_start = bw_start b - CHUNK;
          buf = take (bw_start b - chunk_start) (drop chunk_start bs)
      in b\<lparr>bw_tail := buf @ bw_tail b, bw_start := chunk_start\<rparr>)"

text \<open>\<^verbatim>\<open>iter().rposition(|&b| b == c)\<close>.\<close>

definition rposition_byte :: "char \<Rightarrow> bytes \<Rightarrow> nat option" where
  "rposition_byte c xs = map_option (\<lambda>i. length xs - 1 - i) (position_byte c (rev xs))"

function line_start :: "bytes \<Rightarrow> nat \<Rightarrow> backwards \<Rightarrow> (nat \<times> backwards) option" where
  "line_start bs stop_at b =
     (let n = stop_at - 1 - bw_start b in
      if length (bw_tail b) < n then None
      else (case rposition_byte newline (take n (bw_tail b)) of
              Some i \<Rightarrow> Some (bw_start b + i + 1, b)
            | None \<Rightarrow>
                if bw_start b = 0 then Some (0, b) else line_start bs stop_at (widen bs b)))"
  by pat_completeness auto
termination
  by (relation "measure (\<lambda>(bs, stop_at, b). bw_start b)") (auto simp: widen_def Let_def CHUNK_def)

declare line_start.simps [simp del]

definition slice :: "backwards \<Rightarrow> nat \<Rightarrow> nat \<Rightarrow> bytes option" where
  "slice b lo hi =
     (if bw_start b \<le> lo \<and> lo \<le> hi \<and> hi - bw_start b \<le> length (bw_tail b)
      then Some (take (hi - lo) (drop (lo - bw_start b) (bw_tail b))) else None)"

datatype tail = Tail_Frame bytes | Tail_Empty | Tail_Torn

definition last_frame :: "bytes option \<Rightarrow> tail option" where
  "last_frame events =
     (case events of
        None \<Rightarrow> Some Tail_Empty
      | Some bs \<Rightarrow>
          (let back = bw_open bs; len = bw_len back in
           if len = 0 then Some Tail_Empty
           else (let back = widen bs back in
             if \<not> ends_with_newline (bw_tail back) then Some Tail_Torn
             else do {
               (start, back) \<leftarrow> line_start bs len back;
               frame \<leftarrow> slice back start (len - 1);
               Some (Tail_Frame frame)
             })))"

definition has_seq :: "u64 \<Rightarrow> bytes \<Rightarrow> bool" where
  "has_seq seq line \<longleftrightarrow> (case chain_fields line of Some (found, _) \<Rightarrow> found = seq | None \<Rightarrow> False)"

lemma rposition_byte_bound: "rposition_byte c xs = Some i \<Longrightarrow> i < length xs"
  by (auto simp: rposition_byte_def dest!: position_byte_Some)

lemma line_start_decreases:
  "line_start bs stop_at b = Some (s, b') \<Longrightarrow> s = 0 \<or> s < stop_at"
proof (induction bs stop_at b rule: line_start.induct)
  case (1 bs stop_at b)
  let ?n = "stop_at - 1 - bw_start b"
  show ?case
  proof (cases "rposition_byte newline (take ?n (bw_tail b))")
    case None
    with 1 show ?thesis
      by (auto simp: line_start.simps [of bs stop_at b] Let_def split: if_splits)
  next
    case (Some i)
    with 1(2) have "s = bw_start b + i + 1"
      by (auto simp: line_start.simps [of bs stop_at b] Let_def split: if_splits)
    with rposition_byte_bound [OF Some] show ?thesis by auto
  qed
qed

text \<open>The loop of \<^verbatim>\<open>read_after_seq\<close>; the inner \<^const>\<open>None\<close> is its own.\<close>

function read_after_loop :: "bytes \<Rightarrow> u64 \<Rightarrow> nat \<Rightarrow> backwards \<Rightarrow> bytes option option" where
  "read_after_loop bs seq stop_at back =
     (case line_start bs stop_at back of
        None \<Rightarrow> None
      | Some (start, back') \<Rightarrow>
     (case slice back' start stop_at of
        None \<Rightarrow> None
      | Some line \<Rightarrow>
          (if has_seq seq line then map_option Some (slice back' stop_at (bw_len back'))
           else if start = 0 then Some None
           else read_after_loop bs seq start back')))"
  by pat_completeness auto
termination
  by (relation "measure (\<lambda>(bs, seq, stop_at, back). stop_at)") (auto dest!: line_start_decreases)

declare read_after_loop.simps [simp del]

definition read_after_seq :: "bytes option \<Rightarrow> u64 \<Rightarrow> bytes option option" where
  "read_after_seq events seq =
     (case events of
        None \<Rightarrow> Some None
      | Some bs \<Rightarrow>
          (let back = bw_open bs in read_after_loop bs seq (bw_len back) back))"

section \<open>The reader sees the end of the file\<close>

definition bw_inv :: "bytes \<Rightarrow> backwards \<Rightarrow> bool" where
  "bw_inv bs b \<longleftrightarrow>
     bw_len b = length bs \<and> bw_start b \<le> length bs \<and> bw_tail b = drop (bw_start b) bs"

lemma bw_inv_open [simp]: "bw_inv bs (bw_open bs)"
  by (simp add: bw_inv_def bw_open_def)

lemma take_drop_append_drop:
  "k \<le> s \<Longrightarrow> s \<le> length xs \<Longrightarrow> take (s - k) (drop k xs) @ drop s xs = drop k xs"
  by (metis append_take_drop_id drop_drop le_add_diff_inverse2)

lemma bw_inv_widen: "bw_inv bs b \<Longrightarrow> bw_inv bs (widen bs b)"
  by (auto simp: bw_inv_def widen_def Let_def take_drop_append_drop)

lemma widen_start: "bw_start (widen bs b) \<le> bw_start b"
  by (simp add: widen_def Let_def)

lemma bw_slice:
  assumes "bw_inv bs b" "bw_start b \<le> lo" "lo \<le> hi" "hi \<le> length bs"
  shows "slice b lo hi = Some (take (hi - lo) (drop lo bs))"
  using assms by (auto simp: slice_def bw_inv_def)

lemma rposition_byte_append:
  "rposition_byte c (xs @ ys) =
     (case rposition_byte c ys of Some i \<Rightarrow> Some (length xs + i) | None \<Rightarrow> rposition_byte c xs)"
proof -
  have "position_byte c (us @ vs) = (case position_byte c us of Some i \<Rightarrow> Some i
      | None \<Rightarrow> map_option (\<lambda>i. length us + i) (position_byte c vs))" for us vs
  proof (induction us)
    case Nil
    then show ?case by (cases "position_byte c vs") simp_all
  next
    case (Cons a us)
    then show ?case
      by (cases "position_byte c us"; cases "position_byte c vs") simp_all
  qed
  then show ?thesis
    by (cases "position_byte c (rev ys)"; cases "position_byte c (rev xs)")
      (auto simp: rposition_byte_def dest!: position_byte_Some)
qed

lemma rposition_byte_None: "rposition_byte c xs = None \<longleftrightarrow> c \<notin> set xs"
  by (simp add: rposition_byte_def position_byte_None)

text \<open>Where the line that ends at \<open>stop_at\<close> begins, by a scan of the whole file.\<close>

definition line_begin :: "bytes \<Rightarrow> nat \<Rightarrow> nat" where
  "line_begin bs stop_at =
     (case rposition_byte newline (take (stop_at - 1) bs) of Some i \<Rightarrow> i + 1 | None \<Rightarrow> 0)"

lemma line_start_correct:
  assumes "bw_inv bs b" "stop_at \<le> length bs"
  shows "\<exists>b'. line_start bs stop_at b = Some (line_begin bs stop_at, b') \<and> bw_inv bs b'
    \<and> bw_start b' \<le> line_begin bs stop_at"
  using assms
proof (induction bs stop_at b rule: line_start.induct)
  case (1 bs stop_at b)
  let ?s = "bw_start b" and ?n = "stop_at - 1 - bw_start b"
  have tail: "bw_tail b = drop ?s bs" "?s \<le> length bs" using 1(2) by (simp_all add: bw_inv_def)
  then have n: "\<not> length (bw_tail b) < ?n" using 1(3) by simp
  have whole: "take (stop_at - 1) bs = take (min ?s (stop_at - 1)) bs @ take ?n (bw_tail b)"
  proof (cases "?s \<le> stop_at - 1")
    case True
    then show ?thesis using tail by (metis le_add_diff_inverse min.absorb1 take_add)
  next
    case False
    then show ?thesis by simp
  qed
  show ?case
  proof (cases "rposition_byte newline (take ?n (bw_tail b))")
    case (Some i)
    have "i < ?n" using rposition_byte_bound [OF Some] by simp
    then have "?s \<le> stop_at - 1" by linarith
    with Some whole 1(3) have "line_begin bs stop_at = ?s + i + 1"
      by (simp add: line_begin_def rposition_byte_append)
    with Some n 1(2) show ?thesis by (simp add: line_start.simps [of bs stop_at b] Let_def)
  next
    case None
    show ?thesis
    proof (cases "?s = 0")
      case True
      then have "line_begin bs stop_at = 0"
        using None whole by (simp add: line_begin_def)
      with True None n 1(2) show ?thesis
        by (simp add: line_start.simps [of bs stop_at b] Let_def)
    next
      case False
      then have "line_start bs stop_at b = line_start bs stop_at (widen bs b)"
        using None n by (simp add: line_start.simps [of bs stop_at b] Let_def)
      with 1(1) [OF refl n None False] 1(2,3) show ?thesis by (simp add: bw_inv_widen)
    qed
  qed
qed

section \<open>What the reader computes\<close>

text \<open>The reference: the lines after the last one that satisfies \<open>P\<close>.\<close>

fun after_last :: "('a \<Rightarrow> bool) \<Rightarrow> 'a list \<Rightarrow> 'a list option" where
  "after_last P [] = None"
| "after_last P (x # xs) =
     (case after_last P xs of Some r \<Rightarrow> Some r | None \<Rightarrow> if P x then Some xs else None)"

lemma after_last_snoc:
  "after_last P (xs @ [x]) = (if P x then Some [] else map_option (\<lambda>r. r @ [x]) (after_last P xs))"
  by (induction xs) (auto split: option.split)

lemma after_last_None: "after_last P xs = None \<longleftrightarrow> (\<forall>x \<in> set xs. \<not> P x)"
  by (induction xs) (auto split: option.split)

lemma rposition_byte_Some:
  assumes "rposition_byte c xs = Some i"
  shows "\<exists>us vs. xs = us @ c # vs \<and> length us = i \<and> c \<notin> set vs"
proof -
  obtain j where j: "position_byte c (rev xs) = Some j" "i = length xs - 1 - j"
    using assms by (auto simp: rposition_byte_def)
  note d = position_byte_Some [OF j(1)]
  then have "rev xs = take j (rev xs) @ c # drop (Suc j) (rev xs)" by (metis id_take_nth_drop)
  then have "xs = rev (drop (Suc j) (rev xs)) @ c # rev (take j (rev xs))"
    by (metis append.assoc append_Cons append_Nil rev.simps(2) rev_append rev_rev_ident)
  moreover have "length (rev (drop (Suc j) (rev xs))) = i" using d j(2) by simp
  ultimately show ?thesis using d by (metis set_rev)
qed

lemma split_inclusive_piece:
  "c \<notin> set vs \<Longrightarrow> split_inclusive c (vs @ [d]) = [vs @ [d]]"
  by (induction vs) auto

lemma split_inclusive_split:
  "split_inclusive c ((s @ [c]) @ t) = split_inclusive c (s @ [c]) @ split_inclusive c t"
proof (induction s)
  case (Cons a s)
  moreover have "split_inclusive c (s @ [c]) \<noteq> []" by (cases s) (auto split: list.split)
  ultimately show ?case by (auto split: list.splits)
qed simp

lemma split_inclusive_last_line:
  assumes "0 < n" "n \<le> length bs"
  shows "line_begin bs n < n"
    and "split_inclusive newline (take n bs) =
      split_inclusive newline (take (line_begin bs n) bs)
        @ [take (n - line_begin bs n) (drop (line_begin bs n) bs)]"
proof -
  have full: "take n bs = take (n - 1) bs @ [bs ! (n - 1)]"
    using assms by (metis Suc_diff_1 Suc_le_lessD take_Suc_conv_app_nth)
  show "line_begin bs n < n"
    using assms by (auto simp: line_begin_def split: option.split dest!: rposition_byte_bound)
  show "split_inclusive newline (take n bs) =
      split_inclusive newline (take (line_begin bs n) bs)
        @ [take (n - line_begin bs n) (drop (line_begin bs n) bs)]"
  proof (cases "rposition_byte newline (take (n - 1) bs)")
    case None
    then have "line_begin bs n = 0" "newline \<notin> set (take (n - 1) bs)"
      by (simp_all add: line_begin_def rposition_byte_None [symmetric])
    then show ?thesis by (simp add: full split_inclusive_piece)
  next
    case (Some i)
    then obtain us vs where uv: "take (n - 1) bs = us @ newline # vs" "length us = i" "newline \<notin> set vs"
      using rposition_byte_Some by blast
    have b: "line_begin bs n = i + 1" using Some by (simp add: line_begin_def)
    have t: "take n bs = (us @ [newline]) @ (vs @ [bs ! (n - 1)])"
      by (subst full, subst uv(1)) simp
    have "i + 1 \<le> n - 1" using rposition_byte_bound [OF Some] by simp
    then have "take (i + 1) bs = take (i + 1) (take n bs)"
      and "take (n - (i + 1)) (drop (i + 1) bs) = drop (i + 1) (take n bs)"
      by (simp_all add: drop_take min_def)
    then have "take (i + 1) bs = us @ [newline]"
      and "take (n - (i + 1)) (drop (i + 1) bs) = vs @ [bs ! (n - 1)]"
      unfolding t using uv(2) by simp_all
    then show ?thesis unfolding b
      by (simp only: t split_inclusive_split split_inclusive_piece uv(3) not_False_eq_True)
  qed
qed

lemma has_seq_Nil [simp]: "\<not> has_seq seq []"
  by (simp add: has_seq_def chain_fields_def number_def Option.bind_def)

lemma read_after_loop_correct:
  assumes "bw_inv bs b" "stop_at \<le> length bs"
  shows "read_after_loop bs seq stop_at b =
    Some (map_option (\<lambda>r. concat r @ drop stop_at bs)
      (after_last (has_seq seq) (split_inclusive newline (take stop_at bs))))"
  using assms
proof (induction stop_at arbitrary: b rule: less_induct)
  case (less stop_at)
  let ?s = "line_begin bs stop_at"
  let ?line = "take (stop_at - ?s) (drop ?s bs)"
  obtain b' where b': "line_start bs stop_at b = Some (?s, b')" "bw_inv bs b'" "bw_start b' \<le> ?s"
    using line_start_correct [OF less.prems] by blast
  have le: "?s \<le> stop_at"
    using line_start_decreases [OF b'(1)] by linarith
  have line: "slice b' ?s stop_at = Some ?line"
    and rest: "slice b' stop_at (bw_len b') = Some (drop stop_at bs)"
    using b'(2,3) le less.prems(2) by (simp_all add: bw_slice bw_inv_def [of bs b'] slice_def)
  note step = read_after_loop.simps [of bs seq stop_at b]
  show ?case
  proof (cases "stop_at = 0")
    case True
    with le line b'(1) show ?thesis by (subst step) simp
  next
    case False
    then have lt: "?s < stop_at" and last:
      "split_inclusive newline (take stop_at bs) = split_inclusive newline (take ?s bs) @ [?line]"
      using split_inclusive_last_line less.prems(2) by simp_all
    have "?line @ drop stop_at bs = drop ?s bs"
      using le less.prems(2) by (rule take_drop_append_drop)
    moreover have "read_after_loop bs seq ?s b' =
      Some (map_option (\<lambda>r. concat r @ drop ?s bs)
        (after_last (has_seq seq) (split_inclusive newline (take ?s bs))))"
      using less.IH [OF lt b'(2)] lt less.prems(2) by simp
    ultimately show ?thesis
      using b'(1) line rest lt
      by (simp add: step last after_last_snoc option.map_comp comp_def)
  qed
qed

lemma read_after_seq_reference:
  "read_after_seq (Some bs) seq =
    Some (map_option concat (after_last (has_seq seq) (split_inclusive newline bs)))"
  using read_after_loop_correct [of bs "bw_open bs" "length bs" seq]
  by (simp add: read_after_seq_def Let_def) (simp add: bw_open_def)

lemma ends_with_newline_drop: "n < length s \<Longrightarrow> ends_with_newline (drop n s) = ends_with_newline s"
  by (auto simp: ends_with_newline_def)

lemma last_frame_torn: "bs \<noteq> [] \<Longrightarrow> \<not> ends_with_newline bs \<Longrightarrow> last_frame (Some bs) = Some Tail_Torn"
  by (simp add: last_frame_def Let_def bw_open_def widen_def CHUNK_def ends_with_newline_drop)

lemma last_frame_lines:
  assumes "one_line l"
  shows "last_frame (Some (unlines ls @ l @ [newline])) = Some (Tail_Frame l)"
proof -
  let ?bs = "unlines ls @ l @ [newline]"
  let ?b = "widen ?bs (bw_open ?bs)"
  have inv: "bw_inv ?bs ?b" by (simp add: bw_inv_widen)
  have ends: "ends_with_newline (bw_tail ?b)"
    by (simp add: bw_open_def widen_def CHUNK_def Let_def ends_with_newline_drop)
  have beg: "line_begin ?bs (length ?bs) = length (unlines ls)"
  proof -
    have "rposition_byte newline (unlines ls @ l) =
      (if ls = [] then None else Some (length (unlines ls) - 1))"
    proof (cases ls rule: rev_cases)
      case Nil
      with assms show ?thesis by (simp add: rposition_byte_None one_line_def)
    next
      case (snoc ks k)
      have "newline \<notin> set (rev l)" using assms by (simp add: one_line_def)
      with snoc show ?thesis by (simp add: rposition_byte_def)
    qed
    then show ?thesis by (cases "ls = []") (auto simp: line_begin_def)
  qed
  obtain b' where b': "line_start ?bs (length ?bs) ?b = Some (length (unlines ls), b')"
    "bw_inv ?bs b'" "bw_start b' \<le> length (unlines ls)"
    using line_start_correct [OF inv, of "length ?bs"] unfolding beg by auto
  have "slice b' (length (unlines ls)) (length ?bs - 1) = Some l"
    using bw_slice [OF b'(2,3), of "length ?bs - 1"] by simp
  with b'(1) ends show ?thesis by (simp add: last_frame_def Let_def bw_open_def)
qed

lemma last_frame_Nil [simp]: "last_frame None = Some Tail_Empty" "last_frame (Some []) = Some Tail_Empty"
  by (simp_all add: last_frame_def bw_open_def)

end
