(* ===== verification/FrameBytes.thy ===== *)
theory FrameBytes
  imports Chain
begin

text \<open>
  Why searching a frame's bytes for \<^verbatim>\<open>,"seq":\<close> and its like is sound: inside a JSON string
  a quote is always escaped, so none of the needles can start inside the text of a value, whatever
  the session id, the host or a prompt says. This theory proves it for every event: the byte search
  of \<^verbatim>\<open>chain_fields\<close> (and of \<^verbatim>\<open>entry\<close> and \<^verbatim>\<open>member\<close>, which search the same
  envelope) returns the envelope's own members.
\<close>

section \<open>The text of a JSON string\<close>

text \<open>
  What stands between the quotes of a JSON string: no bare quote, no control character (only the
  newline matters here), and a backslash only before the character it escapes.
\<close>

fun json_chars :: "bytes \<Rightarrow> bool" where
  "json_chars [] = True"
| "json_chars (c # s) =
     (if c = backslash then (case s of [] \<Rightarrow> False | d # t \<Rightarrow> d \<noteq> newline \<and> json_chars t)
      else c \<noteq> quote \<and> c \<noteq> newline \<and> json_chars s)"

text \<open>
  The documented behaviour of \<^verbatim>\<open>serde_json\<close> on a string: the text of a JSON string between two
  quotes, and a string with nothing to escape comes out as it is.
\<close>

definition json_plain :: "char \<Rightarrow> bool" where
  "json_plain c \<longleftrightarrow> is_ascii_alphanumeric c \<or> c = CHR ''-'' \<or> c = CHR ''_'' \<or> c = CHR '':'' \<or> c = CHR ''.''"

definition serde_str :: "(bytes \<Rightarrow> bytes) \<Rightarrow> bool" where
  "serde_str js \<longleftrightarrow>
     (\<forall>s. \<exists>t. js s = quote # t @ [quote] \<and> json_chars t)
     \<and> (\<forall>s. list_all json_plain s \<longrightarrow> js s = quote # s @ [quote])"

text \<open>And on a body: compact JSON has no newline between its tokens, and none inside them.\<close>

definition serde_body :: "('v body \<Rightarrow> bytes) \<Rightarrow> bool" where
  "serde_body bj \<longleftrightarrow> (\<forall>b. newline \<notin> set (bj b))"

lemma json_chars_one_line: "json_chars t \<Longrightarrow> newline \<notin> set t"
  by (induction t rule: json_chars.induct) (auto split: if_splits list.splits)

lemma serde_strE:
  assumes "serde_str js"
  obtains t where "js s = quote # t @ [quote]" "json_chars t"
  using assms unfolding serde_str_def by blast

lemma serde_str_plain: "serde_str js \<Longrightarrow> list_all json_plain s \<Longrightarrow> js s = quote # s @ [quote]"
  unfolding serde_str_def by blast

lemma hex_plain: "is_ascii_hexdigit c \<Longrightarrow> json_plain c"
  by (auto simp: is_ascii_hexdigit_def json_plain_def is_ascii_alphanumeric_def)

lemma serde_str_hex: "serde_str js \<Longrightarrow> list_all is_ascii_hexdigit s \<Longrightarrow> js s = quote # s @ [quote]"
  by (rule serde_str_plain) (auto simp: list_all_iff hex_plain)

section \<open>What stands after the first occurrence of a needle\<close>

definition text_after :: "bytes \<Rightarrow> bytes \<Rightarrow> bytes option" where
  "text_after line n = map_option (\<lambda>i. drop (i + length n) line) (find_sub line n)"

lemma after_here [simp]: "n \<noteq> [] \<Longrightarrow> text_after (n @ ys) n = Some ys"
  by (simp add: text_after_def)

lemma after_skip:
  "(\<And>i. i < length xs \<Longrightarrow> \<not> prefix n (drop i xs @ ys)) \<Longrightarrow> text_after (xs @ ys) n = text_after ys n"
  by (simp add: text_after_def find_sub_skip option.map_comp comp_def ac_simps)

lemma after_Cons: "\<not> prefix n (c # ys) \<Longrightarrow> text_after (c # ys) n = text_after ys n"
  using after_skip [of "[c]" n ys] by simp

lemma after_no_comma:
  assumes "CHR '','' \<notin> set xs"
  shows "text_after (xs @ ys) (CHR '','' # n) = text_after ys (CHR '','' # n)"
proof (rule after_skip)
  fix i assume "i < length xs"
  then have "drop i xs \<noteq> []" "hd (drop i xs) \<in> set xs"
    by (simp_all add: hd_drop_conv_nth)
  with assms show "\<not> prefix (CHR '','' # n) (drop i xs @ ys)"
    by (cases "drop i xs") auto
qed

lemma json_no_needle:
  assumes "json_chars t" "i < length t" "r \<noteq> k"
  shows "\<not> prefix (CHR '','' # quote # k # ks) (drop i t @ quote # r # rs)"
  using assms(1,2)
proof (induction t arbitrary: i rule: json_chars.induct)
  case (2 c s)
  have bare: "\<not> prefix (quote # k # ks) (u @ quote # r # rs)" if "json_chars u" for u
    using that assms(3) by (cases u) (auto split: if_splits)
  show ?case
  proof (cases "c = backslash")
    case True
    with 2(3) obtain d u where u: "s = d # u" "json_chars u" by (auto split: list.splits)
    consider "i = 0" | "i = 1" | j where "i = Suc (Suc j)"
      by (metis One_nat_def not0_implies_Suc)
    then show ?thesis
    proof cases
      case 1 with True show ?thesis by simp
    next
      case 2 with u bare [of u] show ?thesis by (auto simp: prefix_def)
    next
      case 3 with 2(1) [OF True u(1) u(2), of j] 2(4) u show ?thesis by simp
    qed
  next
    case False
    with 2(3) have s: "json_chars s" by simp
    show ?thesis
    proof (cases i)
      case 0 with bare [OF s] show ?thesis by (auto simp: prefix_def)
    next
      case (Suc j) with 2(2) [OF False s, of j] 2(4) show ?thesis by simp
    qed
  qed
qed simp

lemma after_json:
  assumes "json_chars t" "r \<noteq> k"
  shows "text_after (t @ quote # r # rs) (CHR '','' # quote # k # ks) = text_after (r # rs) (CHR '','' # quote # k # ks)"
proof -
  have "text_after (t @ quote # r # rs) (CHR '','' # quote # k # ks)
      = text_after (quote # r # rs) (CHR '','' # quote # k # ks)"
    using assms by (intro after_skip json_no_needle)
  then show ?thesis by (simp add: after_Cons)
qed

lemma number_after:
  "number line m = Option.bind (text_after line m)
     (\<lambda>rest. Option.bind (position_byte CHR '','' rest) (\<lambda>e. from_utf8 (take e rest)))"
  by (cases "find_sub line m") (simp_all add: number_def text_after_def Let_def)

lemma number_here:
  "text_after line m = Some (d @ CHR '','' # rest) \<Longrightarrow> CHR '','' \<notin> set d \<Longrightarrow> utf8_valid d \<Longrightarrow>
   number line m = Some d"
  by (simp add: number_after from_utf8_def)

lemma hex64_here:
  assumes "text_after line m = Some (h @ quote # rest)" "is_hex64 h"
  shows "hex64 line m = Some h"
proof -
  obtain i where i: "find_sub line m = Some i" "drop (i + length m) line = h @ quote # rest"
    using assms(1) by (auto simp: text_after_def)
  let ?a = "i + length m"
  have "length (drop ?a line) = 64 + Suc (length rest)"
    using i(2) assms(2) by (simp add: is_hex64_def)
  then have "?a + 64 \<le> length line" by simp
  moreover have "take 64 (drop ?a line) = h"
    using i(2) assms(2) by (simp add: is_hex64_def)
  moreover have "drop (?a + 64) line = drop 64 (drop ?a line)"
    by (simp only: drop_drop add.commute)
  then have "drop (?a + 64) line = quote # rest"
    using i(2) assms(2) by (simp add: is_hex64_def)
  ultimately show ?thesis
    using i(1) assms(2) by (simp add: hex64_def Let_def is_hex64_def)
qed

section \<open>The envelope of an event\<close>

definition envelope :: "(bytes \<Rightarrow> bytes) \<Rightarrow> 'v event \<Rightarrow> bytes" where
  "envelope js e =
     ''{\"v\":'' @ show_nat (unat (ev_v e)) @ '',\"session_id\":'' @ js (ev_session_id e)
     @ '',\"seq\":'' @ show_u64 (ev_seq e) @ '',\"ts\":'' @ show_i64 (ev_ts e)
     @ '',\"host\":'' @ js (ev_host e) @ '',\"source\":'' @ js (ev_source e)
     @ '',\"kind\":'' @ js (kind_str (ev_kind e)) @ '',\"prev\":'' @ js (ev_prev e)
     @ '',\"body\":''"

lemma event_json_envelope:
  "ev_hash e = None \<Longrightarrow> event_json js bj e = envelope js e @ bj (ev_body e) @ ''}''"
  by (simp add: event_json_def envelope_def)

lemma show_nat_no_comma [simp]: "CHR '','' \<notin> set (show_nat n)" "newline \<notin> set (show_nat n)"
  using show_nat_chars [of _ n] by (auto simp: is_ascii_digit_def)

lemma after_match: "prefix n (c # s) \<Longrightarrow> n \<noteq> [] \<Longrightarrow> text_after (c # s) n = Some (drop (length n) (c # s))"
  by (simp add: text_after_def)

lemmas json_scan = after_Cons after_match after_no_comma after_json SEQ_def TS_def PREV_def

text \<open>The search finds the envelope's \<^verbatim>\<open>seq\<close>, \<^verbatim>\<open>ts\<close> and \<^verbatim>\<open>prev\<close>, whatever the strings say.\<close>

lemma after_SEQ:
  assumes "serde_str js"
  obtains rest where "text_after (envelope js e @ r) SEQ = Some (show_u64 (ev_seq e) @ CHR '','' # rest)"
proof -
  obtain t where "js (ev_session_id e) = quote # t @ [quote]" "json_chars t"
    using assms by (rule serde_strE)
  then show ?thesis by (intro that) (simp add: envelope_def json_scan)
qed

lemma after_TS:
  assumes "serde_str js"
  obtains rest where "text_after (envelope js e @ r) TS = Some (show_i64 (ev_ts e) @ CHR '','' # rest)"
proof -
  obtain t where "js (ev_session_id e) = quote # t @ [quote]" "json_chars t"
    using assms by (rule serde_strE)
  then show ?thesis by (intro that) (simp add: envelope_def json_scan show_u64_not_in)
qed

lemma after_PREV:
  assumes "serde_str js" "is_hex64 (ev_prev e)"
  obtains rest where "text_after (envelope js e @ r) PREV = Some (ev_prev e @ quote # rest)"
proof -
  obtain t where t: "js (ev_session_id e) = quote # t @ [quote]" "json_chars t"
    using assms(1) by (rule serde_strE)
  obtain u where u: "js (ev_host e) = quote # u @ [quote]" "json_chars u"
    using assms(1) by (rule serde_strE)
  obtain v where v: "js (ev_source e) = quote # v @ [quote]" "json_chars v"
    using assms(1) by (rule serde_strE)
  obtain w where w: "js (kind_str (ev_kind e)) = quote # w @ [quote]" "json_chars w"
    using assms(1) by (rule serde_strE)
  have "js (ev_prev e) = quote # ev_prev e @ [quote]"
    using assms by (simp add: serde_str_hex is_hex64_def)
  with t u v w show ?thesis by (intro that) (simp add: envelope_def json_scan)
qed

lemma chain_fields_envelope:
  assumes "serde_str js" "is_hex64 (ev_prev e)"
  shows "chain_fields (envelope js e @ r) = Some (ev_seq e, ev_prev e)"
proof -
  have "number (envelope js e @ r) SEQ = Some (show_u64 (ev_seq e))"
    by (rule after_SEQ [OF assms(1), of e r]) (simp add: number_here)
  moreover have "hex64 (envelope js e @ r) PREV = Some (ev_prev e)"
    by (rule after_PREV [OF assms, of r]) (simp add: hex64_here assms(2))
  ultimately show ?thesis by (simp add: chain_fields_def)
qed

lemma number_TS_envelope:
  assumes "serde_str js"
  shows "number (envelope js e @ r) TS = Some (show_i64 (ev_ts e))"
  by (rule after_TS [OF assms, of e r]) (simp add: number_here)

lemma js_one_line: "serde_str js \<Longrightarrow> newline \<notin> set (js s)"
  by (auto elim!: serde_strE [of js s] dest: json_chars_one_line)

lemma envelope_one_line: "serde_str js \<Longrightarrow> one_line (envelope js e)"
  by (simp add: envelope_def one_line_def js_one_line)

section \<open>A sealed event reads back\<close>

text \<open>The line \<^const>\<open>seal\<close> writes, as a sealed line.\<close>

definition sealed_event ::
  "(bytes \<Rightarrow> bytes) \<Rightarrow> (bytes \<Rightarrow> bytes) \<Rightarrow> ('v body \<Rightarrow> bytes) \<Rightarrow> 'v event \<Rightarrow> bytes" where
  "sealed_event H js bj e =
     sealed_line (envelope js e @ bj (ev_body e)) (H (event_json js bj e))"

lemma seal_eq:
  "ev_hash e = None \<Longrightarrow>
   seal H js bj e = (sealed_event H js bj e @ [newline], H (event_json js bj e))"
  by (simp add: seal_def seal_text_def sealed_event_def sealed_line_def event_json_envelope
      butlast_append Let_def)

definition hash_hex :: "(bytes \<Rightarrow> bytes) \<Rightarrow> bool" where
  "hash_hex H \<longleftrightarrow> (\<forall>x. is_hex64 (H x))"

lemma sealed_event_props:
  assumes "serde_str js" "serde_body bj" "hash_hex H" "ev_hash e = None" "is_hex64 (ev_prev e)"
  shows "one_line (sealed_event H js bj e)" "frame_ok H (sealed_event H js bj e)"
    "frame_seq (sealed_event H js bj e) = ev_seq e"
    "frame_prev (sealed_event H js bj e) = ev_prev e"
    "frame_hash (sealed_event H js bj e) = H (event_json js bj e)"
proof -
  let ?l = "sealed_event H js bj e" and ?p = "envelope js e @ bj (ev_body e)"
  have hex: "is_hex64 (H (event_json js bj e))" using assms(3) by (simp add: hash_hex_def)
  have p: "one_line ?p"
    using assms(1,2) by (simp add: envelope_one_line serde_body_def one_line_def [of "bj _"])
  show one: "one_line ?l"
    using p is_hex64_chars [OF hex] by (simp add: sealed_event_def sealed_line_def one_line_def)
  have split: "split_sealed ?l = Some (?p, H (event_json js bj e))"
    unfolding sealed_event_def using p hex by (rule split_sealed_sealed_line)
  have fields: "chain_fields ?l = Some (ev_seq e, ev_prev e)"
    using chain_fields_envelope [OF assms(1,5)] by (simp add: sealed_event_def sealed_line_def)
  show "frame_ok H ?l" "frame_seq ?l = ev_seq e" "frame_prev ?l = ev_prev e"
    "frame_hash ?l = H (event_json js bj e)"
    using split fields
    by (simp_all add: frame_ok_def frame_seq_def frame_prev_def frame_hash_def
        hash_sealed_prefix_def event_json_envelope [OF assms(4)])
qed

end
