(* ===== verification/Paths.thy ===== *)
theory Paths
  imports Numerals
begin

text \<open>
  Paths as the standard library treats them on Unix, and the lossy conversion of bytes to text:
  shared by every component that builds, compares or prints a path.
\<close>

section \<open>Bytes as text\<close>

text \<open>
  \<^verbatim>\<open>String::from_utf8_lossy\<close>: the first character of a non-empty text, or the maximal part of one
  that goes wrong, which is replaced by U+FFFD.
\<close>

definition continuation :: "bytes \<Rightarrow> nat \<Rightarrow> bool" where
  "continuation s i \<longleftrightarrow> i < length s \<and> byte_in 0x80 0xBF (s ! i)"

definition second_ok :: "bytes \<Rightarrow> bool" where
  "second_ok s \<longleftrightarrow> 1 < length s \<and>
     (let a = s ! 0; b = s ! 1 in
      if byte_in 0xE0 0xE0 a then byte_in 0xA0 0xBF b
      else if byte_in 0xED 0xED a then byte_in 0x80 0x9F b
      else if byte_in 0xF0 0xF0 a then byte_in 0x90 0xBF b
      else if byte_in 0xF4 0xF4 a then byte_in 0x80 0x8F b
      else byte_in 0x80 0xBF b)"

definition utf8_step :: "bytes \<Rightarrow> bool \<times> nat" where
  "utf8_step s =
     (let a = s ! 0 in
      if byte_in 0 0x7F a then (True, 1)
      else if byte_in 0xC2 0xDF a then (if second_ok s then (True, 2) else (False, 1))
      else if byte_in 0xE0 0xEF a then
        (if \<not> second_ok s then (False, 1) else if continuation s 2 then (True, 3) else (False, 2))
      else if byte_in 0xF0 0xF4 a then
        (if \<not> second_ok s then (False, 1) else if \<not> continuation s 2 then (False, 2)
         else if continuation s 3 then (True, 4) else (False, 3))
      else (False, 1))"

lemma utf8_step_pos: "(ok, n) = utf8_step s \<Longrightarrow> 0 < n"
  by (auto simp: utf8_step_def Let_def split: if_splits)

function from_utf8_lossy :: "bytes \<Rightarrow> bytes" where
  "from_utf8_lossy s =
     (if s = [] then []
      else (let (ok, n) = utf8_step s in
        (if ok then take n s else [CHR 0xEF, CHR 0xBF, CHR 0xBD]) @ from_utf8_lossy (drop n s)))"
  by pat_completeness auto
termination
  by (relation "measure length") (auto dest: utf8_step_pos)

declare from_utf8_lossy.simps [simp del]

lemma from_utf8_lossy_ascii: "list_all (byte_in 0 0x7F) s \<Longrightarrow> from_utf8_lossy s = s"
proof (induction s)
  case (Cons a s)
  then have "utf8_step (a # s) = (True, 1)" by (simp add: utf8_step_def)
  with Cons show ?case by (simp add: from_utf8_lossy.simps [of "a # s"])
qed (simp add: from_utf8_lossy.simps)

text \<open>Valid text is kept as it is, and is still valid after more of it.\<close>

lemma utf8_step_valid:
  assumes "utf8_valid s" "s \<noteq> []"
  shows "\<exists>n. utf8_step s = (True, n) \<and> utf8_valid (drop n s) \<and> (\<forall>t. utf8_valid (take n s @ t) = utf8_valid t)"
proof -
  obtain a r where s: "s = a # r" using assms(2) by (cases s) auto
  show ?thesis
  proof (cases "byte_in 0 0x7F a")
    case True
    with assms(1) s show ?thesis by (simp add: utf8_step_def)
  next
    case one: False
    then obtain b t where r: "r = b # t" using assms(1) s by (cases r) auto
    show ?thesis
    proof (cases "byte_in 0xC2 0xDF a")
      case True
      with assms(1) s r one have "second_ok s" "utf8_valid t" by (auto simp: second_ok_def byte_in_def Let_def)
      moreover have "\<forall>x. utf8_valid (a # b # x) = utf8_valid x" using True one assms(1) s r by simp
      ultimately show ?thesis using True one s r by (simp add: utf8_step_def del: utf8_valid.simps)
    next
      case two: False
      then obtain c u where t: "t = c # u" using assms(1) s r one by (cases t) auto
      show ?thesis
      proof (cases "byte_in 0xE0 0xEF a")
        case True
        with assms(1) s r t one two have "second_ok s" "continuation s 2" "utf8_valid u"
          by (auto simp: second_ok_def continuation_def byte_in_def Let_def split: if_splits)
        moreover have "\<forall>x. utf8_valid (a # b # c # x) = utf8_valid x" using True one two assms(1) s r t by simp
        ultimately show ?thesis using True one two s r t by (simp add: utf8_step_def numeral_3_eq_3 del: utf8_valid.simps)
      next
        case three: False
        then obtain d v where u: "u = d # v" using assms(1) s r t one two by (cases u) auto
        from assms(1) s r t u one two three have "byte_in 0xF0 0xF4 a" "second_ok s" "continuation s 2"
          "continuation s 3" "utf8_valid v"
          by (auto simp: second_ok_def continuation_def byte_in_def Let_def numeral_3_eq_3 numeral_2_eq_2 split: if_splits)
        moreover have "\<forall>x. utf8_valid (a # b # c # d # x) = utf8_valid x" using one two three assms(1) s r t u by simp
        ultimately show ?thesis using one two three s r t u by (simp add: utf8_step_def numeral_eq_Suc del: utf8_valid.simps)
      qed
    qed
  qed
qed

lemma utf8_valid_append: "utf8_valid s \<Longrightarrow> utf8_valid (s @ t) = utf8_valid t"
proof (induction s rule: length_induct)
  case (1 s)
  show ?case
  proof (cases "s = []")
    case False
    with 1(2) obtain n where n: "utf8_step s = (True, n)" "utf8_valid (drop n s)"
      "\<forall>t. utf8_valid (take n s @ t) = utf8_valid t"
      using utf8_step_valid by blast
    have "length (drop n s) < length s" using utf8_step_pos [OF n(1) [symmetric]] False by simp
    with 1(1) n(2) have "utf8_valid (drop n s @ t) = utf8_valid t" by blast
    with n(3) show ?thesis by (metis append.assoc append_take_drop_id)
  qed simp
qed

lemma from_utf8_lossy_valid: "utf8_valid s \<Longrightarrow> from_utf8_lossy s = s"
proof (induction s rule: from_utf8_lossy.induct)
  case (1 s)
  show ?case
  proof (cases "s = []")
    case False
    with 1(2) obtain n where n: "utf8_step s = (True, n)" "utf8_valid (drop n s)" using utf8_step_valid by blast
    from 1(1) [OF False n(1) [symmetric] refl n(2)] n False show ?thesis
      by (simp add: from_utf8_lossy.simps [of s])
  qed (simp add: from_utf8_lossy.simps)
qed

lemma from_utf8_lossy_Nil [simp]: "from_utf8_lossy s = [] \<longleftrightarrow> s = []"
  using utf8_step_pos [of _ _ s] by (cases "utf8_step s") (auto simp: from_utf8_lossy.simps [of s] split: if_splits)

section \<open>Paths\<close>

text \<open>\<^verbatim>\<open>Path::join\<close> on Unix: an absolute second path replaces the first.\<close>

definition path_join :: "bytes \<Rightarrow> bytes \<Rightarrow> bytes" where
  "path_join base p =
     (if prefix ''/'' p then p
      else if base = [] \<or> last base = CHR ''/'' then base @ p
      else base @ ''/'' @ p)"

text \<open>
  \<^verbatim>\<open>Path::components\<close>: the root, then what stands between the slashes; empty pieces are
  dropped, and \<^verbatim>\<open>.\<close> too unless the path starts with it.
\<close>

definition components :: "bytes \<Rightarrow> bytes list" where
  "components p =
     (let pieces = split_byte CHR ''/'' p in
      (if prefix ''/'' p then [''/''] else if hd pieces = ''.'' then [''.''] else [])
      @ filter (\<lambda>s. s \<noteq> [] \<and> s \<noteq> ''.'') pieces)"

text \<open>\<^verbatim>\<open>Path::starts_with\<close> and \<^verbatim>\<open>==\<close> on paths compare components.\<close>

definition path_starts_with :: "bytes \<Rightarrow> bytes \<Rightarrow> bool" where
  "path_starts_with p base \<longleftrightarrow> prefix (components base) (components p)"

definition path_eq :: "bytes \<Rightarrow> bytes \<Rightarrow> bool" where
  "path_eq p q \<longleftrightarrow> components p = components q"

lemma path_eq_refl [simp]: "path_eq p p"
  by (simp add: path_eq_def)

end
