(* ===== verification/SessionLog.thy ===== *)
theory SessionLog
  imports Backwards FrameBytes Paths
begin

text \<open>
  The session directory and its writer, the rest of \<^verbatim>\<open>src/src/session_log.rs\<close>: \<^verbatim>\<open>open_in\<close>,
  \<^verbatim>\<open>next_link\<close>, \<^verbatim>\<open>append\<close> and \<^verbatim>\<open>verify\<close>.

  A session directory is the contents of its files. Every operation runs under the session's
  advisory lock, so it is one step; an append is the list of the writes it makes, so that a process
  that dies part way is a prefix of the list with its last write cut short. File-system calls do
  not fail otherwise. The \<^verbatim>\<open>lock\<close> file has no contents and is left out.
\<close>

section \<open>State\<close>

record session_dir =
  sd_events :: "bytes option"
  sd_head :: "bytes option"
  sd_head_tmp :: "bytes option"
  sd_shipped :: "bytes option"
  sd_chain_key :: "bytes option"

definition empty_dir :: session_dir where
  "empty_dir = \<lparr>sd_events = None, sd_head = None, sd_head_tmp = None, sd_shipped = None, sd_chain_key = None\<rparr>"

text \<open>The \<^verbatim>\<open>sessions/\<close> directory, by session id.\<close>

type_synonym sessions = "bytes \<rightharpoonup> session_dir"

datatype log_error = Unsafe_Session_Id bytes | Chain chain_error

record session_log =
  sl_session_id :: bytes
  sl_dir :: bytes

section \<open>Opening a session\<close>

definition check_session_id :: "bytes \<Rightarrow> log_error + unit" where
  "check_session_id sid =
     (if sid = [] \<or> CHR ''/'' \<in> set sid \<or> backslash \<in> set sid \<or> sid = ''.'' \<or> sid = ''..''
      then Inl (Unsafe_Session_Id sid) else Inr ())"

definition open_in :: "bytes \<Rightarrow> bytes \<Rightarrow> log_error + session_log" where
  "open_in root sid =
     (case check_session_id sid of
        Inl e \<Rightarrow> Inl e
      | Inr _ \<Rightarrow>
          Inr \<lparr>sl_session_id = sid, sl_dir = path_join (path_join root ''sessions'') sid\<rparr>)"

section \<open>Appending\<close>

definition next_link ::
  "(bytes \<Rightarrow> bytes) \<Rightarrow> bytes \<Rightarrow> head option \<Rightarrow> bytes option \<Rightarrow> chain_error + (u64 \<times> bytes)" where
  "next_link H sid head last_line =
     (case last_line of
        None \<Rightarrow>
          (case head of
             None \<Rightarrow> Inr (0, genesis_prev H sid)
           | Some h \<Rightarrow> Inl (Truncated (hd_seq h) 0))
      | Some line \<Rightarrow>
          (let hint = Unsealed (case head of Some h \<Rightarrow> hd_seq h | None \<Rightarrow> 0) in
           case split_sealed line of
             None \<Rightarrow> Inl hint
           | Some (_, last_hash) \<Rightarrow>
          (case chain_fields line of
             None \<Rightarrow> Inl hint
           | Some (last_seq, last_prev) \<Rightarrow>
               (let next = (last_seq + 1, last_hash) in
                case head of
                  None \<Rightarrow> Inr next
                | Some h \<Rightarrow>
                    if last_seq \<noteq> 0 \<and> last_seq - 1 = hd_seq h \<and> hd_hash h = last_prev then Inr next
                    else (case head_agrees h last_seq last_hash of
                            Some e \<Rightarrow> Inl e
                          | None \<Rightarrow> Inr next)))))"

text \<open>The writes of an append, in order.\<close>

datatype log_effect =
    Append_Events bytes
  | Write_Head_Tmp bytes
  | Rename_Head

fun apply_effect :: "log_effect \<Rightarrow> session_dir \<Rightarrow> session_dir" where
  "apply_effect (Append_Events s) d =
     d\<lparr>sd_events := Some ((case sd_events d of Some f \<Rightarrow> f | None \<Rightarrow> []) @ s)\<rparr>"
| "apply_effect (Write_Head_Tmp s) d = d\<lparr>sd_head_tmp := Some s\<rparr>"
| "apply_effect Rename_Head d =
     (case sd_head_tmp d of
        Some s \<Rightarrow> d\<lparr>sd_head := Some s, sd_head_tmp := None\<rparr>
      | None \<Rightarrow> d)"

definition apply_effects :: "log_effect list \<Rightarrow> session_dir \<Rightarrow> session_dir" where
  "apply_effects effs d = fold apply_effect effs d"

definition append_frame ::
  "(bytes \<Rightarrow> bytes) \<Rightarrow> (bytes \<Rightarrow> bytes) \<Rightarrow> ('v body \<Rightarrow> bytes) \<Rightarrow> bytes \<Rightarrow> session_dir \<Rightarrow> 'v event \<Rightarrow>
   (chain_error + log_effect list) option" where
  "append_frame H js bj sid d event =
     (case read_head (sd_head d) of
        Inl e \<Rightarrow> Some (Inl e)
      | Inr head \<Rightarrow>
     (case last_frame (sd_events d) of
        None \<Rightarrow> None
      | Some Tail_Torn \<Rightarrow>
          Some (Inl (TornTail (complete_frames (case sd_events d of Some f \<Rightarrow> f | None \<Rightarrow> []))))
      | Some tail \<Rightarrow>
          (let last_line = (case tail of Tail_Frame line \<Rightarrow> Some line | _ \<Rightarrow> None) in
           case next_link H sid head last_line of
             Inl e \<Rightarrow> Some (Inl e)
           | Inr (seq, prev) \<Rightarrow>
               (let (line, hash) = seal H js bj (event\<lparr>ev_seq := seq, ev_prev := prev\<rparr>)
                in Some (Inr [Append_Events line,
                     Write_Head_Tmp (show_head \<lparr>hd_seq = seq, hd_hash = hash\<rparr> @ [newline]),
                     Rename_Head])))))"

definition create_dir :: "sessions \<Rightarrow> bytes \<Rightarrow> session_dir" where
  "create_dir ss sid = (case ss sid of Some d \<Rightarrow> d | None \<Rightarrow> empty_dir)"

text \<open>\<^verbatim>\<open>SessionLog::append\<close>: the sessions after it, and the error it returned, if any.\<close>

definition append_event ::
  "(bytes \<Rightarrow> bytes) \<Rightarrow> (bytes \<Rightarrow> bytes) \<Rightarrow> ('v body \<Rightarrow> bytes) \<Rightarrow> bytes \<Rightarrow> sessions \<Rightarrow> 'v event \<Rightarrow>
   (sessions \<times> chain_error option) option" where
  "append_event H js bj sid ss event =
     (let d = create_dir ss sid in
      case append_frame H js bj sid d event of
        None \<Rightarrow> None
      | Some (Inl e) \<Rightarrow> Some (ss(sid \<mapsto> d), Some e)
      | Some (Inr effs) \<Rightarrow> Some (ss(sid \<mapsto> apply_effects effs d), None))"

section \<open>Verifying\<close>

record report =
  rp_frames :: u64
  rp_last_hash :: "bytes option"

definition verify :: "(bytes \<Rightarrow> bytes) \<Rightarrow> bytes \<Rightarrow> sessions \<Rightarrow> chain_error + report" where
  "verify H sid ss =
     (case ss sid of
        None \<Rightarrow> Inl (Io (''no such session: '' @ sid))
      | Some d \<Rightarrow>
          (let log = (case sd_events d of Some f \<Rightarrow> f | None \<Rightarrow> []) in
           if log = [] then
             (case read_head (sd_head d) of
                Inl e \<Rightarrow> Inl e
              | Inr None \<Rightarrow> Inr \<lparr>rp_frames = 0, rp_last_hash = None\<rparr>
              | Inr (Some h) \<Rightarrow> Inl (Truncated (hd_seq h) 0))
           else
             (case verify_segment H sid None log of
                Inl e \<Rightarrow> Inl e
              | Inr tail \<Rightarrow>
             (case read_head (sd_head d) of
                Inl e \<Rightarrow> Inl e
              | Inr None \<Rightarrow> Inl (HeadMissing (hd_seq tail))
              | Inr (Some h) \<Rightarrow>
             (case head_agrees h (hd_seq tail) (hd_hash tail) of
                Some e \<Rightarrow> Inl e
              | None \<Rightarrow>
                  Inr \<lparr>rp_frames = hd_seq tail + 1, rp_last_hash = Some (hd_hash tail)\<rparr>)))))"

text \<open>\<^verbatim>\<open>impl Display for ChainError\<close>.\<close>

fun chain_error_str :: "chain_error \<Rightarrow> bytes" where
  "chain_error_str (Unsealed seq) = ''frame '' @ show_u64 seq @ '' is not a sealed frame''"
| "chain_error_str (HashMismatch seq) = ''frame '' @ show_u64 seq @ '': hash does not match its bytes''"
| "chain_error_str (SeqGap expected found) =
     ''expected seq '' @ show_u64 expected @ '', found '' @ show_u64 found
     @ '': a frame is missing or out of order''"
| "chain_error_str (PrevMismatch seq) =
     ''frame '' @ show_u64 seq @ '': prev does not match the previous frame''"
| "chain_error_str (TornTail seq) = ''frame '' @ show_u64 seq @ '': file ends mid-frame''"
| "chain_error_str (HeadMissing last_seq) = ''head is missing; log ends at seq '' @ show_u64 last_seq"
| "chain_error_str (HeadInvalid why) = ''head is invalid: '' @ why"
| "chain_error_str (HeadStale head_seq last_seq) =
     ''head is stale: names seq '' @ show_u64 head_seq @ '', log ends at seq '' @ show_u64 last_seq"
| "chain_error_str (Truncated head_seq last_seq) =
     ''log truncated: head names seq '' @ show_u64 head_seq @ '', log ends at seq '' @ show_u64 last_seq"
| "chain_error_str (HeadMismatch seq) = ''head hash does not match frame '' @ show_u64 seq"
| "chain_error_str (Io why) = why"

section \<open>What a session directory looks like\<close>

definition head_line :: "bytes \<Rightarrow> bytes" where
  "head_line l = show_head (head_of l) @ [newline]"

text \<open>The log's bytes are these lines, and the lines are a chain from genesis.\<close>

definition log_is :: "(bytes \<Rightarrow> bytes) \<Rightarrow> bytes \<Rightarrow> bytes list \<Rightarrow> session_dir \<Rightarrow> bool" where
  "log_is H sid ls d \<longleftrightarrow>
     chain_ok H sid None ls \<and> length ls < 2 ^ 64
     \<and> (if ls = [] then sd_events d = None \<or> sd_events d = Some [] else sd_events d = Some (unlines ls))"

text \<open>\<open>settled\<close>: as an append leaves it. \<open>recoverable\<close>: as a crash may leave it.\<close>

definition settled :: "(bytes \<Rightarrow> bytes) \<Rightarrow> bytes \<Rightarrow> bytes list \<Rightarrow> session_dir \<Rightarrow> bool" where
  "settled H sid ls d \<longleftrightarrow>
     log_is H sid ls d \<and> sd_head d = (if ls = [] then None else Some (head_line (last ls)))"

definition recoverable :: "(bytes \<Rightarrow> bytes) \<Rightarrow> bytes \<Rightarrow> bytes list \<Rightarrow> session_dir \<Rightarrow> bool" where
  "recoverable H sid ls d \<longleftrightarrow>
     log_is H sid ls d
     \<and> (sd_head d = None
        \<or> ls \<noteq> [] \<and> sd_head d = Some (head_line (last ls))
        \<or> 2 \<le> length ls \<and> sd_head d = Some (head_line (ls ! (length ls - 2))))"

text \<open>\<open>torn\<close>: the last write was cut short inside a frame.\<close>

definition torn :: "(bytes \<Rightarrow> bytes) \<Rightarrow> bytes \<Rightarrow> bytes list \<Rightarrow> session_dir \<Rightarrow> bool" where
  "torn H sid ls d \<longleftrightarrow>
     chain_ok H sid None ls \<and> length ls < 2 ^ 64
     \<and> (\<exists>frag. frag \<noteq> [] \<and> one_line frag \<and> sd_events d = Some (unlines ls @ frag))
     \<and> (\<exists>h. read_head (sd_head d) = Inr h)"

lemma settled_recoverable: "settled H sid ls d \<Longrightarrow> recoverable H sid ls d"
  by (auto simp: settled_def recoverable_def)

lemma settled_empty [simp]: "settled H sid [] empty_dir"
  by (simp add: settled_def log_is_def chain_ok_def empty_dir_def)

lemma chain_ok_frame:
  assumes "chain_ok H sid after ls" "i < length ls"
  shows "one_line (ls ! i)" "frame_ok H (ls ! i)" "frame_seq (ls ! i) = first_seq after + word_of_nat i"
    "frame_prev (ls ! i) = (if i = 0 then first_prev H sid after else frame_hash (ls ! (i - 1)))"
  using assms linked_nth [of "frame_ok H" frame_seq frame_prev frame_hash "first_seq after"
      "first_prev H sid after" ls i]
  by (auto simp: chain_ok_def list_all_length)

lemma frame_hash_hex64: "one_line l \<Longrightarrow> frame_ok H l \<Longrightarrow> is_hex64 (frame_hash l)"
  by (auto simp: frame_ok_def frame_hash_def split_sealed_line_iff split: option.splits)

lemma read_head_line:
  assumes "one_line l" "frame_ok H l"
  shows "read_head (Some (head_line l)) = Inr (Some (head_of l))"
  using frame_hash_hex64 [OF assms] by (simp add: head_line_def head_of_def)

lemma frame_ok_fields:
  assumes "frame_ok H l"
  obtains p where "split_sealed l = Some (p, frame_hash l)" "chain_fields l = Some (frame_seq l, frame_prev l)"
  using assms by (auto simp: frame_ok_def frame_hash_def frame_seq_def frame_prev_def split: option.splits)

text \<open>The frame the next append writes, and where it links.\<close>

definition link_of :: "(bytes \<Rightarrow> bytes) \<Rightarrow> bytes \<Rightarrow> bytes list \<Rightarrow> bytes" where
  "link_of H sid ls = (if ls = [] then genesis_prev H sid else frame_hash (last ls))"

definition next_frame ::
  "(bytes \<Rightarrow> bytes) \<Rightarrow> (bytes \<Rightarrow> bytes) \<Rightarrow> ('v body \<Rightarrow> bytes) \<Rightarrow> bytes \<Rightarrow> bytes list \<Rightarrow> 'v event \<Rightarrow> bytes" where
  "next_frame H js bj sid ls e =
     sealed_event H js bj (e\<lparr>ev_seq := word_of_nat (length ls), ev_prev := link_of H sid ls\<rparr>)"

lemma chain_last:
  assumes "chain_ok H sid None ls" "ls \<noteq> []"
  shows "one_line (last ls)" "frame_ok H (last ls)" "frame_seq (last ls) = word_of_nat (length ls - 1)"
  using chain_ok_frame [OF assms(1), of "length ls - 1"] assms(2)
  by (simp_all add: last_conv_nth)

lemma last_frame_log:
  assumes "log_is H sid ls d"
  shows "last_frame (sd_events d) = Some (if ls = [] then Tail_Empty else Tail_Frame (last ls))"
proof (cases ls rule: rev_cases)
  case (snoc ks k)
  with assms have "sd_events d = Some (unlines ks @ k @ [newline])" "one_line k"
    by (auto simp: log_is_def chain_ok_def)
  with snoc show ?thesis by (simp add: last_frame_lines)
next
  case Nil
  with assms show ?thesis by (auto simp: log_is_def)
qed

lemma next_link_repair:
  assumes "recoverable H sid ls d"
  shows "\<exists>h. read_head (sd_head d) = Inr h \<and>
    next_link H sid h (if ls = [] then None else Some (last ls)) = Inr (word_of_nat (length ls), link_of H sid ls)"
proof (cases "ls = []")
  case True
  with assms show ?thesis by (auto simp: recoverable_def next_link_def link_of_def)
next
  case False
  let ?l = "last ls"
  have chain: "chain_ok H sid None ls" and small: "length ls < 2 ^ 64"
    using assms by (simp_all add: recoverable_def log_is_def)
  note last = chain_last [OF chain False]
  obtain p where f: "split_sealed ?l = Some (p, frame_hash ?l)"
    "chain_fields ?l = Some (frame_seq ?l, frame_prev ?l)"
    using last(2) by (rule frame_ok_fields)
  have nxt: "frame_seq ?l + 1 = word_of_nat (length ls)"
    using last(3) False by (cases ls) simp_all
  consider "sd_head d = None" | "sd_head d = Some (head_line ?l)"
    | "2 \<le> length ls" "sd_head d = Some (head_line (ls ! (length ls - 2)))"
    using assms by (auto simp: recoverable_def)
  then show ?thesis
  proof cases
    case 1
    with f nxt False show ?thesis by (simp add: next_link_def link_of_def)
  next
    case 2
    with f nxt False read_head_line [OF last(1,2)] show ?thesis
      by (simp add: next_link_def link_of_def head_of_def head_agrees_def Let_def)
  next
    case 3
    let ?m = "ls ! (length ls - 2)"
    have i: "length ls - 2 < length ls" "length ls - 1 < length ls" using 3(1) by simp_all
    note m = chain_ok_frame [OF chain i(1)]
    have seq: "frame_seq ?m = word_of_nat (length ls - 2)" using m(3) by simp
    have prev: "frame_prev ?l = frame_hash ?m"
      using chain_ok_frame(4) [OF chain i(2)] 3(1) False
      by (simp add: last_conv_nth) (metis One_nat_def Suc_1 diff_Suc_Suc diff_zero numeral_2_eq_2)
    have "unat (frame_seq ?l) = length ls - 1"
      unfolding last(3) using small by (intro unat_word_of_nat) simp
    then have "frame_seq ?l \<noteq> 0" using 3(1) by (metis One_nat_def Suc_1 diff_is_0_eq not_less_eq_eq unat_0)
    moreover have "frame_seq ?l - 1 = frame_seq ?m"
      unfolding seq last(3) using 3(1) by (simp add: of_nat_diff numeral_2_eq_2)
    ultimately show ?thesis
      using 3(2) read_head_line [OF m(1,2)] f nxt False prev
      by (simp add: next_link_def link_of_def head_of_def Let_def)
  qed
qed

section \<open>What an append does\<close>

definition append_writes :: "bytes \<Rightarrow> log_effect list" where
  "append_writes l = [Append_Events (l @ [newline]), Write_Head_Tmp (head_line l), Rename_Head]"

lemma link_of_hex64:
  assumes "hash_hex H" "chain_ok H sid None ls"
  shows "is_hex64 (link_of H sid ls)"
  using assms chain_last [OF assms(2)]
  by (auto simp: link_of_def hash_hex_def genesis_prev_def frame_hash_hex64)

lemma next_frame_props:
  assumes "serde_str js" "serde_body bj" "hash_hex H" "ev_hash e = None" "chain_ok H sid None ls"
  shows "one_line (next_frame H js bj sid ls e)" "frame_ok H (next_frame H js bj sid ls e)"
    "frame_seq (next_frame H js bj sid ls e) = word_of_nat (length ls)"
    "frame_prev (next_frame H js bj sid ls e) = link_of H sid ls"
  using sealed_event_props [OF assms(1-3), of "e\<lparr>ev_seq := word_of_nat (length ls), ev_prev := link_of H sid ls\<rparr>"]
    link_of_hex64 [OF assms(3,5)] assms(4)
  by (simp_all add: next_frame_def)

lemma chain_ok_next:
  assumes "serde_str js" "serde_body bj" "hash_hex H" "ev_hash e = None" "chain_ok H sid None ls"
  shows "chain_ok H sid None (ls @ [next_frame H js bj sid ls e])"
  using assms(5) next_frame_props [OF assms]
  by (auto simp: chain_ok_def linked_append link_of_def)

lemma append_frame_recoverable:
  assumes "serde_str js" "serde_body bj" "hash_hex H" "ev_hash e = None" "recoverable H sid ls d"
  shows "append_frame H js bj sid d e = Some (Inr (append_writes (next_frame H js bj sid ls e)))"
proof -
  have log: "log_is H sid ls d" and chain: "chain_ok H sid None ls"
    using assms(5) by (simp_all add: recoverable_def log_is_def)
  obtain h where h: "read_head (sd_head d) = Inr h"
    "next_link H sid h (if ls = [] then None else Some (last ls)) = Inr (word_of_nat (length ls), link_of H sid ls)"
    using next_link_repair [OF assms(5)] by blast
  let ?e = "e\<lparr>ev_seq := word_of_nat (length ls), ev_prev := link_of H sid ls\<rparr>"
  have seal: "seal H js bj ?e = (next_frame H js bj sid ls e @ [newline], frame_hash (next_frame H js bj sid ls e))"
    using assms(4) sealed_event_props(5) [OF assms(1-3), of ?e] link_of_hex64 [OF assms(3) chain]
    by (simp add: seal_eq next_frame_def)
  have "head_line (next_frame H js bj sid ls e) =
    show_head \<lparr>hd_seq = word_of_nat (length ls), hd_hash = frame_hash (next_frame H js bj sid ls e)\<rparr> @ [newline]"
    using next_frame_props(3) [OF assms(1-4) chain] by (simp add: head_line_def head_of_def)
  with h last_frame_log [OF log] seal show ?thesis
    by (cases "ls = []") (simp_all add: append_frame_def append_writes_def)
qed

lemma append_frame_torn:
  assumes "torn H sid ls d"
  shows "append_frame H js bj sid d e = Some (Inl (TornTail (word_of_nat (length ls))))"
proof -
  obtain frag h where f: "frag \<noteq> []" "one_line frag" "sd_events d = Some (unlines ls @ frag)"
    "read_head (sd_head d) = Inr h" "list_all one_line ls"
    using assms by (auto simp: torn_def chain_ok_def)
  have "\<not> ends_with_newline frag"
    using f(1,2) last_in_set by (fastforce simp: ends_with_newline_def one_line_def)
  with f have "last_frame (sd_events d) = Some Tail_Torn" by (simp add: last_frame_torn)
  moreover have "complete_frames (unlines ls @ frag) = word_of_nat (length ls)"
    using f(2,5) by (simp add: complete_frames_def count_byte_unlines count_byte_0 one_line_def)
  ultimately show ?thesis using f(3,4) by (simp add: append_frame_def)
qed

lemma append_writes_settled:
  assumes "log_is H sid ls d" "chain_ok H sid None (ls @ [l])" "Suc (length ls) < 2 ^ 64"
  shows "settled H sid (ls @ [l]) (apply_effects (append_writes l) d)"
  using assms by (auto simp: settled_def log_is_def apply_effects_def append_writes_def split: if_splits)

section \<open>A write cut short\<close>

text \<open>
  What may have happened of a write when the process dies in it. A rename is atomic; a file
  write may have put any part of its bytes on disk, from the front.
\<close>

fun partial_effect :: "nat \<Rightarrow> log_effect \<Rightarrow> log_effect list" where
  "partial_effect k (Append_Events s) = [Append_Events (take k s)]"
| "partial_effect k (Write_Head_Tmp s) = [Write_Head_Tmp (take k s)]"
| "partial_effect k Rename_Head = []"

definition crash :: "nat \<Rightarrow> nat \<Rightarrow> log_effect list \<Rightarrow> session_dir \<Rightarrow> session_dir" where
  "crash n k effs d =
     apply_effects (take n effs @ (if n < length effs then partial_effect k (effs ! n) else [])) d"

text \<open>
  \<open>stale\<close>: the head names a frame further back than the one before the last. Only a second crash
  of the same kind, in the append that would have repaired the first, leaves this behind.
\<close>

definition stale :: "(bytes \<Rightarrow> bytes) \<Rightarrow> bytes \<Rightarrow> bytes list \<Rightarrow> session_dir \<Rightarrow> bool" where
  "stale H sid ls d \<longleftrightarrow>
     log_is H sid ls d \<and> (\<exists>i. i + 2 < length ls \<and> sd_head d = Some (head_line (ls ! i)))"

definition kept_log :: "(bytes \<Rightarrow> bytes) \<Rightarrow> bytes \<Rightarrow> bytes list \<Rightarrow> session_dir \<Rightarrow> bool" where
  "kept_log H sid ls d \<longleftrightarrow> recoverable H sid ls d \<or> stale H sid ls d \<or> torn H sid ls d"

lemma recoverable_log_bytes:
  "log_is H sid ls d \<Longrightarrow> (case sd_events d of Some f \<Rightarrow> f | None \<Rightarrow> []) = unlines ls"
  by (auto simp: log_is_def split: if_splits)

lemma recoverable_read_head: "recoverable H sid ls d \<Longrightarrow> \<exists>h. read_head (sd_head d) = Inr h"
  using next_link_repair by blast

lemma log_is_append_event:
  assumes "log_is H sid ls d" "chain_ok H sid None (ls @ [l])" "Suc (length ls) < 2 ^ 64"
  shows "log_is H sid (ls @ [l]) (apply_effect (Append_Events (l @ [newline])) d)"
  using assms by (auto simp: log_is_def split: if_splits)

lemma recoverable_grows:
  assumes "recoverable H sid ls d" "log_is H sid (ls @ [l]) d'" "sd_head d' = sd_head d"
  shows "recoverable H sid (ls @ [l]) d' \<or> stale H sid (ls @ [l]) d'"
proof -
  consider "sd_head d = None" | "ls \<noteq> []" "sd_head d = Some (head_line (last ls))"
    | "2 \<le> length ls" "sd_head d = Some (head_line (ls ! (length ls - 2)))"
    using assms(1) by (auto simp: recoverable_def)
  then show ?thesis
  proof cases
    case 1
    with assms show ?thesis by (simp add: recoverable_def)
  next
    case 2
    then have "2 \<le> length (ls @ [l])" "(ls @ [l]) ! (length (ls @ [l]) - 2) = last ls"
      by (cases ls; simp add: nth_append last_conv_nth)+
    with 2 assms show ?thesis by (auto simp: recoverable_def)
  next
    case 3
    then have "length ls - 2 < length ls" "length ls - 2 + 2 < length (ls @ [l])" by simp_all
    then have "(ls @ [l]) ! (length ls - 2) = ls ! (length ls - 2)" "length ls - 2 + 2 < length (ls @ [l])"
      by (simp_all only: nth_append if_True)
    with 3 assms show ?thesis unfolding stale_def by metis
  qed
qed

lemma torn_partial:
  assumes "recoverable H sid ls d" "one_line l" "k \<noteq> 0" "k \<le> length l"
  shows "torn H sid ls (apply_effect (Append_Events (take k (l @ [newline]))) d)"
proof -
  have "take k (l @ [newline]) = take k l" "take k l \<noteq> []" "one_line (take k l)"
    using assms(2-4) by (auto simp: one_line_def dest: in_set_takeD)
  moreover have "log_is H sid ls d" using assms(1) by (simp add: recoverable_def)
  ultimately show ?thesis
    using recoverable_read_head [OF assms(1)] recoverable_log_bytes [of H sid ls d]
    by (auto simp: torn_def log_is_def)
qed

lemma recoverable_same:
  "recoverable H sid ls d \<Longrightarrow> sd_events d' = Some (unlines ls) \<Longrightarrow> sd_head d' = sd_head d \<Longrightarrow>
   recoverable H sid ls d'"
  by (auto simp: recoverable_def log_is_def)

lemma crash_append:
  assumes rec: "recoverable H sid ls d" and chain: "chain_ok H sid None (ls @ [l])"
    and small: "Suc (length ls) < 2 ^ 64"
  shows "kept_log H sid ls (crash n k (append_writes l) d)
    \<or> kept_log H sid (ls @ [l]) (crash n k (append_writes l) d)"
proof -
  have log: "log_is H sid ls d" using rec by (simp add: recoverable_def)
  have one: "one_line l" using chain by (simp add: chain_ok_def)
  note bytes = recoverable_log_bytes [OF log]
  let ?w = "apply_effect (Append_Events (l @ [newline])) d"
  have grown: "recoverable H sid (ls @ [l]) d' \<or> stale H sid (ls @ [l]) d'"
    if "sd_events d' = sd_events ?w" "sd_head d' = sd_head d" for d'
    using that recoverable_grows [OF rec _ that(2)] log_is_append_event [OF log chain small]
    by (auto simp: log_is_def)
  consider "n = 0" | "n = 1" | "n = 2" | "3 \<le> n" by linarith
  then show ?thesis
  proof cases
    case 1
    then have c: "crash n k (append_writes l) d = apply_effect (Append_Events (take k (l @ [newline]))) d"
      by (simp add: crash_def append_writes_def apply_effects_def)
    consider "k = 0" | "k \<noteq> 0" "k \<le> length l" | "length l < k" by linarith
    then show ?thesis
    proof cases
      case 1
      then have "recoverable H sid ls (crash n k (append_writes l) d)"
        unfolding c using bytes by (intro recoverable_same [OF rec]) simp_all
      then show ?thesis by (simp add: kept_log_def)
    next
      case 2
      then show ?thesis unfolding c kept_log_def using torn_partial [OF rec one] by blast
    next
      case 3
      then have t: "take k (l @ [newline]) = l @ [newline]" by simp
      have "sd_head ?w = sd_head d" by simp
      from grown [OF refl this] show ?thesis unfolding c kept_log_def t by blast
    qed
  next
    case 2
    then have "sd_events (crash n k (append_writes l) d) = sd_events ?w"
      "sd_head (crash n k (append_writes l) d) = sd_head d"
      by (simp_all add: crash_def append_writes_def apply_effects_def)
    then show ?thesis unfolding kept_log_def using grown by blast
  next
    case 3
    then have "sd_events (crash n k (append_writes l) d) = sd_events ?w"
      "sd_head (crash n k (append_writes l) d) = sd_head d"
      by (simp_all add: crash_def append_writes_def apply_effects_def numeral_2_eq_2)
    then show ?thesis unfolding kept_log_def using grown by blast
  next
    case 4
    then have "crash n k (append_writes l) d = apply_effects (append_writes l) d"
      by (simp add: crash_def append_writes_def)
    then show ?thesis
      using append_writes_settled [OF log chain small] settled_recoverable by (auto simp: kept_log_def)
  qed
qed

lemma append_frame_stale:
  assumes log: "log_is H sid ls d" and i: "i + 2 < length ls" "sd_head d = Some (head_line (ls ! i))"
  shows "append_frame H js bj sid d e =
    Some (Inl (HeadStale (word_of_nat i) (word_of_nat (length ls - 1))))"
proof -
  have chain: "chain_ok H sid None ls" and small: "length ls < 2 ^ 64" and ne: "ls \<noteq> []"
    and il: "i < length ls" using log i by (auto simp: log_is_def)
  note fi = chain_ok_frame [OF chain il] and last = chain_last [OF chain ne]
  obtain p where f: "split_sealed (last ls) = Some (p, frame_hash (last ls))"
    "chain_fields (last ls) = Some (frame_seq (last ls), frame_prev (last ls))"
    using last(2) by (rule frame_ok_fields)
  have unats: "unat (word_of_nat i :: u64) = i" "unat (word_of_nat (length ls - 1) :: u64) = length ls - 1"
    "unat (word_of_nat (length ls - 2) :: u64) = length ls - 2"
    using small i(1) by (intro unat_word_of_nat; linarith)+
  have "frame_seq (last ls) - 1 = word_of_nat (length ls - 2)"
    unfolding last(3) using i(1) by (simp add: of_nat_diff numeral_2_eq_2)
  moreover have "word_of_nat (length ls - 2) \<noteq> (word_of_nat i :: u64)"
    using unats i(1) by (metis Suc_diff_Suc add_2_eq_Suc' diff_zero less_add_same_cancel2 less_diff_conv nat_less_le)
  ultimately have neq: "frame_seq (last ls) - 1 \<noteq> frame_seq (ls ! i)" using fi(3) by simp
  have less: "frame_seq (ls ! i) < frame_seq (last ls)"
    using fi(3) last(3) unats i(1) by (simp add: word_less_nat_alt)
  have "next_link H sid (Some (head_of (ls ! i))) (Some (last ls)) =
    Inl (HeadStale (frame_seq (ls ! i)) (frame_seq (last ls)))"
    using f neq less by (simp add: next_link_def head_of_def head_agrees_def Let_def)
  with i last_frame_log [OF log] ne read_head_line [OF fi(1,2)] fi(3) last(3) show ?thesis
    by (simp add: append_frame_def)
qed

section \<open>A history of appends\<close>

text \<open>
  One attempt to append to a session: it completes, it is refused, or the process dies in it. The
  number counts the attempts.
\<close>

inductive attempts ::
  "(bytes \<Rightarrow> bytes) \<Rightarrow> (bytes \<Rightarrow> bytes) \<Rightarrow> ('v body \<Rightarrow> bytes) \<Rightarrow> bytes \<Rightarrow> nat \<Rightarrow> session_dir \<Rightarrow> session_dir \<Rightarrow> bool"
  for H js bj sid where
  Start: "attempts H js bj sid 0 d d"
| Done: "attempts H js bj sid m d0 d \<Longrightarrow> ev_hash e = None \<Longrightarrow>
    append_frame H js bj sid d e = Some (Inr effs) \<Longrightarrow>
    attempts H js bj sid (Suc m) d0 (apply_effects effs d)"
| Refused: "attempts H js bj sid m d0 d \<Longrightarrow> ev_hash e = None \<Longrightarrow>
    append_frame H js bj sid d e = Some (Inl err) \<Longrightarrow> attempts H js bj sid (Suc m) d0 d"
| Died: "attempts H js bj sid m d0 d \<Longrightarrow> ev_hash e = None \<Longrightarrow>
    append_frame H js bj sid d e = Some (Inr effs) \<Longrightarrow>
    attempts H js bj sid (Suc m) d0 (crash n k effs d)"

lemma kept_log_writes:
  assumes "kept_log H sid ls d" "append_frame H js bj sid d e = Some (Inr effs)"
  shows "recoverable H sid ls d"
  using assms append_frame_stale [of H sid ls d _ js bj e] append_frame_torn [of H sid ls d js bj e]
  by (auto simp: kept_log_def stale_def)

lemma kept_log_chain: "kept_log H sid ls d \<Longrightarrow> chain_ok H sid None ls"
  by (auto simp: kept_log_def recoverable_def stale_def torn_def log_is_def)

lemma crash_all: "crash (length effs) k effs d = apply_effects effs d"
  by (simp add: crash_def)

lemma attempt_keeps:
  assumes "serde_str js" "serde_body bj" "hash_hex H" "ev_hash e = None"
    and "kept_log H sid ls d" "append_frame H js bj sid d e = Some (Inr effs)" "Suc (length ls) < 2 ^ 64"
  shows "\<exists>ls'. prefix ls ls' \<and> length ls' \<le> Suc (length ls) \<and> kept_log H sid ls' (crash n k effs d)"
proof -
  note rec = kept_log_writes [OF assms(5,6)]
  have effs: "effs = append_writes (next_frame H js bj sid ls e)"
    using append_frame_recoverable [OF assms(1-4) rec] assms(6) by simp
  have "chain_ok H sid None (ls @ [next_frame H js bj sid ls e])"
    using assms(1-5) by (intro chain_ok_next kept_log_chain)
  from crash_append [OF rec this assms(7), of n k] show ?thesis unfolding effs
    by (elim disjE) (auto intro: exI [of _ ls] exI [of _ "ls @ [next_frame H js bj sid ls e]"])
qed

lemma attempts_keep:
  assumes "attempts H js bj sid m d0 d" "serde_str js" "serde_body bj" "hash_hex H"
    and "kept_log H sid ls d0" "length ls + m < 2 ^ 64"
  shows "\<exists>ls'. prefix ls ls' \<and> length ls' \<le> length ls + m \<and> kept_log H sid ls' d"
  using assms(1,5,6)
proof (induction rule: attempts.induct)
  case (Start d)
  then show ?case by (intro exI [of _ ls]) simp
next
  case (Done m d0 d e effs)
  then obtain ls1 where 1: "prefix ls ls1" "length ls1 \<le> length ls + m" "kept_log H sid ls1 d" by auto
  then obtain ls2 where "prefix ls1 ls2" "length ls2 \<le> Suc (length ls1)"
    "kept_log H sid ls2 (crash (length effs) 0 effs d)"
    using attempt_keeps [OF assms(2-4) Done.hyps(2) 1(3) Done.hyps(3)] Done.prems by fastforce
  with 1 show ?case unfolding crash_all
    by (intro exI [of _ ls2]) (auto intro: prefix_order.trans)
next
  case (Refused m d0 d e err)
  then obtain ls1 where "prefix ls ls1" "length ls1 \<le> length ls + m" "kept_log H sid ls1 d" by auto
  then show ?case by (intro exI [of _ ls1]) simp
next
  case (Died m d0 d e effs n k)
  then obtain ls1 where 1: "prefix ls ls1" "length ls1 \<le> length ls + m" "kept_log H sid ls1 d" by auto
  then obtain ls2 where "prefix ls1 ls2" "length ls2 \<le> Suc (length ls1)"
    "kept_log H sid ls2 (crash n k effs d)"
    using attempt_keeps [OF assms(2-4) Died.hyps(2) 1(3) Died.hyps(3)] Died.prems by fastforce
  with 1 show ?case by (intro exI [of _ ls2]) (auto intro: prefix_order.trans)
qed

section \<open>What \<^verbatim>\<open>verify\<close> reports\<close>

lemma verify_segment_log:
  assumes "chain_ok H sid None ls" "ls \<noteq> []"
  shows "verify_segment H sid None (unlines ls) = Inr (head_of (last ls))"
  using assms by (subst verify_segment_unlines_Inr) (auto simp: chain_ok_def)

lemma last_seq_Suc: "chain_ok H sid None ls \<Longrightarrow> ls \<noteq> [] \<Longrightarrow> frame_seq (last ls) + 1 = word_of_nat (length ls)"
  using chain_last(3) [of H sid ls] by (cases ls) simp_all

lemma verify_settled:
  assumes "settled H sid ls d" "ss sid = Some d"
  shows "verify H sid ss = Inr \<lparr>rp_frames = word_of_nat (length ls),
    rp_last_hash = (if ls = [] then None else Some (frame_hash (last ls)))\<rparr>"
proof -
  have log: "log_is H sid ls d" and chain: "chain_ok H sid None ls"
    using assms(1) by (simp_all add: settled_def log_is_def)
  note bytes = recoverable_log_bytes [OF log]
  show ?thesis
  proof (cases "ls = []")
    case True
    with assms bytes show ?thesis by (simp add: verify_def settled_def)
  next
    case False
    note last = chain_last [OF chain False]
    from False assms bytes verify_segment_log [OF chain False] read_head_line [OF last(1,2)]
      last_seq_Suc [OF chain False]
    show ?thesis
      by (simp add: verify_def settled_def head_agrees_def head_of_def Let_def)
  qed
qed

lemma verify_Inr:
  assumes "verify H sid ss = Inr r"
  obtains d ls where "ss sid = Some d"
    "(case sd_events d of Some f \<Rightarrow> f | None \<Rightarrow> []) = unlines ls" "chain_ok H sid None ls"
    "rp_frames r = word_of_nat (length ls)"
    "rp_last_hash r = (if ls = [] then None else Some (frame_hash (last ls)))"
    "read_head (sd_head d) = Inr (if ls = [] then None else Some (head_of (last ls)))"
proof -
  obtain d where d: "ss sid = Some d" using assms by (auto simp: verify_def split: option.splits)
  define log where "log = (case sd_events d of Some f \<Rightarrow> f | None \<Rightarrow> [])"
  show ?thesis
  proof (cases "log = []")
    case True
    with assms d that [of d "[]"] show ?thesis
      by (auto simp: verify_def log_def chain_ok_def Let_def split: sum.splits option.splits)
  next
    case False
    then obtain t h where t: "verify_segment H sid None log = Inr t" "read_head (sd_head d) = Inr (Some h)"
      "h = t" "r = \<lparr>rp_frames = hd_seq t + 1, rp_last_hash = Some (hd_hash t)\<rparr>"
      using assms d
      by (auto simp: verify_def log_def [symmetric] Let_def head_agrees_None split: sum.splits option.splits)
    from t(1) False obtain ls where ls: "ls \<noteq> []" "log = unlines ls" "chain_ok H sid None ls" "t = head_of (last ls)"
      by (rule verify_segment_Inr)
    with that [of d ls] d t last_seq_Suc [OF ls(3,1)] show ?thesis
      by (simp add: log_def head_of_def)
  qed
qed

lemma verify_torn:
  assumes "torn H sid ls d" "ss sid = Some d"
  shows "verify H sid ss = Inl (TornTail (word_of_nat (length ls)))"
proof -
  obtain frag where f: "frag \<noteq> []" "one_line frag" "sd_events d = Some (unlines ls @ frag)" "list_all one_line ls"
    using assms by (auto simp: torn_def chain_ok_def)
  have "\<not> ends_with_newline frag"
    using f(1,2) last_in_set by (fastforce simp: ends_with_newline_def one_line_def)
  with f assms(2) show ?thesis
    by (simp add: verify_def verify_segment_walk complete_frames_def count_byte_unlines count_byte_0 one_line_def)
qed

section \<open>Runs of appends\<close>

lemma append_event_recoverable:
  assumes "serde_str js" "serde_body bj" "hash_hex H" "ev_hash e = None"
    and "recoverable H sid ls (create_dir ss sid)" "Suc (length ls) < 2 ^ 64"
  shows "\<exists>d. append_event H js bj sid ss e = Some (ss(sid \<mapsto> d), None)
    \<and> settled H sid (ls @ [next_frame H js bj sid ls e]) d"
proof -
  have log: "log_is H sid ls (create_dir ss sid)" and chain: "chain_ok H sid None ls"
    using assms(5) by (simp_all add: recoverable_def log_is_def)
  have "settled H sid (ls @ [next_frame H js bj sid ls e])
      (apply_effects (append_writes (next_frame H js bj sid ls e)) (create_dir ss sid))"
    using append_writes_settled [OF log] chain_ok_next [OF assms(1-4) chain] assms(6) by blast
  with append_frame_recoverable [OF assms(1-5)] show ?thesis
    by (intro exI [of _ "apply_effects (append_writes (next_frame H js bj sid ls e)) (create_dir ss sid)"])
      (simp add: append_event_def Let_def)
qed

lemma append_event_other:
  "append_event H js bj sid ss e = Some (ss', r) \<Longrightarrow> other \<noteq> sid \<Longrightarrow> ss' other = ss other"
  by (auto simp: append_event_def Let_def split: option.splits sum.splits)

lemma append_event_refused:
  "append_event H js bj sid ss e = Some (ss', Some err) \<Longrightarrow> ss' = ss(sid \<mapsto> create_dir ss sid)"
  by (auto simp: append_event_def Let_def split: option.splits sum.splits)

text \<open>Appending one event after another, as the hook command does; \<open>None\<close> when one is refused.\<close>

fun append_all ::
  "(bytes \<Rightarrow> bytes) \<Rightarrow> (bytes \<Rightarrow> bytes) \<Rightarrow> ('v body \<Rightarrow> bytes) \<Rightarrow> bytes \<Rightarrow> sessions \<Rightarrow> 'v event list \<Rightarrow> sessions option" where
  "append_all H js bj sid ss [] = Some ss"
| "append_all H js bj sid ss (e # es) =
     (case append_event H js bj sid ss e of
        Some (ss', None) \<Rightarrow> append_all H js bj sid ss' es
      | _ \<Rightarrow> None)"

text \<open>The lines such a run leaves behind lines that are already there.\<close>

fun frames_of ::
  "(bytes \<Rightarrow> bytes) \<Rightarrow> (bytes \<Rightarrow> bytes) \<Rightarrow> ('v body \<Rightarrow> bytes) \<Rightarrow> bytes \<Rightarrow> bytes list \<Rightarrow> 'v event list \<Rightarrow> bytes list" where
  "frames_of H js bj sid ls [] = ls"
| "frames_of H js bj sid ls (e # es) = frames_of H js bj sid (ls @ [next_frame H js bj sid ls e]) es"

lemma length_frames_of [simp]: "length (frames_of H js bj sid ls es) = length ls + length es"
  by (induction es arbitrary: ls) auto

lemma append_all_settled:
  assumes "serde_str js" "serde_body bj" "hash_hex H" "list_all (\<lambda>e. ev_hash e = None) es"
    and "settled H sid ls (create_dir ss sid)" "length ls + length es < 2 ^ 64"
  shows "\<exists>ss'. append_all H js bj sid ss es = Some ss'
    \<and> settled H sid (frames_of H js bj sid ls es) (create_dir ss' sid)
    \<and> (\<forall>other. other \<noteq> sid \<longrightarrow> ss' other = ss other) \<and> (es \<noteq> [] \<longrightarrow> ss' sid \<noteq> None)"
  using assms(4-6)
proof (induction es arbitrary: ss ls)
  case (Cons e es)
  from Cons.prems obtain d where d: "append_event H js bj sid ss e = Some (ss(sid \<mapsto> d), None)"
    "settled H sid (ls @ [next_frame H js bj sid ls e]) d"
    using append_event_recoverable [OF assms(1-3), of e sid ls ss] settled_recoverable by auto
  from d(2) have "settled H sid (ls @ [next_frame H js bj sid ls e]) (create_dir (ss(sid \<mapsto> d)) sid)"
    by (simp add: create_dir_def)
  moreover have "list_all (\<lambda>e. ev_hash e = None) es"
    "length (ls @ [next_frame H js bj sid ls e]) + length es < 2 ^ 64"
    using Cons.prems by simp_all
  ultimately obtain ss' where ss':
    "append_all H js bj sid (ss(sid \<mapsto> d)) es = Some ss'"
    "settled H sid (frames_of H js bj sid (ls @ [next_frame H js bj sid ls e]) es) (create_dir ss' sid)"
    "\<forall>other. other \<noteq> sid \<longrightarrow> ss' other = (ss(sid \<mapsto> d)) other" "es \<noteq> [] \<longrightarrow> ss' sid \<noteq> None"
    using Cons.IH by blast
  have "ss' sid \<noteq> None" using ss'(1,4) by (cases "es = []") auto
  with ss' d(1) show ?case by (intro exI [of _ ss']) auto
qed simp

section \<open>Reading the frames after a position\<close>

lemma find_sub_fits:
  assumes "find_sub h n = Some i"
  shows "i + length n \<le> length h"
  using find_sub_bound [OF assms] prefix_length_le [OF find_sub_Some [OF assms]] by simp

lemma find_sub_extend: "find_sub h n = Some i \<Longrightarrow> find_sub (h @ x) n = Some i"
proof (induction h arbitrary: i)
  case (Cons a h)
  have "prefix n ((a # h) @ x) \<longleftrightarrow> prefix n (a # h)"
    using find_sub_fits [OF Cons.prems] by (auto intro: prefix_prefix prefix_length_prefix)
  with Cons show ?case by (auto split: if_splits)
qed simp

lemma position_byte_extend: "position_byte c h = Some i \<Longrightarrow> position_byte c (h @ x) = Some i"
  by (induction h arbitrary: i) (auto split: if_splits)

lemma number_extend: "number l m = Some v \<Longrightarrow> number (l @ x) m = Some v"
proof -
  assume v: "number l m = Some v"
  then obtain i e where i: "find_sub l m = Some i" "position_byte CHR '','' (drop (i + length m) l) = Some e"
    "from_utf8 (take e (drop (i + length m) l)) = Some v"
    by (auto simp: number_def bind_eq_Some_conv Let_def)
  moreover have "e < length (drop (i + length m) l)" using position_byte_Some [OF i(2)] by simp
  ultimately show ?thesis
    using find_sub_fits [OF i(1)]
    by (simp add: number_def find_sub_extend position_byte_extend Let_def)
qed

lemma hex64_extend: "hex64 l m = Some v \<Longrightarrow> hex64 (l @ x) m = Some v"
proof -
  assume v: "hex64 l m = Some v"
  then obtain i where i: "find_sub l m = Some i" by (auto simp: hex64_def bind_eq_Some_conv)
  let ?k = "i + length m"
  from v i have k: "?k + 64 \<le> length l" "v = take 64 (drop ?k l)" "list_all is_ascii_hexdigit v"
    and q: "\<not> (case drop (?k + 64) l of [] \<Rightarrow> True | c # _ \<Rightarrow> c \<noteq> quote)"
    by (auto simp: hex64_def Let_def split: if_splits)
  have "take 64 (drop ?k (l @ x)) = v" using k by simp
  moreover have "\<not> (case drop (?k + 64) (l @ x) of [] \<Rightarrow> True | c # _ \<Rightarrow> c \<noteq> quote)"
    using q k(1) by (cases "drop (?k + 64) l") simp_all
  ultimately show ?thesis
    using k i by (simp add: hex64_def find_sub_extend Let_def)
qed

lemma chain_fields_extend: "chain_fields l = Some r \<Longrightarrow> chain_fields (l @ x) = Some r"
  by (auto simp: chain_fields_def bind_eq_Some_conv number_extend hex64_extend)

lemma has_seq_frame: "frame_ok H l \<Longrightarrow> has_seq s (l @ [newline]) \<longleftrightarrow> frame_seq l = s"
  by (erule frame_ok_fields) (simp add: has_seq_def chain_fields_extend)

lemma after_last_here:
  assumes "i < length xs" "P (xs ! i)" "\<And>j. i < j \<Longrightarrow> j < length xs \<Longrightarrow> \<not> P (xs ! j)"
  shows "after_last P xs = Some (drop (Suc i) xs)"
  using assms
proof (induction xs arbitrary: i)
  case (Cons x xs)
  show ?case
  proof (cases i)
    case 0
    with Cons.prems have "after_last P xs = None"
      by (fastforce simp: after_last_None in_set_conv_nth)
    with 0 Cons.prems show ?thesis by simp
  next
    case (Suc k)
    with Cons.prems have "after_last P xs = Some (drop (Suc k) xs)" by (intro Cons.IH) force+
    with Suc show ?thesis by simp
  qed
qed simp

lemma read_after_seq_log:
  assumes "chain_ok H sid None ls" "length ls < 2 ^ 64" "i < length ls"
  shows "read_after_seq (Some (unlines ls)) (word_of_nat i) = Some (Some (unlines (drop (Suc i) ls)))"
proof -
  let ?lines = "map (\<lambda>l. l @ [newline]) ls"
  have at: "has_seq (word_of_nat i) (?lines ! j) \<longleftrightarrow> j = i" if "j < length ls" for j
  proof -
    note f = chain_ok_frame [OF assms(1) that]
    have "(word_of_nat j :: u64) = word_of_nat i \<longleftrightarrow> j = i"
      using that assms(2,3) by (metis unat_word_of_nat order_less_trans)
    with f(2,3) that show ?thesis by (simp add: has_seq_frame)
  qed
  have "after_last (has_seq (word_of_nat i)) ?lines = Some (drop (Suc i) ?lines)"
    using assms(3) at by (intro after_last_here) auto
  moreover have "split_inclusive newline (unlines ls) = ?lines"
    using assms(1) by (intro split_inclusive_unlines) (simp add: chain_ok_def)
  ultimately show ?thesis
    by (simp add: read_after_seq_reference) (simp add: unlines_def drop_map)
qed

lemma verify_segment_suffix:
  assumes "chain_ok H sid None ls" "Suc i < length ls"
  shows "verify_segment H sid (Some (head_of (ls ! i))) (unlines (drop (Suc i) ls)) = Inr (head_of (last ls))"
proof -
  have "ls = take (Suc i) ls @ drop (Suc i) ls" by simp
  moreover have ne: "take (Suc i) ls \<noteq> []" "last (take (Suc i) ls) = ls ! i"
    using assms(2) by (auto simp: take_Suc_conv_app_nth)
  ultimately have "chain_ok H sid (Some (head_of (ls ! i))) (drop (Suc i) ls)"
    using assms(1) chain_ok_append [OF ne(1), of H sid None "drop (Suc i) ls"] by simp
  moreover have "list_all one_line (drop (Suc i) ls)" using assms(1)
    by (auto simp: chain_ok_def list_all_iff dest: in_set_dropD)
  ultimately show ?thesis using assms(2) by (simp add: verify_segment_unlines_Inr)
qed

end
