(* ===== verification/VaultIndex.thy ===== *)
theory VaultIndex
  imports SessionLog
begin

text \<open>
  The clear index of a batch: \<^verbatim>\<open>src/src/vault/index.rs\<close>, and the bodies of
  \<^verbatim>\<open>src/src/vault/wire.rs\<close> that carry it. \<^verbatim>\<open>build_index\<close> is the machine's side and
  \<^verbatim>\<open>verify_linkage\<close> the vault's. The lemmas show that they agree with \<^verbatim>\<open>verify_segment\<close>, which
  the machine runs first: what it accepts, the vault links up to the same head.
\<close>

section \<open>The bodies on the wire\<close>

record index_entry =
  ie_seq :: u64
  ie_prev :: bytes
  ie_hash :: bytes
  ie_ts :: i64

record frames_request =
  fr_first_seq :: u64
  fr_last_seq :: u64
  fr_index :: "index_entry list"
  fr_wraps :: "(bytes \<rightharpoonup> bytes) option"
  fr_nonce :: bytes
  fr_ciphertext :: bytes

record conflict_response =
  cf_expected_seq :: u64
  cf_head_hash :: bytes

section \<open>Building the index\<close>

definition entry :: "bytes \<Rightarrow> index_entry option" where
  "entry line =
     do {
       (_, hash) \<leftarrow> split_sealed line;
       n \<leftarrow> number line SEQ;
       seq \<leftarrow> parse_u64 n;
       prev \<leftarrow> hex64 line PREV;
       t \<leftarrow> number line TS;
       ts \<leftarrow> parse_i64 t;
       Some \<lparr>ie_seq = seq, ie_prev = prev, ie_hash = hash, ie_ts = ts\<rparr>
     }"

text \<open>\<^verbatim>\<open>enumerate().map(..).collect()\<close>, which stops at the first line that has no entry.\<close>

fun entries :: "nat \<Rightarrow> bytes list \<Rightarrow> chain_error + index_entry list" where
  "entries i [] = Inr []"
| "entries i (line # lines) =
     (case entry line of
        None \<Rightarrow> Inl (Unsealed (word_of_nat i))
      | Some e \<Rightarrow>
          (case entries (Suc i) lines of
             Inl x \<Rightarrow> Inl x
           | Inr es \<Rightarrow> Inr (e # es)))"

definition build_index :: "bytes \<Rightarrow> chain_error + index_entry list" where
  "build_index frames =
     (if frames = [] then Inr []
      else if \<not> ends_with_newline frames then Inl (TornTail (complete_frames frames))
      else entries 0 (split_byte newline (butlast frames)))"

section \<open>The linkage rule\<close>

datatype linkage_error =
    Gap u64 u64
  | Link_PrevMismatch u64
  | Empty_Batch

fun linkage_error_str :: "linkage_error \<Rightarrow> bytes" where
  "linkage_error_str (Gap expected found) =
     ''expected seq '' @ show_u64 expected @ '', found '' @ show_u64 found"
| "linkage_error_str (Link_PrevMismatch seq) =
     ''frame '' @ show_u64 seq @ '': prev does not match the previous hash''"
| "linkage_error_str Empty_Batch = ''batch has no frames''"

text \<open>The loop over \<^verbatim>\<open>index.windows(2)\<close>.\<close>

fun link_pairs :: "index_entry list \<Rightarrow> linkage_error + unit" where
  "link_pairs (previous # current # rest) =
     (let expected = ie_seq previous + 1 in
      if ie_seq current \<noteq> expected then Inl (Gap expected (ie_seq current))
      else if ie_prev current \<noteq> ie_hash previous then Inl (Link_PrevMismatch (ie_seq current))
      else link_pairs (current # rest))"
| "link_pairs _ = Inr ()"

definition verify_linkage ::
  "(bytes \<Rightarrow> bytes) \<Rightarrow> head option \<Rightarrow> bytes \<Rightarrow> index_entry list \<Rightarrow> linkage_error + head" where
  "verify_linkage H after sid index =
     (case index of
        [] \<Rightarrow> Inl Empty_Batch
      | first # _ \<Rightarrow>
          (let expected = (case after of Some h \<Rightarrow> hd_seq h + 1 | None \<Rightarrow> 0) in
           if ie_seq first \<noteq> expected then Inl (Gap expected (ie_seq first))
           else (let expected_prev = (case after of Some h \<Rightarrow> hd_hash h | None \<Rightarrow> genesis_prev H sid) in
             if ie_prev first \<noteq> expected_prev then Inl (Link_PrevMismatch (ie_seq first))
             else (case link_pairs index of
                     Inl e \<Rightarrow> Inl e
                   | Inr _ \<Rightarrow>
                       (let l = last index in Inr \<lparr>hd_seq = ie_seq l, hd_hash = ie_hash l\<rparr>)))))"

section \<open>The rule is a walk\<close>

definition check_entry :: "u64 \<Rightarrow> index_entry \<Rightarrow> bytes \<Rightarrow> linkage_error + bytes" where
  "check_entry s x p =
     (if ie_seq x \<noteq> s then Inl (Gap s (ie_seq x))
      else if ie_prev x \<noteq> p then Inl (Link_PrevMismatch (ie_seq x))
      else Inr (ie_hash x))"

interpretation entries: linked_run check_entry "\<lambda>_. True" ie_seq ie_prev ie_hash
  by unfold_locales (auto simp: check_entry_def)

lemma link_pairs_walk:
  "link_pairs (x # xs) =
    (case walk check_entry (ie_seq x + 1) xs (ie_hash x) of Inl e \<Rightarrow> Inl e | Inr _ \<Rightarrow> Inr ())"
  by (induction "x # xs" arbitrary: x xs rule: link_pairs.induct)
    (auto simp: check_entry_def Let_def split: sum.splits)

lemma verify_linkage_walk:
  assumes "index \<noteq> []"
  shows "verify_linkage H after sid index =
    (case walk check_entry (first_seq after) index (first_prev H sid after) of
       Inl e \<Rightarrow> Inl e
     | Inr (s, h) \<Rightarrow> Inr \<lparr>hd_seq = ie_seq (last index), hd_hash = h\<rparr>)"
proof -
  obtain x xs where ix: "index = x # xs" using assms by (cases index) auto
  have "h = (if xs = [] then ie_hash x else ie_hash (last xs))"
    if "walk check_entry (ie_seq x + 1) xs (ie_hash x) = Inr (s, h)" for s h
    using that by (simp add: entries.walk_Inr)
  then show ?thesis
    by (auto simp: verify_linkage_def ix link_pairs_walk check_entry_def Let_def first_seq_def first_prev_def
        split: sum.splits option.splits)
qed

lemma verify_linkage_Inr:
  "verify_linkage H after sid index = Inr h \<longleftrightarrow>
     index \<noteq> []
     \<and> linked (\<lambda>_. True) ie_seq ie_prev ie_hash (first_seq after) (first_prev H sid after) index
     \<and> h = \<lparr>hd_seq = ie_seq (last index), hd_hash = ie_hash (last index)\<rparr>"
proof (cases "index = []")
  case False
  show ?thesis
  proof (cases "walk check_entry (first_seq after) index (first_prev H sid after)")
    case (Inl e)
    then have "\<not> linked (\<lambda>_. True) ie_seq ie_prev ie_hash (first_seq after) (first_prev H sid after) index"
      using entries.walk_Inr [of "first_seq after" index "first_prev H sid after"] by auto
    with Inl False show ?thesis by (simp add: verify_linkage_walk)
  next
    case (Inr r)
    then obtain t where r: "walk check_entry (first_seq after) index (first_prev H sid after) = Inr (t, snd r)"
      by (cases r) simp
    then have "linked (\<lambda>_. True) ie_seq ie_prev ie_hash (first_seq after) (first_prev H sid after) index"
      "snd r = ie_hash (last index)"
      using False by (simp_all add: entries.walk_Inr)
    with r False show ?thesis by (auto simp: verify_linkage_walk)
  qed
qed (simp add: verify_linkage_def)

section \<open>The index of a verified run\<close>

lemma entry_frame:
  "entry l = Some e \<Longrightarrow> ie_seq e = frame_seq l \<and> ie_prev e = frame_prev l \<and> ie_hash e = frame_hash l"
  by (auto simp: entry_def frame_seq_def frame_prev_def frame_hash_def chain_fields_def bind_eq_Some_conv)

lemma entries_Inr:
  "entries i ls = Inr es \<Longrightarrow> length es = length ls \<and> (\<forall>k < length ls. entry (ls ! k) = Some (es ! k))"
proof (induction ls arbitrary: i es)
  case (Cons l ls)
  then obtain e fs where "entry l = Some e" "entries (Suc i) ls = Inr fs" "es = e # fs"
    by (auto split: option.splits sum.splits)
  with Cons.IH [of "Suc i" fs] show ?case by (auto simp: less_Suc_eq_0_disj)
qed simp

lemma entries_total: "(\<And>l. l \<in> set ls \<Longrightarrow> entry l \<noteq> None) \<Longrightarrow> \<exists>es. entries i ls = Inr es"
proof (induction ls arbitrary: i)
  case (Cons l ls)
  then obtain es where "entries (Suc i) ls = Inr es" by force
  with Cons.prems [of l] show ?case by auto
qed simp

lemma build_index_unlines:
  "list_all one_line ls \<Longrightarrow> build_index (unlines ls) = entries 0 ls"
  by (cases "ls = []") (simp_all add: build_index_def split_byte_unlines)

lemma linked_index:
  assumes "length es = length ls" "\<forall>k < length ls. entry (ls ! k) = Some (es ! k)"
    and "linked ok frame_seq frame_prev frame_hash s p ls"
  shows "linked (\<lambda>_. True) ie_seq ie_prev ie_hash s p es"
  unfolding linked_def
proof (intro allI impI)
  fix i assume i: "i < length es"
  have f: "ie_seq (es ! k) = frame_seq (ls ! k) \<and> ie_prev (es ! k) = frame_prev (ls ! k)
      \<and> ie_hash (es ! k) = frame_hash (ls ! k)" if "k < length ls" for k
    using entry_frame assms(2) that by blast
  have "i - 1 < length ls" using i assms(1) by simp
  with f [of i] f [of "i - 1"] linked_nth [OF assms(3), of i] i assms(1)
  show "True \<and> ie_seq (es ! i) = s + word_of_nat i
    \<and> ie_prev (es ! i) = (if i = 0 then p else ie_hash (es ! (i - 1)))"
    by simp
qed

lemma index_of_chain:
  assumes "chain_ok H sid after ls" "ls \<noteq> []" "build_index (unlines ls) = Inr es"
  shows "length es = length ls" "verify_linkage H after sid es = Inr (head_of (last ls))"
proof -
  have es: "length es = length ls" "\<forall>k < length ls. entry (ls ! k) = Some (es ! k)"
    using assms entries_Inr [of 0 ls es] by (simp_all add: chain_ok_def build_index_unlines)
  then show "length es = length ls" by simp
  have ne: "es \<noteq> []" using es(1) assms(2) by auto
  have "entry (last ls) = Some (last es)"
    using es assms(2) ne by (simp add: last_conv_nth)
  with entry_frame have "head_of (last ls) = \<lparr>hd_seq = ie_seq (last es), hd_hash = ie_hash (last es)\<rparr>"
    by (fastforce simp: head_of_def)
  with linked_index [OF es, of "frame_ok H"] ne assms(1) show "verify_linkage H after sid es = Inr (head_of (last ls))"
    by (simp add: verify_linkage_Inr chain_ok_def)
qed

text \<open>An entry's hashes are hex digits of the right number: \<^const>\<open>hex64\<close> and \<^const>\<open>split_sealed\<close> read nothing else.\<close>

definition entry_typed :: "index_entry \<Rightarrow> bool" where
  "entry_typed e \<longleftrightarrow> is_hex64 (ie_prev e) \<and> is_hex64 (ie_hash e)"

lemma hex64_typed: "hex64 line member = Some h \<Longrightarrow> is_hex64 h"
  by (auto simp: hex64_def is_hex64_def Let_def bind_eq_Some_conv list_all_iff split: if_splits)

lemma entry_typed:
  assumes "one_line line" "entry line = Some e"
  shows "entry_typed e"
  using assms split_sealed_line_iff [OF assms(1)]
  by (auto simp: entry_def entry_typed_def bind_eq_Some_conv dest: hex64_typed)

lemma build_index_typed:
  assumes "build_index frames = Inr es"
  shows "list_all entry_typed es \<and> length es = count_byte newline frames"
proof (cases "frames = []")
  case True
  with assms show ?thesis by (simp add: build_index_def)
next
  case False
  with assms have "ends_with_newline frames" by (auto simp: build_index_def split: if_splits)
  then obtain ls where ls: "frames = unlines ls" "list_all one_line ls" by (rule terminated_linesE)
  then have es: "length es = length ls" "\<forall>k < length ls. entry (ls ! k) = Some (es ! k)"
    using assms entries_Inr [of 0 ls es] by (simp_all add: build_index_unlines)
  with ls(2) entry_typed have "list_all entry_typed es" by (fastforce simp: list_all_length)
  with es(1) ls show ?thesis by (simp add: count_byte_unlines)
qed

section \<open>The index of a log this writer wrote\<close>

lemma entry_sealed_event:
  assumes "serde_str js" "serde_body bj" "hash_hex H" "ev_hash e = None" "is_hex64 (ev_prev e)"
  shows "entry (sealed_event H js bj e) =
    Some \<lparr>ie_seq = ev_seq e, ie_prev = ev_prev e, ie_hash = H (event_json js bj e), ie_ts = ev_ts e\<rparr>"
proof -
  let ?l = "sealed_event H js bj e"
  note p = sealed_event_props [OF assms]
  obtain pre where s: "split_sealed ?l = Some (pre, H (event_json js bj e))"
    using p(2,5) by (metis frame_ok_fields)
  obtain r where l: "?l = envelope js e @ r"
    by (metis append.assoc sealed_event_def sealed_line_def)
  have "number ?l TS = Some (show_i64 (ev_ts e))"
    unfolding l by (rule number_TS_envelope [OF assms(1)])
  moreover have "chain_fields ?l = Some (ev_seq e, ev_prev e)"
    unfolding l by (rule chain_fields_envelope [OF assms(1,5)])
  ultimately show ?thesis using s
    by (auto simp: entry_def chain_fields_def bind_eq_Some_conv)
qed

lemma entry_next_frame:
  assumes "serde_str js" "serde_body bj" "hash_hex H" "ev_hash e = None" "chain_ok H sid None ls"
  shows "entry (next_frame H js bj sid ls e) \<noteq> None"
  using entry_sealed_event [OF assms(1-3), of "e\<lparr>ev_seq := word_of_nat (length ls), ev_prev := link_of H sid ls\<rparr>"]
    assms(4) link_of_hex64 [OF assms(3,5)]
  by (simp add: next_frame_def)

lemma frames_of_indexable:
  assumes "serde_str js" "serde_body bj" "hash_hex H" "list_all (\<lambda>e. ev_hash e = None) es"
    "chain_ok H sid None ls" "list_all (\<lambda>l. entry l \<noteq> None) ls"
  shows "list_all (\<lambda>l. entry l \<noteq> None) (frames_of H js bj sid ls es)"
  using assms(4-6)
proof (induction es arbitrary: ls)
  case (Cons e es)
  then show ?case
    using chain_ok_next [OF assms(1-3)] entry_next_frame [OF assms(1-3)] by simp
qed simp

end
