(* ===== verification/VaultCrypto.thy ===== *)
theory VaultCrypto
  imports VaultIndex "HOL-Library.Multiset" "HOL-Library.List_Lexorder" "HOL-Library.Char_ord"
begin

text \<open>
  Keys, signatures and batch encryption: \<^verbatim>\<open>src/src/vault/crypto.rs\<close>. The primitives come from
  other crates (base64, ed25519-dalek, crypto_box, chacha20poly1305, zstd, blake3) and are the
  fields of one parameter, \<open>crypto_api\<close>; random bytes are arguments. What the module adds is
  modelled in full: which bytes a signature, a fingerprint and an AEAD cover, and in which order
  the checks run.
\<close>

section \<open>The primitives\<close>

record crypto_api =
  b64_encode :: "bytes \<Rightarrow> bytes"
  b64_decode :: "bytes \<Rightarrow> bytes option"
  blake3_hex :: "bytes \<Rightarrow> bytes"
  blake3_derive :: "bytes \<Rightarrow> bytes \<Rightarrow> bytes"
  ed_public :: "bytes \<Rightarrow> bytes"
  ed_valid_key :: "bytes \<Rightarrow> bool"
  ed_sign :: "bytes \<Rightarrow> bytes \<Rightarrow> bytes"
  ed_verify :: "bytes \<Rightarrow> bytes \<Rightarrow> bytes \<Rightarrow> bool"
  x_public :: "bytes \<Rightarrow> bytes"
  box_seal :: "bytes \<Rightarrow> bytes \<Rightarrow> bytes \<Rightarrow> bytes"
  box_unseal :: "bytes \<Rightarrow> bytes \<Rightarrow> bytes option"
  zstd_encode :: "bytes \<Rightarrow> bytes"
  zstd_decode :: "bytes \<Rightarrow> bytes option"
  aead_encrypt :: "bytes \<Rightarrow> bytes \<Rightarrow> bytes \<Rightarrow> bytes \<Rightarrow> bytes"
  aead_decrypt :: "bytes \<Rightarrow> bytes \<Rightarrow> bytes \<Rightarrow> bytes \<Rightarrow> bytes option"

text \<open>What their documentation promises of each.\<close>

definition base64_ok :: "crypto_api \<Rightarrow> bool" where
  "base64_ok c \<longleftrightarrow> (\<forall>s. b64_decode c (b64_encode c s) = Some s)"

definition ed25519_ok :: "crypto_api \<Rightarrow> bool" where
  "ed25519_ok c \<longleftrightarrow>
     (\<forall>seed m. length seed = 32 \<longrightarrow>
        length (ed_public c seed) = 32 \<and> ed_valid_key c (ed_public c seed)
        \<and> length (ed_sign c seed m) = 64 \<and> ed_verify c (ed_public c seed) m (ed_sign c seed m))"

definition sealed_box_ok :: "crypto_api \<Rightarrow> bool" where
  "sealed_box_ok c \<longleftrightarrow>
     (\<forall>sk. length sk = 32 \<longrightarrow> length (x_public c sk) = 32
        \<and> (\<forall>rand m. box_unseal c sk (box_seal c rand (x_public c sk) m) = Some m))"

definition derive_ok :: "crypto_api \<Rightarrow> bool" where
  "derive_ok c \<longleftrightarrow> (\<forall>context seed. length (blake3_derive c context seed) = 32)"

definition zstd_ok :: "crypto_api \<Rightarrow> bool" where
  "zstd_ok c \<longleftrightarrow> (\<forall>s. zstd_decode c (zstd_encode c s) = Some s)"

text \<open>The cipher and its tag are functions of key, nonce, data and plaintext: it opens what it sealed.\<close>

definition aead_ok :: "crypto_api \<Rightarrow> bool" where
  "aead_ok c \<longleftrightarrow>
     (\<forall>k n a s m. aead_decrypt c k n a s = Some m \<longleftrightarrow> s = aead_encrypt c k n a m)"

section \<open>Errors and decoding\<close>

datatype crypto_error = Encoding | Unseal | Decrypt | Decompress

fun crypto_error_str :: "crypto_error \<Rightarrow> bytes" where
  "crypto_error_str Encoding = ''not valid base64 of the expected length''"
| "crypto_error_str Unseal = ''sealed box did not open''"
| "crypto_error_str Decrypt = ''batch did not decrypt''"
| "crypto_error_str Decompress = ''batch plaintext did not decompress''"

text \<open>\<^verbatim>\<open>decode_array::<N>\<close>: an array type \<^verbatim>\<open>[u8; N]\<close> is a byte string of that length.\<close>

definition decode_array :: "crypto_api \<Rightarrow> nat \<Rightarrow> bytes \<Rightarrow> crypto_error + bytes" where
  "decode_array c n s =
     (case b64_decode c s of
        None \<Rightarrow> Inl Encoding
      | Some raw \<Rightarrow> if length raw = n then Inr raw else Inl Encoding)"

section \<open>Request signatures\<close>

definition request_bytes :: "bytes \<Rightarrow> bytes \<Rightarrow> bytes \<Rightarrow> i64 \<Rightarrow> bytes \<Rightarrow> bytes" where
  "request_bytes method path machine_id timestamp_secs body_hash_hex =
     method @ newline # path @ newline # machine_id @ newline # show_i64 timestamp_secs
     @ newline # body_hash_hex"

definition sign_request_with ::
  "crypto_api \<Rightarrow> bytes \<Rightarrow> bytes \<Rightarrow> bytes \<Rightarrow> bytes \<Rightarrow> i64 \<Rightarrow> bytes \<Rightarrow> bytes" where
  "sign_request_with c key method path signer timestamp_secs body_hash_hex =
     b64_encode c (ed_sign c key (request_bytes method path signer timestamp_secs body_hash_hex))"

definition verify_ed25519 :: "crypto_api \<Rightarrow> bytes \<Rightarrow> bytes \<Rightarrow> bytes \<Rightarrow> bool" where
  "verify_ed25519 c public_key message signature_b64 =
     (if \<not> ed_valid_key c public_key then False
      else (case decode_array c 64 signature_b64 of
              Inl _ \<Rightarrow> False
            | Inr raw \<Rightarrow> ed_verify c public_key message raw))"

definition verify_request ::
  "crypto_api \<Rightarrow> bytes \<Rightarrow> bytes \<Rightarrow> bytes \<Rightarrow> bytes \<Rightarrow> i64 \<Rightarrow> bytes \<Rightarrow> bytes \<Rightarrow> bool" where
  "verify_request c public_key method path machine_id timestamp_secs body_hash_hex signature_b64 =
     verify_ed25519 c public_key
       (request_bytes method path machine_id timestamp_secs body_hash_hex) signature_b64"

section \<open>Keys\<close>

text \<open>A machine key is its 32-byte seed.\<close>

definition machine_public_key :: "crypto_api \<Rightarrow> bytes \<Rightarrow> bytes" where
  "machine_public_key c seed = ed_public c seed"

definition machine_sign_request :: "crypto_api \<Rightarrow> bytes \<Rightarrow> bytes \<Rightarrow> bytes \<Rightarrow> bytes \<Rightarrow> i64 \<Rightarrow> bytes \<Rightarrow> bytes" where
  "machine_sign_request = sign_request_with"

record admin_key =
  ak_ed25519 :: bytes
  ak_x25519 :: bytes

record admin_public =
  ap_x25519 :: bytes
  ap_ed25519 :: bytes

definition ADMIN_X25519_CONTEXT :: bytes where
  "ADMIN_X25519_CONTEXT = ''nd7-vault admin x25519''"

definition admin_from_seed :: "crypto_api \<Rightarrow> bytes \<Rightarrow> admin_key" where
  "admin_from_seed c seed =
     \<lparr>ak_ed25519 = seed, ak_x25519 = blake3_derive c ADMIN_X25519_CONTEXT seed\<rparr>"

definition admin_public_of :: "crypto_api \<Rightarrow> admin_key \<Rightarrow> admin_public" where
  "admin_public_of c k = \<lparr>ap_x25519 = x_public c (ak_x25519 k), ap_ed25519 = ed_public c (ak_ed25519 k)\<rparr>"

definition admin_sign_request ::
  "crypto_api \<Rightarrow> admin_key \<Rightarrow> bytes \<Rightarrow> bytes \<Rightarrow> bytes \<Rightarrow> i64 \<Rightarrow> bytes \<Rightarrow> bytes" where
  "admin_sign_request c k = sign_request_with c (ak_ed25519 k)"

definition unwrap :: "crypto_api \<Rightarrow> admin_key \<Rightarrow> bytes \<Rightarrow> crypto_error + bytes" where
  "unwrap c k wrapped =
     (case b64_decode c wrapped of
        None \<Rightarrow> Inl Encoding
      | Some sealed \<Rightarrow>
          (case box_unseal c (ak_x25519 k) sealed of
             None \<Rightarrow> Inl Unseal
           | Some opened \<Rightarrow> if length opened = 32 then Inr opened else Inl Unseal))"

definition canonical_bytes :: "admin_public \<Rightarrow> bytes" where
  "canonical_bytes a = ap_x25519 a @ ap_ed25519 a"

definition to_base64 :: "crypto_api \<Rightarrow> admin_public \<Rightarrow> bytes" where
  "to_base64 c a = b64_encode c (canonical_bytes a)"

definition from_base64 :: "crypto_api \<Rightarrow> bytes \<Rightarrow> crypto_error + admin_public" where
  "from_base64 c s =
     (case decode_array c 64 s of
        Inl e \<Rightarrow> Inl e
      | Inr raw \<Rightarrow> Inr \<lparr>ap_x25519 = take 32 raw, ap_ed25519 = drop 32 raw\<rparr>)"

definition admin_fingerprint :: "crypto_api \<Rightarrow> admin_public \<Rightarrow> bytes" where
  "admin_fingerprint c a = blake3_hex c (canonical_bytes a)"

section \<open>Recipient sets\<close>

record recipient_set =
  rs_admins :: "admin_public list"
  rs_version :: u64

record signed_recipient_set =
  srs_set :: recipient_set
  srs_signed_by :: bytes
  srs_signature :: bytes

text \<open>\<^verbatim>\<open>sort_unstable\<close> on byte arrays: lexicographic, bytes as unsigned numbers.\<close>

definition set_fingerprint :: "crypto_api \<Rightarrow> recipient_set \<Rightarrow> bytes" where
  "set_fingerprint c rs = blake3_hex c (concat (sort (map canonical_bytes (rs_admins rs))))"

definition recipients_bytes :: "crypto_api \<Rightarrow> recipient_set \<Rightarrow> bytes" where
  "recipients_bytes c rs =
     ''nd7-vault recipients'' @ newline # show_u64 (rs_version rs) @ newline # set_fingerprint c rs"

definition sign_set :: "crypto_api \<Rightarrow> recipient_set \<Rightarrow> admin_key \<Rightarrow> signed_recipient_set" where
  "sign_set c rs admin =
     \<lparr>srs_set = rs, srs_signed_by = admin_fingerprint c (admin_public_of c admin),
      srs_signature = b64_encode c (ed_sign c (ak_ed25519 admin) (recipients_bytes c rs))\<rparr>"

definition verify_against :: "crypto_api \<Rightarrow> signed_recipient_set \<Rightarrow> recipient_set \<Rightarrow> bool" where
  "verify_against c s pinned =
     (case find (\<lambda>admin. admin_fingerprint c admin = srs_signed_by s) (rs_admins pinned) of
        None \<Rightarrow> False
      | Some signer \<Rightarrow>
          verify_ed25519 c (ap_ed25519 signer) (recipients_bytes c (srs_set s)) (srs_signature s))"

section \<open>Batches\<close>

text \<open>A chain key is its 32 bytes; \<open>rand\<close> is what the random source gives.\<close>

definition wrap_for :: "crypto_api \<Rightarrow> bytes \<Rightarrow> bytes \<Rightarrow> admin_public \<Rightarrow> bytes" where
  "wrap_for c rand chain_key admin = b64_encode c (box_seal c rand (ap_x25519 admin) chain_key)"

record batch_aad =
  aad_session_id :: bytes
  aad_host :: bytes
  aad_first_seq :: u64
  aad_last_seq :: u64

definition aad_bytes :: "batch_aad \<Rightarrow> bytes" where
  "aad_bytes a =
     aad_session_id a @ newline # aad_host a @ newline # show_u64 (aad_first_seq a)
     @ newline # show_u64 (aad_last_seq a)"

record sealed_batch =
  sb_nonce :: bytes
  sb_ciphertext :: bytes

definition seal_batch :: "crypto_api \<Rightarrow> bytes \<Rightarrow> bytes \<Rightarrow> batch_aad \<Rightarrow> bytes \<Rightarrow> sealed_batch" where
  "seal_batch c nonce key aad plaintext_frames =
     \<lparr>sb_nonce = nonce,
      sb_ciphertext = aead_encrypt c key nonce (aad_bytes aad) (zstd_encode c plaintext_frames)\<rparr>"

definition open_batch :: "crypto_api \<Rightarrow> bytes \<Rightarrow> batch_aad \<Rightarrow> sealed_batch \<Rightarrow> crypto_error + bytes" where
  "open_batch c key aad sealed =
     (case aead_decrypt c key (sb_nonce sealed) (aad_bytes aad) (sb_ciphertext sealed) of
        None \<Rightarrow> Inl Decrypt
      | Some compressed \<Rightarrow>
          (case zstd_decode c compressed of
             None \<Rightarrow> Inl Decompress
           | Some frames \<Rightarrow> Inr frames))"

section \<open>Unambiguous layouts\<close>

text \<open>The first field of a text with a separator is what stands before the first separator.\<close>

lemma field_inject:
  fixes a :: bytes
  assumes "c \<notin> set a" "c \<notin> set a'" "a @ c # b = a' @ c # b'"
  shows "a = a' \<and> b = b'"
proof -
  have "split_once c (a @ c # b) = split_once c (a' @ c # b')" using assms(3) by simp
  with assms(1,2) show ?thesis by simp
qed

lemma show_u64_no_newline [simp]: "newline \<notin> set (show_u64 n)"
  by (simp add: show_u64_def)

lemma show_i64_inject: "show_i64 m = show_i64 n \<longleftrightarrow> m = n"
  by (metis option.inject parse_show_i64)

lemma show_i64_no_newline [simp]: "newline \<notin> set (show_i64 n)"
  by (simp add: show_i64_def)

lemma field_eq:
  fixes a :: bytes
  shows "c \<notin> set a \<Longrightarrow> c \<notin> set a' \<Longrightarrow> a @ c # b = a' @ c # b' \<longleftrightarrow> a = a' \<and> b = b'"
  using field_inject by metis

lemma request_bytes_inject:
  assumes "list_all one_line [m, p, i]" "list_all one_line [m', p', i']"
  shows "request_bytes m p i t b = request_bytes m' p' i' t' b' \<longleftrightarrow>
    m = m' \<and> p = p' \<and> i = i' \<and> t = t' \<and> b = b'"
  using assms by (simp add: request_bytes_def one_line_def field_eq show_i64_inject)

lemma field_eq_right:
  fixes a :: bytes
  assumes "c \<notin> set b" "c \<notin> set b'"
  shows "a @ c # b = a' @ c # b' \<longleftrightarrow> a = a' \<and> b = b'"
proof -
  have "rev b @ c # rev a = rev b' @ c # rev a' \<longleftrightarrow> rev b = rev b' \<and> rev a = rev a'"
    using assms by (intro field_eq) simp_all
  moreover have "a @ c # b = a' @ c # b' \<longleftrightarrow> rev b @ c # rev a = rev b' @ c # rev a'"
    by (metis append.assoc append_Cons append_Nil rev_append rev_rev_ident rev_singleton_conv rev.simps(2))
  ultimately show ?thesis by auto
qed

text \<open>The host and the two positions have no newline, so whatever the session id holds is told apart.\<close>

lemma aad_bytes_inject:
  assumes "one_line (aad_host a)" "one_line (aad_host a')"
  shows "aad_bytes a = aad_bytes a' \<longleftrightarrow> a = a'"
proof -
  have split: "aad_bytes x = ((aad_session_id x @ newline # aad_host x) @ newline # show_u64 (aad_first_seq x))
      @ newline # show_u64 (aad_last_seq x)" for x
    by (simp add: aad_bytes_def)
  show ?thesis unfolding split using assms
    by (cases a; cases a') (simp only: field_eq_right show_u64_no_newline not_False_eq_True show_u64_inject one_line_def
        batch_aad.select_convs batch_aad.ext_inject, auto)
qed

lemma recipients_bytes_inject:
  "recipients_bytes c rs = recipients_bytes c rs' \<longleftrightarrow>
    rs_version rs = rs_version rs' \<and> set_fingerprint c rs = set_fingerprint c rs'"
  by (simp add: recipients_bytes_def field_eq show_u64_inject)

section \<open>Signatures verify\<close>

lemma decode_array_encode:
  "base64_ok c \<Longrightarrow> length s = n \<Longrightarrow> decode_array c n (b64_encode c s) = Inr s"
  by (simp add: decode_array_def base64_ok_def)

lemma verify_signed:
  assumes "base64_ok c" "ed25519_ok c" "length seed = 32"
  shows "verify_ed25519 c (ed_public c seed) m (b64_encode c (ed_sign c seed m))"
  using assms decode_array_encode [OF assms(1), of "ed_sign c seed m" 64]
  by (simp add: verify_ed25519_def ed25519_ok_def)

lemma verify_request_signed:
  assumes "base64_ok c" "ed25519_ok c" "length seed = 32"
  shows "verify_request c (ed_public c seed) method path signer t h (sign_request_with c seed method path signer t h)"
  unfolding verify_request_def sign_request_with_def using assms by (rule verify_signed)

section \<open>Keys and batches come back\<close>

lemma length_canonical: "length (ap_x25519 a) = 32 \<Longrightarrow> length (ap_ed25519 a) = 32 \<Longrightarrow> length (canonical_bytes a) = 64"
  by (simp add: canonical_bytes_def)

lemma from_to_base64:
  assumes "base64_ok c" "length (ap_x25519 a) = 32" "length (ap_ed25519 a) = 32"
  shows "from_base64 c (to_base64 c a) = Inr a"
  using assms by (simp add: from_base64_def to_base64_def decode_array_encode length_canonical canonical_bytes_def)

lemma from_base64_lengths:
  "from_base64 c s = Inr a \<Longrightarrow> length (ap_x25519 a) = 32 \<and> length (ap_ed25519 a) = 32"
  by (auto simp: from_base64_def decode_array_def split: option.splits if_splits sum.splits)

lemma unwrap_wrap_for:
  assumes "base64_ok c" "sealed_box_ok c" "derive_ok c" "length key = 32"
  shows "unwrap c (admin_from_seed c seed) (wrap_for c rand key (admin_public_of c (admin_from_seed c seed))) = Inr key"
  using assms by (simp add: unwrap_def wrap_for_def admin_from_seed_def admin_public_of_def
      base64_ok_def sealed_box_ok_def derive_ok_def)

lemma aead_decrypt_iff:
  "aead_ok c \<Longrightarrow> aead_decrypt c k n a s = Some m \<longleftrightarrow> s = aead_encrypt c k n a m"
  unfolding aead_ok_def by blast

lemma open_batch_Inr:
  assumes "aead_ok c"
  shows "open_batch c key aad sealed = Inr frames \<longleftrightarrow>
    (\<exists>z. zstd_decode c z = Some frames \<and> sb_ciphertext sealed = aead_encrypt c key (sb_nonce sealed) (aad_bytes aad) z)"
  unfolding aead_decrypt_iff [OF assms, symmetric]
  by (auto simp: open_batch_def split: option.splits)

lemma open_seal_batch:
  assumes "zstd_ok c" "aead_ok c"
  shows "open_batch c key aad (seal_batch c nonce key aad frames) = Inr frames"
  using assms(1) by (auto simp: open_batch_Inr [OF assms(2)] seal_batch_def zstd_ok_def)

section \<open>Recipient sets\<close>

lemma set_fingerprint_order:
  assumes "mset (rs_admins rs) = mset (rs_admins rs')"
  shows "set_fingerprint c rs = set_fingerprint c rs'"
proof -
  have "mset (map canonical_bytes (rs_admins rs)) = mset (map canonical_bytes (rs_admins rs'))"
    using assms by (metis mset_map)
  then have "sort (map canonical_bytes (rs_admins rs)) = sort (map canonical_bytes (rs_admins rs'))"
    by (intro properties_for_sort) simp_all
  then show ?thesis by (simp add: set_fingerprint_def)
qed

lemma concat_blocks_inject:
  assumes "list_all (\<lambda>x. length x = n) xs" "list_all (\<lambda>y. length y = n) ys" "0 < n" "concat xs = concat ys"
  shows "xs = ys"
  using assms
proof (induction xs arbitrary: ys)
  case Nil
  then show ?case by (cases ys) auto
next
  case (Cons x xs)
  show ?case
  proof (cases ys)
    case Nil
    with Cons.prems show ?thesis by auto
  next
    case (Cons y zs)
    with Cons.prems have "x @ concat xs = y @ concat zs" "length x = length y" by simp_all
    then have "x = y" "concat xs = concat zs" by simp_all
    with Cons Cons.IH [of zs] Cons.prems show ?thesis by simp
  qed
qed

definition admin_ok :: "admin_public \<Rightarrow> bool" where
  "admin_ok a \<longleftrightarrow> length (ap_x25519 a) = 32 \<and> length (ap_ed25519 a) = 32"

lemma canonical_bytes_inject:
  "admin_ok a \<Longrightarrow> admin_ok b \<Longrightarrow> canonical_bytes a = canonical_bytes b \<longleftrightarrow> a = b"
  by (cases a; cases b) (auto simp: canonical_bytes_def admin_ok_def)

text \<open>The text a fingerprint hashes, and that it names the set: no two sets share it.\<close>

definition set_bytes :: "recipient_set \<Rightarrow> bytes" where
  "set_bytes rs = concat (sort (map canonical_bytes (rs_admins rs)))"

lemma set_bytes_inject:
  assumes "list_all admin_ok (rs_admins rs)" "list_all admin_ok (rs_admins rs')" "set_bytes rs = set_bytes rs'"
  shows "mset (rs_admins rs) = mset (rs_admins rs')"
proof -
  let ?g = "\<lambda>b. \<lparr>ap_x25519 = take 32 b, ap_ed25519 = drop 32 b\<rparr>"
  have "sort (map canonical_bytes (rs_admins rs)) = sort (map canonical_bytes (rs_admins rs'))"
    using assms by (intro concat_blocks_inject [where n = 64])
      (simp_all add: set_bytes_def list_all_iff admin_ok_def length_canonical)
  then have "mset (map canonical_bytes (rs_admins rs)) = mset (map canonical_bytes (rs_admins rs'))"
    by (metis mset_sort)
  then have eq: "mset (map ?g (map canonical_bytes (rs_admins rs))) = mset (map ?g (map canonical_bytes (rs_admins rs')))"
    by (simp only: mset_map)
  have "map ?g (map canonical_bytes as) = as" if "list_all admin_ok as" for as
    using that by (induction as) (auto simp: canonical_bytes_def admin_ok_def)
  from eq this [OF assms(1)] this [OF assms(2)] show ?thesis by (simp only:)
qed

lemma verify_against_iff:
  "verify_against c s pinned \<longleftrightarrow>
    (\<exists>signer. find (\<lambda>a. admin_fingerprint c a = srs_signed_by s) (rs_admins pinned) = Some signer
      \<and> verify_ed25519 c (ap_ed25519 signer) (recipients_bytes c (srs_set s)) (srs_signature s))"
  by (auto simp: verify_against_def split: option.splits)

lemma find_unique:
  assumes "x \<in> set xs" "P x" "\<And>a. a \<in> set xs \<Longrightarrow> P a \<Longrightarrow> a = x"
  shows "find P xs = Some x"
proof -
  have "find P xs \<noteq> None" using assms(1,2) by (auto simp: find_None_iff)
  then obtain y where y: "find P xs = Some y" by blast
  then have "y \<in> set xs" "P y" by (auto simp: find_Some_iff)
  with assms(3) y show ?thesis by simp
qed

lemma verify_against_signed:
  assumes "base64_ok c" "ed25519_ok c" "length (ak_ed25519 admin) = 32"
    and "admin_public_of c admin \<in> set (rs_admins pinned)"
    and "\<forall>a \<in> set (rs_admins pinned). admin_fingerprint c a = admin_fingerprint c (admin_public_of c admin)
      \<longrightarrow> a = admin_public_of c admin"
  shows "verify_against c (sign_set c rs admin) pinned"
proof -
  have "find (\<lambda>a. admin_fingerprint c a = admin_fingerprint c (admin_public_of c admin)) (rs_admins pinned)
      = Some (admin_public_of c admin)"
    using assms(4,5) by (intro find_unique) blast+
  with verify_signed [OF assms(1-3)] show ?thesis
    by (simp add: verify_against_def sign_set_def) (simp add: admin_public_of_def)
qed

end
