(* ===== verification/Ship.thy ===== *)
theory Ship
  imports VaultCrypto "HOL-Library.Signed_Division"
begin

text \<open>
  Shipping a session to the vault: the machine's half of \<^verbatim>\<open>src/src/ship.rs\<close> for one session.
  The vault is not in this repository and may be hostile: its answer to every request is an
  arbitrary function. Other processes append to the session whenever its lock is not held: what
  they did before each time the lock is taken again is an arbitrary function on the directory.
  Random bytes, the clock and the JSON codecs are parameters too.
\<close>

section \<open>Parameters and state\<close>

datatype reply = Send_Err bytes | Reply nat bytes

record ship_world =
  net_reply :: "nat \<Rightarrow> reply"
  meanwhile :: "nat \<Rightarrow> session_dir \<Rightarrow> session_dir"
  rnd_chain_key :: bytes
  rnd_nonce :: "nat \<Rightarrow> bytes"
  rnd_box :: "nat \<Rightarrow> bytes"
  request_json :: "frames_request \<Rightarrow> bytes"
  parse_conflict :: "bytes \<Rightarrow> conflict_response option"
  parse_reject :: "bytes \<Rightarrow> (u64 \<times> bytes) option"
  now_ns :: i64

record machine =
  m_server :: bytes
  m_id :: bytes
  m_key :: bytes
  m_recipients :: signed_recipient_set

datatype ship_error = SE_Chain chain_error | SE_Msg bytes

datatype outcome = Done | Unreachable | Stopped

text \<open>The lines on standard error.\<close>

datatype diagnostic =
    Say_Send_Failed bytes
  | Say_Diverged u64 bytes bytes
  | Say_Rejected u64 bytes
  | Say_Answered nat bytes

record http_request =
  rq_method :: bytes
  rq_uri :: bytes
  rq_headers :: "(bytes \<times> bytes) list"
  rq_body :: bytes

text \<open>
  A run in progress: the session directory, how many requests and lock acquisitions there have
  been, and what was sent and said.
\<close>

record ship_state =
  st_dir :: session_dir
  st_clock :: nat
  st_sent :: "(frames_request \<times> http_request) list"
  st_said :: "diagnostic list"

section \<open>Transport\<close>

definition loopback :: "bytes \<Rightarrow> bool" where
  "loopback rest =
     (let authority = takeWhile (\<lambda>c. c \<noteq> CHR ''/'' \<and> c \<noteq> CHR ''?'') rest;
          host = (case rsplit_once CHR '':'' authority of Some (h, _) \<Rightarrow> h | None \<Rightarrow> authority)
      in host = ''localhost'' \<or> host = ''127.0.0.1'')"

definition check_server :: "bytes \<Rightarrow> ship_error + unit" where
  "check_server url =
     (if prefix ''https://'' url then Inr ()
      else (case strip_prefix ''http://'' url of
              Some rest \<Rightarrow> if loopback rest then Inr ()
                else Inl (SE_Msg (''refusing '' @ url @ '': the vault must be https, or http on localhost''))
            | None \<Rightarrow>
                Inl (SE_Msg (''refusing '' @ url @ '': the vault must be https, or http on localhost''))))"

definition HEADER_MACHINE :: bytes where "HEADER_MACHINE = ''X-Nd7-Machine''"
definition HEADER_TIMESTAMP :: bytes where "HEADER_TIMESTAMP = ''X-Nd7-Timestamp''"
definition HEADER_BODY :: bytes where "HEADER_BODY = ''X-Nd7-Body''"
definition HEADER_SIGNATURE :: bytes where "HEADER_SIGNATURE = ''X-Nd7-Signature''"

text \<open>The request \<^verbatim>\<open>send\<close> builds, up to handing it to the HTTP client.\<close>

definition build_request ::
  "crypto_api \<Rightarrow> i64 \<Rightarrow> (bytes \<times> bytes) option \<Rightarrow> bytes \<Rightarrow> bytes \<Rightarrow> bytes \<Rightarrow> bytes \<Rightarrow> ship_error + http_request" where
  "build_request c now signer method server path body =
     (case check_server server of
        Inl e \<Rightarrow> Inl e
      | Inr _ \<Rightarrow>
          (let headers =
             (''Content-Type'', ''application/json'') #
             (case signer of
                None \<Rightarrow> []
              | Some (key, machine_id) \<Rightarrow>
                  (let body_hash = blake3_hex c body;
                       timestamp = word_of_int (sint now sdiv 1000000000)
                   in [(HEADER_MACHINE, machine_id), (HEADER_TIMESTAMP, show_i64 timestamp),
                       (HEADER_SIGNATURE, machine_sign_request c key method path machine_id timestamp body_hash),
                       (HEADER_BODY, body_hash)]))
           in Inr \<lparr>rq_method = method, rq_uri = server @ path, rq_headers = headers, rq_body = body\<rparr>))"

section \<open>Members of a frame\<close>

definition frame_member :: "bytes \<Rightarrow> bytes \<Rightarrow> bytes option" where
  "frame_member frame name =
     (let needle = '',\"'' @ name @ ''\":\"'' in
      do {
        i \<leftarrow> find_sub frame needle;
        let rest = drop (i + length needle) frame;
        e \<leftarrow> position_byte quote rest;
        from_utf8 (take e rest)
      })"

definition frame_ts :: "bytes \<Rightarrow> i64 option" where
  "frame_ts frame = Option.bind (number frame TS) parse_i64"

section \<open>Batches\<close>

definition MAX_BATCH :: nat where "MAX_BATCH = 8 * 1024 * 1024"

text \<open>\<^verbatim>\<open>&xs[lo..hi]\<close>; a range that does not fit is a panic.\<close>

definition range_of :: "'a list \<Rightarrow> nat \<Rightarrow> nat \<Rightarrow> 'a list option" where
  "range_of xs lo hi = (if lo \<le> hi \<and> hi \<le> length xs then Some (take (hi - lo) (drop lo xs)) else None)"

fun batches_loop ::
  "bytes \<Rightarrow> index_entry list \<Rightarrow> bytes list \<Rightarrow> nat \<Rightarrow> nat \<Rightarrow> nat \<Rightarrow> nat \<Rightarrow>
   (bytes \<times> index_entry list) list \<Rightarrow> (bytes \<times> index_entry list) list option" where
  "batches_loop frames index [] i start first at out =
     (if at > start then
        do {
          b \<leftarrow> range_of frames start at;
          es \<leftarrow> range_of index first (length index);
          Some (out @ [(b, es)])
        }
      else Some out)"
| "batches_loop frames index (line # lines) i start first at out =
     (if at > start \<and> at - start + length line > MAX_BATCH then
        do {
          b \<leftarrow> range_of frames start at;
          es \<leftarrow> range_of index first i;
          batches_loop frames index lines (Suc i) at i (at + length line) (out @ [(b, es)])
        }
      else batches_loop frames index lines (Suc i) start first (at + length line) out)"

definition batches :: "bytes \<Rightarrow> index_entry list \<Rightarrow> (bytes \<times> index_entry list) list option" where
  "batches frames index = batches_loop frames index (split_inclusive newline frames) 0 0 0 0 []"

section \<open>What is pending\<close>

record pending =
  pd_shipped :: "head option"
  pd_frames :: bytes
  pd_key :: bytes

definition read_chain_key :: "bytes option \<Rightarrow> ship_error + bytes option" where
  "read_chain_key file =
     (case file of
        None \<Rightarrow> Inr None
      | Some raw \<Rightarrow> if length raw = 32 then Inr (Some raw) else Inl (SE_Msg ''chain.key is not 32 bytes''))"

definition pending_frames :: "session_dir \<Rightarrow> head option \<Rightarrow> (ship_error + bytes) option" where
  "pending_frames d shipped =
     (case shipped of
        None \<Rightarrow>
          Some (case sd_events d of
                  Some f \<Rightarrow> Inr f
                | None \<Rightarrow> Inl (SE_Msg ''No such file or directory (os error 2)''))
      | Some h \<Rightarrow>
          (case read_after_seq (sd_events d) (hd_seq h) of
             None \<Rightarrow> None
           | Some None \<Rightarrow>
               Some (Inl (SE_Msg (''the log no longer holds frame '' @ show_u64 (hd_seq h)
                 @ '', the last one the vault acknowledged'')))
           | Some (Some f) \<Rightarrow> Some (Inr f)))"

definition read_pending ::
  "bytes \<Rightarrow> session_dir \<Rightarrow> ((ship_error + pending option) \<times> session_dir) option" where
  "read_pending fresh_key d =
     (case read_head (sd_head d) of
        Inl e \<Rightarrow> Some (Inl (SE_Chain e), d)
      | Inr None \<Rightarrow> Some (Inr None, d)
      | Inr (Some head) \<Rightarrow>
     (case read_head (sd_shipped d) of
        Inl e \<Rightarrow> Some (Inl (SE_Chain e), d)
      | Inr shipped \<Rightarrow>
          if shipped = Some head then Some (Inr None, d)
          else
     (case pending_frames d shipped of
        None \<Rightarrow> None
      | Some (Inl e) \<Rightarrow> Some (Inl e, d)
      | Some (Inr frames) \<Rightarrow>
          if frames = [] then
            Some (Inl (SE_Msg (''`shipped` and `head` name frame '' @ show_u64 (hd_seq head)
              @ '' with different hashes'')), d)
          else
     (case read_chain_key (sd_chain_key d) of
        Inl e \<Rightarrow> Some (Inl e, d)
      | Inr (Some key) \<Rightarrow> Some (Inr (Some \<lparr>pd_shipped = shipped, pd_frames = frames, pd_key = key\<rparr>), d)
      | Inr None \<Rightarrow>
          if shipped = None then
            Some (Inr (Some \<lparr>pd_shipped = shipped, pd_frames = frames, pd_key = fresh_key\<rparr>),
              d\<lparr>sd_chain_key := Some fresh_key\<rparr>)
          else
            Some (Inl (SE_Msg (''this chain is closed: its key was deleted after the session_end ''
              @ ''the vault acknowledged, so these frames cannot ship to it'')), d)))))"

section \<open>Pushing\<close>

text \<open>A \<^verbatim>\<open>BTreeMap\<close> collected from pairs: of two with the same key the later one stays.\<close>

definition wraps ::
  "crypto_api \<Rightarrow> (nat \<Rightarrow> bytes) \<Rightarrow> bytes \<Rightarrow> signed_recipient_set \<Rightarrow> (bytes \<rightharpoonup> bytes)" where
  "wraps c rnd key recipients =
     (let admins = rs_admins (srs_set recipients) in
      map_of (rev (map (\<lambda>i. (admin_fingerprint c (admins ! i), wrap_for c (rnd i) key (admins ! i)))
        [0..<length admins])))"

definition local_hash :: "index_entry list \<Rightarrow> head option \<Rightarrow> u64 \<Rightarrow> bytes" where
  "local_hash index shipped seq =
     (case find (\<lambda>e. ie_seq e = seq) index of
        Some e \<Rightarrow> ie_hash e
      | None \<Rightarrow>
          (case shipped of
             Some h \<Rightarrow> if hd_seq h = seq then hd_hash h else ''no such frame''
           | None \<Rightarrow> ''no such frame''))"

definition shipped_line :: "index_entry \<Rightarrow> bytes" where
  "shipped_line e = show_head \<lparr>hd_seq = ie_seq e, hd_hash = ie_hash e\<rparr> @ [newline]"

text \<open>Taking the lock again, after whatever happened while it was not held.\<close>

definition relock :: "ship_world \<Rightarrow> ship_state \<Rightarrow> ship_state" where
  "relock W s = s\<lparr>st_dir := meanwhile W (st_clock s) (st_dir s), st_clock := Suc (st_clock s)\<rparr>"

definition write_shipped :: "bytes \<Rightarrow> ship_state \<Rightarrow> ship_state" where
  "write_shipped line s = s\<lparr>st_dir := (st_dir s)\<lparr>sd_shipped := Some line\<rparr>\<rparr>"

definition say :: "diagnostic \<Rightarrow> ship_state \<Rightarrow> ship_state" where
  "say x s = s\<lparr>st_said := st_said s @ [x]\<rparr>"

text \<open>The frame of ours that a conflict names: after the one last shipped, and with our hash.\<close>

definition conflict_ours :: "index_entry list \<Rightarrow> head option \<Rightarrow> conflict_response \<Rightarrow> index_entry option" where
  "conflict_ours index shipped conflict =
     (if cf_expected_seq conflict = 0 then None
      else (let seq = cf_expected_seq conflict - 1 in
        if \<not> (case shipped of None \<Rightarrow> True | Some h \<Rightarrow> hd_seq h < seq) then None
        else (case find (\<lambda>e. ie_seq e = seq) index of
                None \<Rightarrow> None
              | Some e \<Rightarrow> if ie_hash e = cf_head_hash conflict then Some e else None)))"

definition batch_aad_of :: "bytes \<Rightarrow> bytes \<Rightarrow> index_entry list \<Rightarrow> batch_aad" where
  "batch_aad_of sid host es =
     \<lparr>aad_session_id = sid, aad_host = host, aad_first_seq = ie_seq (es ! 0), aad_last_seq = ie_seq (last es)\<rparr>"

definition frames_body ::
  "crypto_api \<Rightarrow> (nat \<Rightarrow> bytes) \<Rightarrow> machine \<Rightarrow> bytes \<Rightarrow> batch_aad \<Rightarrow> index_entry list \<Rightarrow> sealed_batch \<Rightarrow> frames_request" where
  "frames_body c rnd M key aad es sealed =
     \<lparr>fr_first_seq = aad_first_seq aad, fr_last_seq = aad_last_seq aad, fr_index = es,
      fr_wraps = (if aad_first_seq aad = 0 then Some (wraps c rnd key (m_recipients M)) else None),
      fr_nonce = b64_encode c (sb_nonce sealed), fr_ciphertext = b64_encode c (sb_ciphertext sealed)\<rparr>"

text \<open>\<^verbatim>\<open>machine.send\<close>: the state after the request, and the answer.\<close>

definition send_frames ::
  "ship_world \<Rightarrow> crypto_api \<Rightarrow> machine \<Rightarrow> bytes \<Rightarrow> frames_request \<Rightarrow> ship_state \<Rightarrow> reply \<times> ship_state" where
  "send_frames W c M path req s =
     (case build_request c (now_ns W) (Some (m_key M, m_id M)) ''POST'' (m_server M) path (request_json W req) of
        Inl (SE_Msg e) \<Rightarrow> (Send_Err e, s)
      | Inl (SE_Chain e) \<Rightarrow> (Send_Err (chain_error_str e), s)
      | Inr http \<Rightarrow>
          (net_reply W (st_clock s),
           s\<lparr>st_sent := st_sent s @ [(req, http)], st_clock := Suc (st_clock s)\<rparr>))"

text \<open>
  One round of the loop over the batches, for a batch that has entries: \<^const>\<open>Inl\<close> returns from
  \<^verbatim>\<open>push\<close>, \<^const>\<open>Inr\<close> goes on with the next batch. The \<^const>\<open>None\<close> in a result is the \<^verbatim>\<open>Ok(None)\<close>
  that asks the caller to run the session again.
\<close>

definition on_conflict ::
  "ship_world \<Rightarrow> pending \<Rightarrow> index_entry list \<Rightarrow> bool \<Rightarrow> conflict_response \<Rightarrow> ship_state \<Rightarrow>
   outcome option \<times> ship_state" where
  "on_conflict W P index recover conflict s =
     (case (if recover then conflict_ours index (pd_shipped P) conflict else None) of
        Some e \<Rightarrow> (None, write_shipped (shipped_line e) (relock W s))
      | None \<Rightarrow>
          (let seq = (if cf_expected_seq conflict = 0 then 0 else cf_expected_seq conflict - 1) in
           (Some Stopped,
            say (Say_Diverged seq (cf_head_hash conflict) (local_hash index (pd_shipped P) seq)) s)))"

definition frames_path :: "bytes \<Rightarrow> bytes \<Rightarrow> bytes" where
  "frames_path sid host = ''/v1/chains/'' @ sid @ ''/'' @ host @ ''/frames''"

definition batch_request ::
  "ship_world \<Rightarrow> crypto_api \<Rightarrow> machine \<Rightarrow> bytes \<Rightarrow> bytes \<Rightarrow> bytes \<Rightarrow> nat \<Rightarrow> bytes \<Rightarrow> index_entry list \<Rightarrow> frames_request" where
  "batch_request W c M sid host key k b es =
     (let aad = batch_aad_of sid host es
      in frames_body c (rnd_box W) M key aad es (seal_batch c (rnd_nonce W k) key aad b))"

definition push_batch ::
  "ship_world \<Rightarrow> crypto_api \<Rightarrow> machine \<Rightarrow> bytes \<Rightarrow> bytes \<Rightarrow> pending \<Rightarrow> index_entry list \<Rightarrow> bool \<Rightarrow>
   bytes \<Rightarrow> index_entry list \<Rightarrow> ship_state \<Rightarrow> (ship_error + outcome option) \<times> ship_state + ship_state" where
  "push_batch W c M sid host P index recover b es s =
     (let (answer, s1) = send_frames W c M (frames_path sid host)
            (batch_request W c M sid host (pd_key P) (st_clock s) b es) s
      in case answer of
           Send_Err e \<Rightarrow> Inl (Inr (Some Unreachable), say (Say_Send_Failed e) s1)
         | Reply status body \<Rightarrow>
             if status = 200 then Inr (write_shipped (shipped_line (last es)) (relock W s1))
             else if status = 409 then
               (case parse_conflict W body of
                  None \<Rightarrow> Inl (Inl (SE_Msg ''json''), s1)
                | Some conflict \<Rightarrow> Inl (apfst Inr (on_conflict W P index recover conflict s1)))
             else if status = 422 then
               (case parse_reject W body of
                  None \<Rightarrow> Inl (Inl (SE_Msg ''json''), s1)
                | Some (seq, err) \<Rightarrow> Inl (Inr (Some Stopped), say (Say_Rejected seq err) s1))
             else Inl (Inr (Some Unreachable), say (Say_Answered status body) s1))"

text \<open>The loop. A batch with no entries is an index out of range, a panic.\<close>

fun push_batches ::
  "ship_world \<Rightarrow> crypto_api \<Rightarrow> machine \<Rightarrow> bytes \<Rightarrow> bytes \<Rightarrow> pending \<Rightarrow> index_entry list \<Rightarrow> bool \<Rightarrow>
   (bytes \<times> index_entry list) list \<Rightarrow> ship_state \<Rightarrow> ((ship_error + outcome option) \<times> ship_state) option" where
  "push_batches W c M sid host P index recover [] s = Some (Inr (Some Done), s)"
| "push_batches W c M sid host P index recover ((b, es) # rest) s =
     (if es = [] then None
      else
        (case push_batch W c M sid host P index recover b es s of
           Inl r \<Rightarrow> Some r
         | Inr s1 \<Rightarrow> push_batches W c M sid host P index recover rest s1))"

definition push ::
  "ship_world \<Rightarrow> crypto_api \<Rightarrow> machine \<Rightarrow> bytes \<Rightarrow> pending \<Rightarrow> bool \<Rightarrow> ship_state \<Rightarrow>
   ((ship_error + outcome option) \<times> ship_state) option" where
  "push W c M sid P recover s =
     (case verify_segment (blake3_hex c) sid (pd_shipped P) (pd_frames P) of
        Inl e \<Rightarrow> Some (Inl (SE_Chain e), s)
      | Inr _ \<Rightarrow>
     (case build_index (pd_frames P) of
        Inl e \<Rightarrow> Some (Inl (SE_Chain e), s)
      | Inr index \<Rightarrow>
     (case frame_member (pd_frames P) ''host'' of
        None \<Rightarrow> Some (Inl (SE_Msg ''the first pending frame carries no host''), s)
      | Some host \<Rightarrow>
     (case batches (pd_frames P) index of
        None \<Rightarrow> None
      | Some bs \<Rightarrow> push_batches W c M sid host P index recover bs s))))"

section \<open>Finishing\<close>

text \<open>\<^verbatim>\<open>i64::try_from(after.as_nanos()).unwrap_or(i64::MAX)\<close> and \<^verbatim>\<open>i64::saturating_sub\<close>.\<close>

definition clamp_nanos :: "nat \<Rightarrow> i64" where
  "clamp_nanos n = (if n < 2 ^ 63 then word_of_nat n else word_of_nat (2 ^ 63 - 1))"

definition saturating_sub :: "i64 \<Rightarrow> i64 \<Rightarrow> i64" where
  "saturating_sub a b = word_of_int (max (- (2 ^ 63)) (min (2 ^ 63 - 1) (sint a - sint b)))"

text \<open>The directory after it, or \<^const>\<open>None\<close> when it was pruned. The outer option is a panic.\<close>

definition finish :: "i64 \<Rightarrow> nat option \<Rightarrow> session_dir \<Rightarrow> (ship_error + session_dir option) option" where
  "finish now prune_after d =
     (case read_head (sd_shipped d) of
        Inl e \<Rightarrow> Some (Inl (SE_Chain e))
      | Inr shipped \<Rightarrow>
     (case read_head (sd_head d) of
        Inl e \<Rightarrow> Some (Inl (SE_Chain e))
      | Inr head \<Rightarrow>
     (case last_frame (sd_events d) of
        None \<Rightarrow> None
      | Some Tail_Torn \<Rightarrow> Some (Inl (SE_Msg ''the log ends mid-frame''))
      | Some tail \<Rightarrow>
          (let complete = (shipped = head);
               last_line = (case tail of Tail_Frame f \<Rightarrow> Some f | _ \<Rightarrow> None);
               closed = complete \<and> Option.bind last_line (\<lambda>f. frame_member f ''kind'') = Some ''session_end'';
               d1 = (if closed then d\<lparr>sd_chain_key := None\<rparr> else d);
               prune = (case prune_after of
                          None \<Rightarrow> False
                        | Some after \<Rightarrow>
                            complete \<and>
                            (case Option.bind last_line frame_ts of
                               None \<Rightarrow> False
                             | Some ts \<Rightarrow> sint (saturating_sub now ts) \<ge> sint (clamp_nanos after)))
           in Some (Inr (if prune then None else Some d1))))))"

section \<open>One session\<close>

lemma push_batch_once: "push_batch W c M sid host P index False b es s \<noteq> Inl (Inr None, s')"
  by (auto simp: push_batch_def on_conflict_def Let_def split: reply.splits option.splits prod.splits)

lemma push_batches_once: "push_batches W c M sid host P index False bs s \<noteq> Some (Inr None, s')"
  by (induction bs arbitrary: s) (auto simp: push_batch_once split: sum.splits if_splits)

lemma push_once: "push W c M sid P False s \<noteq> Some (Inr None, s')"
  by (auto simp: push_def push_batches_once split: sum.splits option.splits)

lemma push_recovers: "push W c M sid P recover s = Some (Inr None, s') \<Longrightarrow> recover"
  using push_once by (cases recover) auto

text \<open>The \<^verbatim>\<open>loop\<close> of \<^verbatim>\<open>session\<close>: it goes round again at most once.\<close>

function session_loop ::
  "ship_world \<Rightarrow> crypto_api \<Rightarrow> machine \<Rightarrow> bytes \<Rightarrow> bool \<Rightarrow> ship_state \<Rightarrow>
   ((ship_error + outcome) \<times> ship_state) option" where
  "session_loop W c M sid recover s0 =
     (let s = relock W s0 in
      case read_pending (rnd_chain_key W) (st_dir s) of
        None \<Rightarrow> None
      | Some (Inl e, d) \<Rightarrow> Some (Inl e, s\<lparr>st_dir := d\<rparr>)
      | Some (Inr None, d) \<Rightarrow> Some (Inr Done, s\<lparr>st_dir := d\<rparr>)
      | Some (Inr (Some P), d) \<Rightarrow>
          (case push W c M sid P recover (s\<lparr>st_dir := d\<rparr>) of
             None \<Rightarrow> None
           | Some (Inl e, s1) \<Rightarrow> Some (Inl e, s1)
           | Some (Inr (Some out), s1) \<Rightarrow> Some (Inr out, s1)
           | Some (Inr None, s1) \<Rightarrow> session_loop W c M sid False s1))"
  by pat_completeness auto
termination
  by (relation "measure (\<lambda>(W, c, M, sid, recover, s). if recover then 1 else 0)")
    (auto dest: push_recovers)

declare session_loop.simps [simp del]

text \<open>\<^verbatim>\<open>session\<close>: the result, the run's state, and whether the directory is still there.\<close>

definition ship_session ::
  "ship_world \<Rightarrow> crypto_api \<Rightarrow> machine \<Rightarrow> bytes \<Rightarrow> nat option \<Rightarrow> ship_state \<Rightarrow>
   ((ship_error + outcome) \<times> ship_state \<times> bool) option" where
  "ship_session W c M sid prune_after s0 =
     (case session_loop W c M sid True s0 of
        None \<Rightarrow> None
      | Some (Inr Done, s1) \<Rightarrow>
          (let s2 = relock W s1 in
           case finish (now_ns W) prune_after (st_dir s2) of
             None \<Rightarrow> None
           | Some (Inl e) \<Rightarrow> Some (Inl e, s2, True)
           | Some (Inr None) \<Rightarrow> Some (Inr Done, s2, False)
           | Some (Inr (Some d)) \<Rightarrow> Some (Inr Done, s2\<lparr>st_dir := d\<rparr>, True))
      | Some (r, s1) \<Rightarrow> Some (r, s1, True))"

section \<open>One pass over every session\<close>

text \<open>
  \<^verbatim>\<open>run_once\<close> after the recipient set has been accepted: \<open>names\<close> are the directories under
  \<^verbatim>\<open>sessions/\<close> in the order the file system lists them, and each session has its own world. The
  result is whether some session stopped and whether some could not reach the vault.
\<close>

definition start_state :: "session_dir \<Rightarrow> ship_state" where
  "start_state d = \<lparr>st_dir = d, st_clock = 0, st_sent = [], st_said = []\<rparr>"

fun run_sessions ::
  "(bytes \<Rightarrow> ship_world) \<Rightarrow> crypto_api \<Rightarrow> machine \<Rightarrow> nat option \<Rightarrow> bytes \<Rightarrow> bytes list \<Rightarrow> sessions \<Rightarrow>
   bool \<times> bool \<Rightarrow> ((log_error + bool \<times> bool) \<times> sessions) option" where
  "run_sessions Ws c M prune_after root [] ss (stopped, unreachable) = Some (Inr (stopped, unreachable), ss)"
| "run_sessions Ws c M prune_after root (name # names) ss (stopped, unreachable) =
     (case open_in root name of
        Inl e \<Rightarrow> Some (Inl e, ss)
      | Inr log \<Rightarrow>
          (case ship_session (Ws name) c M (sl_session_id log) prune_after (start_state (create_dir ss name)) of
             None \<Rightarrow> None
           | Some (r, s, kept) \<Rightarrow>
               (let outcome = (case r of Inl _ \<Rightarrow> Stopped | Inr out \<Rightarrow> out) in
                run_sessions Ws c M prune_after root names
                  (ss(name := (if kept then Some (st_dir s) else None)))
                  (stopped \<or> outcome = Stopped, unreachable \<or> outcome = Unreachable))))"

definition exit_code :: "nat \<Rightarrow> bool \<times> bool \<Rightarrow> nat" where
  "exit_code unreachable_code r =
     (case r of (True, _) \<Rightarrow> 1 | (False, True) \<Rightarrow> unreachable_code | (False, False) \<Rightarrow> 0)"

text \<open>The files of \<^verbatim>\<open>vault/\<close>, and \<^verbatim>\<open>Machine::load\<close>.\<close>

record vault_dir =
  vd_machine_key :: "bytes option"
  vd_machine_id :: "bytes option"
  vd_server :: "bytes option"
  vd_recipients :: "bytes option"

definition read_text :: "bytes option \<Rightarrow> ship_error + bytes" where
  "read_text file =
     (case file of
        None \<Rightarrow> Inl (SE_Msg ''No such file or directory (os error 2)'')
      | Some s \<Rightarrow>
          if utf8_valid s then Inr (trim s) else Inl (SE_Msg ''stream did not contain valid UTF-8''))"

definition load_machine :: "(bytes \<Rightarrow> signed_recipient_set option) \<Rightarrow> vault_dir \<Rightarrow> ship_error + machine" where
  "load_machine parse_set d =
     (case vd_machine_key d of
        None \<Rightarrow> Inl (SE_Msg (''this machine is not enrolled with a vault (No such file or directory ''
            @ ''(os error 2)); run `nd7 enroll`''))
      | Some seed \<Rightarrow>
          if length seed \<noteq> 32 then Inl (SE_Msg ''machine.key is not 32 bytes'')
          else
     (case read_text (vd_server d) of
        Inl e \<Rightarrow> Inl e
      | Inr server \<Rightarrow>
     (case check_server server of
        Inl e \<Rightarrow> Inl e
      | Inr _ \<Rightarrow>
     (case read_text (vd_machine_id d) of
        Inl e \<Rightarrow> Inl e
      | Inr machine_id \<Rightarrow>
     (case Option.bind (vd_recipients d) parse_set of
        None \<Rightarrow> Inl (SE_Msg ''recipients'')
      | Some rs \<Rightarrow>
          Inr \<lparr>m_server = server, m_id = machine_id, m_key = seed, m_recipients = rs\<rparr>)))))"

text \<open>\<open>answer\<close> is what came back for the one request; \<^const>\<open>None\<close> when the vault was not reached.\<close>

definition fetch_recipients ::
  "crypto_api \<Rightarrow> i64 \<Rightarrow> (http_request \<Rightarrow> (nat \<times> bytes) option) \<Rightarrow> (bytes \<Rightarrow> signed_recipient_set option) \<Rightarrow>
   machine \<Rightarrow> signed_recipient_set option" where
  "fetch_recipients c now answer parse_set M =
     (case build_request c now (Some (m_key M, m_id M)) ''GET'' (m_server M) ''/v1/recipients'' [] of
        Inl _ \<Rightarrow> None
      | Inr request \<Rightarrow>
          (case answer request of
             None \<Rightarrow> None
           | Some (status, body) \<Rightarrow> if status \<noteq> 200 then None else parse_set body))"

datatype run_error = Not_Enrolled ship_error | Unsigned_Recipients | Run_Log log_error

text \<open>
  \<^verbatim>\<open>run_once\<close>: the exit code or the error, the vault's files after it, and the sessions.
\<close>

definition run_once ::
  "(bytes \<Rightarrow> ship_world) \<Rightarrow> crypto_api \<Rightarrow> i64 \<Rightarrow> (http_request \<Rightarrow> (nat \<times> bytes) option) \<Rightarrow>
   (bytes \<Rightarrow> signed_recipient_set option) \<Rightarrow> (signed_recipient_set \<Rightarrow> bytes) \<Rightarrow> nat option \<Rightarrow> nat \<Rightarrow> bytes \<Rightarrow>
   bytes list \<Rightarrow> vault_dir \<Rightarrow> sessions \<Rightarrow> ((run_error + nat) \<times> vault_dir \<times> sessions) option" where
  "run_once Ws c now answer parse_set set_json prune_after unreachable_code root names vd ss =
     (case load_machine parse_set vd of
        Inl e \<Rightarrow> Some (Inl (Not_Enrolled e), vd, ss)
      | Inr M \<Rightarrow>
     (case fetch_recipients c now answer parse_set M of
        None \<Rightarrow> Some (Inr unreachable_code, vd, ss)
      | Some rs \<Rightarrow>
          if \<not> verify_against c rs (srs_set (m_recipients M)) then Some (Inl Unsigned_Recipients, vd, ss)
          else
            (let vd1 = vd\<lparr>vd_recipients := Some (set_json rs)\<rparr>;
                 M1 = M\<lparr>m_recipients := rs\<rparr>
             in case run_sessions Ws c M1 prune_after root names ss (False, False) of
                  None \<Rightarrow> None
                | Some (Inl e, ss1) \<Rightarrow> Some (Inl (Run_Log e), vd1, ss1)
                | Some (Inr r, ss1) \<Rightarrow> Some (Inr (exit_code unreachable_code r), vd1, ss1))))"

section \<open>Enrolling\<close>

datatype vault_write =
    Write_Machine_Id bytes
  | Write_Server bytes
  | Write_Recipients bytes
  | Write_Machine_Key bytes

fun apply_vault_write :: "vault_write \<Rightarrow> vault_dir \<Rightarrow> vault_dir" where
  "apply_vault_write (Write_Machine_Id s) d = d\<lparr>vd_machine_id := Some s\<rparr>"
| "apply_vault_write (Write_Server s) d = d\<lparr>vd_server := Some s\<rparr>"
| "apply_vault_write (Write_Recipients s) d = d\<lparr>vd_recipients := Some s\<rparr>"
| "apply_vault_write (Write_Machine_Key s) d = d\<lparr>vd_machine_key := Some s\<rparr>"

text \<open>\<^verbatim>\<open>trim_end_matches('/')\<close>.\<close>

definition trim_slashes :: "bytes \<Rightarrow> bytes" where
  "trim_slashes s = rev (dropWhile (\<lambda>c. c = CHR ''/'') (rev s))"

record enroll_request =
  er_token :: bytes
  er_public_key :: bytes
  er_host :: bytes
  er_rotate :: bool

record enroll_response =
  en_machine_id :: bytes
  en_recipients :: signed_recipient_set

datatype enroll_error =
    Bad_Token
  | Already_Enrolled
  | Refused_Server ship_error
  | Vault_Unreachable
  | Vault_Answered nat
  | Bad_Response
  | Wrong_Fingerprint bytes bytes

text \<open>
  \<open>answer\<close> is the vault's answer to the one request, by the request; the result is the writes, in
  order. Nothing is written on any error.
\<close>

definition enroll ::
  "crypto_api \<Rightarrow> (http_request \<Rightarrow> (nat \<times> bytes) option) \<Rightarrow> (enroll_request \<Rightarrow> bytes) \<Rightarrow>
   (bytes \<Rightarrow> enroll_response option) \<Rightarrow> (signed_recipient_set \<Rightarrow> bytes) \<Rightarrow> i64 \<Rightarrow> bytes \<Rightarrow> bytes \<Rightarrow>
   bytes \<Rightarrow> bytes \<Rightarrow> bool \<Rightarrow> vault_dir \<Rightarrow> enroll_error + vault_write list \<times> bytes" where
  "enroll c answer req_json parse_response set_json now host seed server0 token re_enroll d =
     (let server = trim_slashes server0 in
      case split_once CHR ''.'' token of
        None \<Rightarrow> Inl Bad_Token
      | Some (fingerprint, _) \<Rightarrow>
          if vd_machine_key d \<noteq> None \<and> \<not> re_enroll then Inl Already_Enrolled
          else
            (let body = req_json \<lparr>er_token = token, er_public_key = b64_encode c (machine_public_key c seed),
                          er_host = host, er_rotate = re_enroll\<rparr>
             in case build_request c now None ''POST'' server ''/v1/enroll'' body of
                  Inl e \<Rightarrow> Inl (Refused_Server e)
                | Inr request \<Rightarrow>
             (case answer request of
                None \<Rightarrow> Inl Vault_Unreachable
              | Some (status, reply) \<Rightarrow>
                  if status \<noteq> 201 then Inl (Vault_Answered status)
                  else (case parse_response reply of
                          None \<Rightarrow> Inl Bad_Response
                        | Some enrolled \<Rightarrow>
                            (let found = set_fingerprint c (srs_set (en_recipients enrolled)) in
                             if found \<noteq> fingerprint then Inl (Wrong_Fingerprint found fingerprint)
                             else Inr ([Write_Machine_Id (en_machine_id enrolled), Write_Server server,
                                    Write_Recipients (set_json (en_recipients enrolled)), Write_Machine_Key seed],
                                  en_machine_id enrolled))))))"

end
