(* ===== verification/ShipProofs.thy ===== *)
theory ShipProofs
  imports Ship
begin

text \<open>
  Lemmas about shipping: the batches partition the pending frames; what each request carries; when
  \<^verbatim>\<open>shipped\<close> is written, whatever the vault answers and whatever is appended meanwhile; what
  a vault that accepts everything receives; when the chain key and the session are removed.
\<close>

section \<open>Batches\<close>

lemma range_of_Some: "lo \<le> hi \<Longrightarrow> hi \<le> length xs \<Longrightarrow> range_of xs lo hi = Some (take (hi - lo) (drop lo xs))"
  by (simp add: range_of_def)

text \<open>A group of lines that may be one batch.\<close>

definition batch_lines :: "bytes list \<Rightarrow> bool" where
  "batch_lines g \<longleftrightarrow> g \<noteq> [] \<and> (length (concat g) \<le> MAX_BATCH \<or> length g = 1)"

lemma concat_pos: "\<forall>l \<in> set ls. l \<noteq> [] \<Longrightarrow> 0 < length (concat ls) \<longleftrightarrow> ls \<noteq> []"
  by (cases ls) auto

lemma batches_loop_groups:
  assumes "frames = concat (gs @ cur @ lines)" "length index = length (gs @ cur @ lines)"
    and "\<forall>l \<in> set (gs @ cur @ lines). l \<noteq> []" "cur = [] \<or> batch_lines cur"
  shows "\<exists>bs grps. batches_loop frames index lines (length (gs @ cur)) (length (concat gs)) (length gs)
        (length (concat (gs @ cur))) out = Some (out @ bs)
    \<and> concat grps = cur @ lines \<and> list_all batch_lines grps
    \<and> list_all2 (\<lambda>(b, es) g. b = concat g \<and> length es = length g) bs grps
    \<and> concat (map snd bs) = drop (length gs) index"
  using assms
proof (induction lines arbitrary: gs cur out)
  case Nil
  have r: "range_of frames (length (concat gs)) (length (concat (gs @ cur))) = Some (concat cur)"
    "range_of index (length gs) (length index) = Some (drop (length gs) index)"
    using Nil.prems by (simp_all add: range_of_Some)
  show ?case
  proof (cases "cur = []")
    case True
    with Nil.prems show ?thesis by (intro exI [of _ "[]"]) simp
  next
    case False
    then have "0 < length (concat cur)" using Nil.prems(3) concat_pos [of cur] by simp
    with False Nil.prems r show ?thesis
      by (intro exI [of _ "[(concat cur, drop (length gs) index)]"] exI [of _ "[cur]"]) simp
  qed
next
  case (Cons l lines)
  let ?cut = "cur \<noteq> [] \<and> length (concat cur) + length l > MAX_BATCH"
  have pos: "length (concat gs) < length (concat (gs @ cur)) \<longleftrightarrow> cur \<noteq> []"
    using Cons.prems(3) concat_pos [of cur] by simp
  show ?case
  proof (cases ?cut)
    case True
    have r: "range_of frames (length (concat gs)) (length (concat (gs @ cur))) = Some (concat cur)"
      "range_of index (length gs) (length (gs @ cur)) = Some (take (length cur) (drop (length gs) index))"
      using Cons.prems by (simp_all add: range_of_Some)
    from True have cur: "batch_lines cur" using Cons.prems(4) by simp
    let ?out = "out @ [(concat cur, take (length cur) (drop (length gs) index))]"
    have "\<exists>bs grps. batches_loop frames index lines (length ((gs @ cur) @ [l])) (length (concat (gs @ cur)))
        (length (gs @ cur)) (length (concat ((gs @ cur) @ [l]))) ?out = Some (?out @ bs)
      \<and> concat grps = [l] @ lines \<and> list_all batch_lines grps
      \<and> list_all2 (\<lambda>(b, es) g. b = concat g \<and> length es = length g) bs grps
      \<and> concat (map snd bs) = drop (length (gs @ cur)) index"
      using Cons.prems by (intro Cons.IH) (auto simp: batch_lines_def)
    then obtain bs grps where IH: "batches_loop frames index lines (length ((gs @ cur) @ [l])) (length (concat (gs @ cur)))
        (length (gs @ cur)) (length (concat ((gs @ cur) @ [l]))) ?out = Some (?out @ bs)"
      "concat grps = [l] @ lines" "list_all batch_lines grps"
      "list_all2 (\<lambda>(b, es) g. b = concat g \<and> length es = length g) bs grps"
      "concat (map snd bs) = drop (length (gs @ cur)) index"
      by blast
    have "take (length cur) (drop (length gs) index) @ drop (length (gs @ cur)) index = drop (length gs) index"
      by (simp add: add.commute append_take_drop_id flip: drop_drop)
    with True pos r IH cur Cons.prems(2) show ?thesis
      by (intro exI [of _ "(concat cur, take (length cur) (drop (length gs) index)) # bs"] exI [of _ "cur # grps"])
        (simp add: add.assoc)
  next
    case False
    then have "batch_lines (cur @ [l])" using Cons.prems(3) by (auto simp: batch_lines_def)
    then have "\<exists>bs grps. batches_loop frames index lines (length (gs @ cur @ [l])) (length (concat gs))
        (length gs) (length (concat (gs @ cur @ [l]))) out = Some (out @ bs)
      \<and> concat grps = (cur @ [l]) @ lines \<and> list_all batch_lines grps
      \<and> list_all2 (\<lambda>(b, es) g. b = concat g \<and> length es = length g) bs grps
      \<and> concat (map snd bs) = drop (length gs) index"
      using Cons.prems by (intro Cons.IH) auto
    then obtain bs grps where IH: "batches_loop frames index lines (length (gs @ cur @ [l])) (length (concat gs))
        (length gs) (length (concat (gs @ cur @ [l]))) out = Some (out @ bs)"
      "concat grps = (cur @ [l]) @ lines" "list_all batch_lines grps"
      "list_all2 (\<lambda>(b, es) g. b = concat g \<and> length es = length g) bs grps"
      "concat (map snd bs) = drop (length gs) index"
      by blast
    with False pos show ?thesis by (intro exI [of _ bs] exI [of _ grps]) (auto simp: add.assoc)
  qed
qed

lemma split_inclusive_not_Nil: "l \<in> set (split_inclusive c s) \<Longrightarrow> l \<noteq> []"
  by (induction s arbitrary: l) (auto split: if_splits list.splits)

lemma batches_groups:
  assumes "length index = length (split_inclusive newline frames)"
  shows "\<exists>bs grps. batches frames index = Some bs \<and> concat grps = split_inclusive newline frames
    \<and> list_all batch_lines grps
    \<and> list_all2 (\<lambda>(b, es) g. b = concat g \<and> length es = length g) bs grps
    \<and> concat (map snd bs) = index"
  using batches_loop_groups [of frames "[]" "[]" "split_inclusive newline frames" index "[]"] assms
  by (simp add: batches_def concat_split_inclusive split_inclusive_not_Nil)

section \<open>\<^verbatim>\<open>shipped\<close> names a frame of the log\<close>

definition shipped_ok :: "bytes list \<Rightarrow> session_dir \<Rightarrow> bool" where
  "shipped_ok ls d \<longleftrightarrow> sd_shipped d = None \<or> (\<exists>l \<in> set ls. sd_shipped d = Some (head_line l))"

text \<open>
  The directory holds a log that extends \<open>ls\<close>, and \<^verbatim>\<open>shipped\<close> names one of its frames. This is
  what every step keeps, against any vault and any appends by other processes.
\<close>

definition ship_ok :: "(bytes \<Rightarrow> bytes) \<Rightarrow> bytes \<Rightarrow> bytes list \<Rightarrow> session_dir \<Rightarrow> bool" where
  "ship_ok H sid ls d \<longleftrightarrow> (\<exists>more. kept_log H sid (ls @ more) d \<and> shipped_ok (ls @ more) d)"

text \<open>Other processes append, completing or dying in it, and leave the two files of this one alone.\<close>

definition appends_only :: "(bytes \<Rightarrow> bytes) \<Rightarrow> bytes \<Rightarrow> ship_world \<Rightarrow> bool" where
  "appends_only H sid W \<longleftrightarrow>
     (\<forall>k d ls. kept_log H sid ls d \<longrightarrow>
        (\<exists>more. kept_log H sid (ls @ more) (meanwhile W k d))
        \<and> sd_shipped (meanwhile W k d) = sd_shipped d
        \<and> sd_chain_key (meanwhile W k d) = sd_chain_key d)"

lemma kept_log_same:
  "sd_events d' = sd_events d \<Longrightarrow> sd_head d' = sd_head d \<Longrightarrow> kept_log H sid ls d' = kept_log H sid ls d"
  by (simp add: kept_log_def recoverable_def stale_def torn_def log_is_def)

lemma ship_ok_same:
  "sd_events d' = sd_events d \<Longrightarrow> sd_head d' = sd_head d \<Longrightarrow> sd_shipped d' = sd_shipped d \<Longrightarrow>
   ship_ok H sid ls d' = ship_ok H sid ls d"
  using kept_log_same [of d' d H sid] by (simp add: ship_ok_def shipped_ok_def)

lemma ship_ok_write:
  assumes "ship_ok H sid ls d" "l \<in> set ls"
  shows "ship_ok H sid ls (d\<lparr>sd_shipped := Some (head_line l)\<rparr>)"
proof -
  obtain more where "kept_log H sid (ls @ more) d" using assms(1) by (auto simp: ship_ok_def)
  then have "kept_log H sid (ls @ more) (d\<lparr>sd_shipped := Some (head_line l)\<rparr>)"
    using kept_log_same [of "d\<lparr>sd_shipped := Some (head_line l)\<rparr>" d] by simp
  moreover have "shipped_ok (ls @ more) (d\<lparr>sd_shipped := Some (head_line l)\<rparr>)"
    using assms(2) by (auto simp: shipped_ok_def)
  ultimately show ?thesis unfolding ship_ok_def by blast
qed

lemma ship_ok_meanwhile:
  assumes "appends_only H sid W" "ship_ok H sid ls d"
  shows "ship_ok H sid ls (meanwhile W k d)"
proof -
  obtain more where m: "kept_log H sid (ls @ more) d" "shipped_ok (ls @ more) d"
    using assms(2) by (auto simp: ship_ok_def)
  with assms(1) obtain more' where "kept_log H sid ((ls @ more) @ more') (meanwhile W k d)"
    "sd_shipped (meanwhile W k d) = sd_shipped d"
    unfolding appends_only_def by blast
  with m(2) show ?thesis
    unfolding ship_ok_def shipped_ok_def by (intro exI [of _ "more @ more'"]) auto
qed

lemma ship_ok_relock:
  "appends_only H sid W \<Longrightarrow> ship_ok H sid ls (st_dir s) \<Longrightarrow> ship_ok H sid ls (st_dir (relock W s))"
  by (simp add: relock_def ship_ok_meanwhile)

lemma ship_ok_extend: "ship_ok H sid (ls @ ms) d \<Longrightarrow> ship_ok H sid ls d"
  unfolding ship_ok_def by (metis append.assoc)

section \<open>The pending frames are frames of the log\<close>

lemma after_last_suffix: "after_last P xs = Some r \<Longrightarrow> \<exists>us. xs = us @ r"
proof (induction xs arbitrary: r)
  case (Cons x xs)
  show ?case
  proof (cases "after_last P xs")
    case None
    with Cons.prems have "x # xs = [x] @ r" by (auto split: if_splits)
    then show ?thesis by blast
  next
    case (Some q)
    with Cons obtain us where "xs = us @ r" by auto
    then have "x # xs = (x # us) @ r" by simp
    then show ?thesis by blast
  qed
qed simp

lemma pending_suffix:
  assumes "pending_frames d shipped = Some (Inr frames)" "sd_events d = Some f"
  shows "\<exists>us rs. split_inclusive newline f = us @ rs \<and> frames = concat rs"
proof (cases shipped)
  case None
  with assms have "split_inclusive newline f = [] @ split_inclusive newline f \<and> frames = concat (split_inclusive newline f)"
    by (simp add: pending_frames_def concat_split_inclusive)
  then show ?thesis by blast
next
  case (Some h)
  with assms obtain rs where "after_last (has_seq (hd_seq h)) (split_inclusive newline f) = Some rs" "frames = concat rs"
    by (auto simp: pending_frames_def read_after_seq_reference split: option.splits)
  with after_last_suffix show ?thesis by metis
qed

lemma split_inclusive_torn:
  assumes "list_all one_line ls" "one_line frag" "frag \<noteq> []"
  shows "split_inclusive newline (unlines ls @ frag) = map (\<lambda>l. l @ [newline]) ls @ [frag]"
  using assms(1)
proof (induction ls)
  case Nil
  obtain vs v where "frag = vs @ [v]" using assms(3) by (meson rev_exhaust)
  with assms(2) split_inclusive_piece [of newline vs v] show ?case by (simp add: one_line_def)
next
  case (Cons l ls)
  then show ?case by (simp add: split_inclusive_append one_line_def)
qed

lemma suffix_of_map: "map g ls = us @ rs \<Longrightarrow> rs = map g (drop (length us) ls)"
  by (metis append_eq_conv_conj drop_map)

lemma pending_lines:
  assumes "kept_log H sid ls d" "pending_frames d shipped = Some (Inr frames)"
    and "frames \<noteq> []" "ends_with_newline frames"
  shows "\<exists>j. frames = unlines (drop j ls)"
proof -
  have chain: "list_all one_line ls" using kept_log_chain [OF assms(1)] by (simp add: chain_ok_def)
  obtain f where f: "sd_events d = Some f"
    using assms(2,3) by (cases "sd_events d")
      (auto simp: pending_frames_def read_after_seq_def split: option.splits)
  obtain us rs where rs: "split_inclusive newline f = us @ rs" "frames = concat rs"
    using pending_suffix [OF assms(2) f] by blast
  show ?thesis
  proof (cases "f = unlines ls")
    case True
    with rs(1) chain have "map (\<lambda>l. l @ [newline]) ls = us @ rs" by (simp add: split_inclusive_unlines)
    then have "rs = map (\<lambda>l. l @ [newline]) (drop (length us) ls)" by (rule suffix_of_map)
    with rs(2) show ?thesis by (auto simp: unlines_def)
  next
    case False
    with assms(1) f obtain frag where frag: "f = unlines ls @ frag" "frag \<noteq> []" "one_line frag"
      by (auto simp: kept_log_def recoverable_def stale_def torn_def log_is_def split: if_splits)
    with rs(1) chain have eq: "map (\<lambda>l. l @ [newline]) ls @ [frag] = us @ rs"
      by (simp add: split_inclusive_torn)
    have "rs \<noteq> []" using rs(2) assms(3) by auto
    with eq have "last rs = frag" by (metis last_appendR last_snoc)
    with rs(2) \<open>rs \<noteq> []\<close> have "frames = concat (butlast rs) @ frag"
      by (metis append_butlast_last_id concat_append concat.simps append_Nil2)
    with assms(4) frag(2,3) have "ends_with_newline frag" by simp
    with frag(3) show ?thesis by (metis ends_with_newline_def last_in_set one_line_def)
  qed
qed

section \<open>Every step keeps it\<close>

text \<open>The entries of an index come from these lines.\<close>

definition index_in :: "index_entry list \<Rightarrow> bytes list \<Rightarrow> bool" where
  "index_in es ls \<longleftrightarrow> (\<forall>e \<in> set es. \<exists>l \<in> set ls. shipped_line e = head_line l)"

lemma entry_shipped_line: "entry l = Some e \<Longrightarrow> shipped_line e = head_line l"
  using entry_frame [of l e] by (simp add: shipped_line_def head_line_def head_of_def)

lemma build_index_in:
  assumes "list_all one_line ls" "build_index (unlines ls) = Inr es"
  shows "index_in es ls" "length es = length ls"
proof -
  have es: "length es = length ls" "\<forall>k < length ls. entry (ls ! k) = Some (es ! k)"
    using entries_Inr [of 0 ls es] assms by (simp_all add: build_index_unlines)
  show "index_in es ls" unfolding index_in_def
  proof
    fix e assume "e \<in> set es"
    then obtain k where "k < length ls" "es ! k = e" using es(1) by (auto simp: in_set_conv_nth)
    with es(2) have "entry (ls ! k) = Some e" "ls ! k \<in> set ls" by auto
    then show "\<exists>l \<in> set ls. shipped_line e = head_line l" using entry_shipped_line by blast
  qed
  show "length es = length ls" by (rule es(1))
qed

lemma send_frames_dir: "send_frames W c M path req s = (answer, s1) \<Longrightarrow> st_dir s1 = st_dir s"
  by (auto simp: send_frames_def split: sum.splits ship_error.splits)

lemma say_dir [simp]: "st_dir (say x s) = st_dir s"
  by (simp add: say_def)

lemma write_shipped_ok:
  "ship_ok H sid ls (st_dir s) \<Longrightarrow> index_in es ls \<Longrightarrow> e \<in> set es \<Longrightarrow>
   ship_ok H sid ls (st_dir (write_shipped (shipped_line e) s))"
  by (auto simp: write_shipped_def index_in_def ship_ok_write dest!: bspec)

lemma conflict_ours_in: "conflict_ours index shipped conflict = Some e \<Longrightarrow> e \<in> set index"
  by (auto simp: conflict_ours_def Let_def find_Some_iff split: if_splits option.splits)

lemma push_batch_ok:
  assumes "appends_only H sid W" "ship_ok H sid ls (st_dir s)" "index_in index ls" "set es \<subseteq> set index" "es \<noteq> []"
  shows "push_batch W c M sid host P index recover b es s = Inr s1 \<Longrightarrow> ship_ok H sid ls (st_dir s1)"
    and "push_batch W c M sid host P index recover b es s = Inl (r, s1) \<Longrightarrow> ship_ok H sid ls (st_dir s1)"
proof -
  obtain answer s2 where a: "send_frames W c M (frames_path sid host)
      (batch_request W c M sid host (pd_key P) (st_clock s) b es) s = (answer, s2)"
    by fastforce
  have s2: "ship_ok H sid ls (st_dir s2)" using send_frames_dir [OF a] assms(2) by simp
  have re: "ship_ok H sid ls (st_dir (relock W s2))" using assms(1) s2 by (rule ship_ok_relock)
  have last: "last es \<in> set index" using assms(4,5) by auto
  note w = write_shipped_ok [OF re assms(3)]
  show "push_batch W c M sid host P index recover b es s = Inr s1 \<Longrightarrow> ship_ok H sid ls (st_dir s1)"
    using w [OF last]
    by (auto simp: push_batch_def a Let_def split: reply.splits if_splits option.splits prod.splits)
  show "push_batch W c M sid host P index recover b es s = Inl (r, s1) \<Longrightarrow> ship_ok H sid ls (st_dir s1)"
    using s2 w conflict_ours_in
    by (auto simp: push_batch_def on_conflict_def a Let_def
        split: reply.splits if_splits option.splits prod.splits)
qed

lemma push_batches_ok:
  assumes "appends_only H sid W" "index_in index ls" "\<forall>(b, es) \<in> set bs. set es \<subseteq> set index"
    and "ship_ok H sid ls (st_dir s)"
    and "push_batches W c M sid host P index recover bs s = Some (r, s1)"
  shows "ship_ok H sid ls (st_dir s1)"
  using assms(3-5)
proof (induction bs arbitrary: s)
  case (Cons x bs)
  obtain b es where x: "x = (b, es)" by (cases x)
  from Cons.prems x have es: "set es \<subseteq> set index" "es \<noteq> []" by (auto split: if_splits)
  note step = push_batch_ok [OF assms(1) Cons.prems(2) assms(2) es]
  show ?case
  proof (cases "push_batch W c M sid host P index recover b es s")
    case (Inl q)
    with Cons.prems(3) x es have "q = (r, s1)" by simp
    with Inl step(2) show ?thesis by blast
  next
    case (Inr s2)
    with Cons.prems x es show ?thesis by (intro Cons.IH [of s2]) (auto intro: step(1))
  qed
qed simp

lemma concat_snd_subset: "concat (map snd bs) = index \<Longrightarrow> (b, es) \<in> set bs \<Longrightarrow> set es \<subseteq> set index"
  by force

lemma verified_lines:
  assumes "verify_segment H sid after frames = Inr h" "frames \<noteq> []"
  shows "ends_with_newline frames"
  using assms by (auto simp: verify_segment_walk split: if_splits)

lemma batches_index:
  assumes "list_all one_line ls" "build_index (unlines ls) = Inr index" "batches (unlines ls) index = Some bs"
  shows "concat (map snd bs) = index"
proof -
  have "length index = length (split_inclusive newline (unlines ls))"
    using build_index_in(2) [OF assms(1,2)] assms(1) by (simp add: split_inclusive_unlines)
  with batches_groups assms(3) show ?thesis by fastforce
qed

lemma push_ok:
  assumes "appends_only (blake3_hex c) sid W" "ship_ok (blake3_hex c) sid ls (st_dir s)"
    and "pd_frames P = unlines ms" "list_all one_line ms" "set ms \<subseteq> set ls"
    and "push W c M sid P recover s = Some (r, s1)"
  shows "ship_ok (blake3_hex c) sid ls (st_dir s1)"
proof (cases "\<exists>h index host bs. verify_segment (blake3_hex c) sid (pd_shipped P) (pd_frames P) = Inr h
    \<and> build_index (pd_frames P) = Inr index \<and> frame_member (pd_frames P) ''host'' = Some host
    \<and> batches (pd_frames P) index = Some bs")
  case True
  then obtain h index host bs where *: "verify_segment (blake3_hex c) sid (pd_shipped P) (pd_frames P) = Inr h"
    "build_index (pd_frames P) = Inr index" "frame_member (pd_frames P) ''host'' = Some host"
    "batches (pd_frames P) index = Some bs" by blast
  then have "push_batches W c M sid host P index recover bs s = Some (r, s1)"
    using assms(6) by (simp add: push_def)
  moreover have "index_in index ls"
    using build_index_in(1) [OF assms(4)] *(2) assms(3,5) by (auto simp: index_in_def)
  moreover have "\<forall>(b, es) \<in> set bs. set es \<subseteq> set index"
  proof -
    have "concat (map snd bs) = index"
      using *(2,4) unfolding assms(3) by (rule batches_index [OF assms(4)])
    then show ?thesis using concat_snd_subset by fast
  qed
  ultimately show ?thesis using push_batches_ok [OF assms(1)] assms(2) by blast
next
  case False
  with assms(2,6) show ?thesis by (auto simp: push_def split: sum.splits option.splits)
qed

lemma read_head_no_file: "read_head f = Inr None \<Longrightarrow> f = None"
  by (auto simp: read_head_def split: option.splits if_splits sum.splits)

lemma read_pending_dir:
  assumes "read_pending fresh d = Some (r, d')"
  shows "sd_events d' = sd_events d" "sd_head d' = sd_head d" "sd_shipped d' = sd_shipped d"
    "sd_head_tmp d' = sd_head_tmp d" "sd_chain_key d' = sd_chain_key d \<or> sd_chain_key d = None \<and> sd_shipped d = None \<and> sd_chain_key d' = Some fresh"
  using assms
  by (auto simp: read_pending_def read_chain_key_def dest: read_head_no_file
      split: sum.splits option.splits if_splits)

lemma read_pending_Some:
  assumes "read_pending fresh d = Some (Inr (Some P), d')"
  shows "read_head (sd_shipped d) = Inr (pd_shipped P)" "pending_frames d (pd_shipped P) = Some (Inr (pd_frames P))"
    "pd_frames P \<noteq> []" "sd_chain_key d' = Some (pd_key P)"
    "\<exists>h. read_head (sd_head d) = Inr (Some h) \<and> pd_shipped P \<noteq> Some h"
  using assms
  by (auto simp: read_pending_def read_chain_key_def split: sum.splits option.splits if_splits)

text \<open>A run that cannot be verified sends nothing; one that can is a run of lines of the log.\<close>

lemma push_unverified:
  assumes "\<not> ends_with_newline (pd_frames P)" "pd_frames P \<noteq> []" "push W c M sid P recover s = Some (r, s1)"
  shows "s1 = s \<and> (\<exists>e. r = Inl e)"
  using assms by (auto simp: push_def verify_segment_walk)

lemma session_round:
  assumes "appends_only (blake3_hex c) sid W" "session_loop W c M sid recover s0 = Some (r, s1)"
    and "ship_ok (blake3_hex c) sid ls (st_dir s0)"
  shows "ship_ok (blake3_hex c) sid ls (st_dir s1)
    \<or> recover \<and> (\<exists>s2. ship_ok (blake3_hex c) sid ls (st_dir s2) \<and> session_loop W c M sid False s2 = Some (r, s1))"
proof -
  let ?H = "blake3_hex c" and ?s = "relock W s0"
  have re: "ship_ok ?H sid ls (st_dir ?s)" using assms(1,3) by (rule ship_ok_relock)
  note step = assms(2) [unfolded session_loop.simps [of W c M sid recover s0], unfolded Let_def]
  obtain q d where rp: "read_pending (rnd_chain_key W) (st_dir ?s) = Some (q, d)"
    using step by (cases "read_pending (rnd_chain_key W) (st_dir ?s)") auto
  have d: "ship_ok ?H sid ls d"
    using re ship_ok_same [of d "st_dir ?s"] read_pending_dir [OF rp] by simp
  show ?thesis
  proof (cases "\<exists>P. q = Inr (Some P)")
    case False
    with step rp d show ?thesis by (auto split: sum.splits option.splits)
  next
    case True
    then obtain P where P: "q = Inr (Some P)" by blast
    note rp' = rp [unfolded P]
    let ?t = "?s\<lparr>st_dir := d\<rparr>"
    obtain pr s2 where push: "push W c M sid P recover ?t = Some (pr, s2)"
      using step rp' by (cases "push W c M sid P recover ?t") auto
    have s2: "ship_ok ?H sid ls (st_dir s2)"
    proof (cases "ends_with_newline (pd_frames P)")
      case False
      with push_unverified [OF _ read_pending_Some(3) [OF rp'] push] d show ?thesis by simp
    next
      case True
      obtain more where more: "kept_log ?H sid (ls @ more) d" "shipped_ok (ls @ more) d"
        using d by (auto simp: ship_ok_def)
      then have "kept_log ?H sid (ls @ more) (st_dir ?s)"
        using kept_log_same [of d "st_dir ?s" ?H sid] read_pending_dir [OF rp] by simp
      from pending_lines [OF this read_pending_Some(2,3) [OF rp'] True]
      obtain j where j: "pd_frames P = unlines (drop j (ls @ more))" by blast
      have "list_all one_line (drop j (ls @ more))"
        using kept_log_chain [OF more(1)] by (auto simp: chain_ok_def list_all_iff dest: in_set_dropD)
      moreover have "set (drop j (ls @ more)) \<subseteq> set (ls @ more)" by (rule set_drop_subset)
      moreover have "ship_ok ?H sid (ls @ more) (st_dir ?t)"
        using more unfolding ship_ok_def by (intro exI [of _ "[]"]) simp
      ultimately have "ship_ok ?H sid (ls @ more) (st_dir s2)"
        using push_ok [OF assms(1) _ j _ _ push] by blast
      then show ?thesis by (rule ship_ok_extend)
    qed
    consider e where "pr = Inl e" | out where "pr = Inr (Some out)" | "pr = Inr None"
      by (metis option.exhaust sum.exhaust)
    then show ?thesis
    proof cases
      case 3
      with step rp' push push_recovers [of W c M sid P recover ?t s2] s2 show ?thesis by auto
    qed (use step rp' push s2 in auto)
  qed
qed

lemma session_loop_ok:
  assumes "appends_only (blake3_hex c) sid W" "session_loop W c M sid recover s = Some (r, s1)"
    and "ship_ok (blake3_hex c) sid ls (st_dir s)"
  shows "ship_ok (blake3_hex c) sid ls (st_dir s1)"
  using session_round [OF assms] session_round [OF assms(1)] by blast

lemma finish_dir:
  assumes "finish now prune_after d = Some (Inr (Some d'))"
  shows "sd_events d' = sd_events d" "sd_head d' = sd_head d" "sd_shipped d' = sd_shipped d"
    "sd_head_tmp d' = sd_head_tmp d"
  using assms by (auto simp: finish_def Let_def split: sum.splits option.splits tail.splits if_splits)

lemma ship_session_ok:
  assumes "appends_only (blake3_hex c) sid W" "ship_session W c M sid prune_after s = Some (r, s1, kept)"
    and "ship_ok (blake3_hex c) sid ls (st_dir s)"
  shows "ship_ok (blake3_hex c) sid ls (st_dir s1)"
proof -
  obtain r1 s2 where loop: "session_loop W c M sid True s = Some (r1, s2)"
    using assms(2) by (cases "session_loop W c M sid True s") (auto simp: ship_session_def)
  have s2: "ship_ok (blake3_hex c) sid ls (st_dir s2)"
    using session_loop_ok [OF assms(1) loop assms(3)] .
  have re: "ship_ok (blake3_hex c) sid ls (st_dir (relock W s2))" using assms(1) s2 by (rule ship_ok_relock)
  show ?thesis
  proof (cases "r1 = Inr Done")
    case False
    with assms(2) loop s2 show ?thesis by (auto simp: ship_session_def split: sum.splits outcome.splits)
  next
    case True
    have "ship_ok (blake3_hex c) sid ls d"
      if "finish (now_ns W) prune_after (st_dir (relock W s2)) = Some (Inr (Some d))" for d
      using re finish_dir [OF that] ship_ok_same [of d "st_dir (relock W s2)"] by simp
    with True assms(2) loop re show ?thesis
      by (auto simp: ship_session_def Let_def split: sum.splits option.splits)
  qed
qed

end
