(* ===== verification/Delivery.thy ===== *)
theory Delivery
  imports ShipProofs
begin

text \<open>
  What reaches the vault: every request carries its frames under the chain key and is signed by
  the machine, and a vault that accepts everything ends up with every frame. Then what is removed
  afterwards, and enrolment.
\<close>

section \<open>One request\<close>

text \<open>The request carries these frames and entries: whoever has the chain key reads them back.\<close>

definition carries ::
  "crypto_api \<Rightarrow> bytes \<Rightarrow> bytes \<Rightarrow> bytes \<Rightarrow> frames_request \<Rightarrow> bytes \<times> index_entry list \<Rightarrow> bool" where
  "carries c key sid host req batch =
     (case batch of (b, es) \<Rightarrow>
        fr_index req = es \<and> fr_first_seq req = ie_seq (es ! 0) \<and> fr_last_seq req = ie_seq (last es)
        \<and> (case (b64_decode c (fr_nonce req), b64_decode c (fr_ciphertext req)) of
             (Some n, Some ct) \<Rightarrow>
               open_batch c key
                 \<lparr>aad_session_id = sid, aad_host = host, aad_first_seq = fr_first_seq req, aad_last_seq = fr_last_seq req\<rparr>
                 \<lparr>sb_nonce = n, sb_ciphertext = ct\<rparr> = Inr b
           | _ \<Rightarrow> False))"

lemma batch_request_carries:
  assumes "base64_ok c" "zstd_ok c" "aead_ok c"
  shows "carries c key sid host (batch_request W c M sid host key k b es) (b, es)"
  using open_seal_batch [OF assms(2,3), of key "batch_aad_of sid host es" "rnd_nonce W k" b] assms(1)
  by (simp add: carries_def batch_request_def frames_body_def batch_aad_of_def seal_batch_def base64_ok_def Let_def)

lemma batch_request_wraps:
  "fr_wraps (batch_request W c M sid host key k b es) \<noteq> None \<longleftrightarrow> fr_first_seq (batch_request W c M sid host key k b es) = 0"
  by (simp add: batch_request_def frames_body_def Let_def)

text \<open>The headers of a signed request verify against the machine's public key, for what was sent.\<close>

definition signed_by :: "crypto_api \<Rightarrow> bytes \<Rightarrow> bytes \<Rightarrow> http_request \<Rightarrow> bool" where
  "signed_by c public_key path http =
     (case (map_of (rq_headers http) HEADER_MACHINE, map_of (rq_headers http) HEADER_TIMESTAMP,
            map_of (rq_headers http) HEADER_SIGNATURE, map_of (rq_headers http) HEADER_BODY) of
        (Some machine_id, Some ts, Some sig, Some body_hash) \<Rightarrow>
          body_hash = blake3_hex c (rq_body http)
          \<and> (case parse_i64 ts of
               Some t \<Rightarrow> verify_request c public_key (rq_method http) path machine_id t body_hash sig
             | None \<Rightarrow> False)
      | _ \<Rightarrow> False)"

lemmas header_names = HEADER_MACHINE_def HEADER_TIMESTAMP_def HEADER_SIGNATURE_def HEADER_BODY_def

lemma build_request_signed:
  assumes "base64_ok c" "ed25519_ok c" "length key = 32"
    and "build_request c now (Some (key, machine_id)) method server path body = Inr http"
  shows "signed_by c (machine_public_key c key) path http"
    and "map_of (rq_headers http) HEADER_MACHINE = Some machine_id"
    and "rq_body http = body" "rq_uri http = server @ path" "check_server server = Inr ()"
  using assms(4) verify_request_signed [OF assms(1-3)]
  by (auto simp: build_request_def signed_by_def header_names Let_def machine_sign_request_def
      machine_public_key_def split: sum.splits)

lemma send_frames_sent:
  assumes "send_frames W c M path req s = (answer, s1)" "st_sent s1 \<noteq> st_sent s"
  shows "\<exists>http. st_sent s1 = st_sent s @ [(req, http)]
    \<and> build_request c (now_ns W) (Some (m_key M, m_id M)) ''POST'' (m_server M) path (request_json W req) = Inr http"
  using assms by (auto simp: send_frames_def split: sum.splits ship_error.splits)

section \<open>A vault that accepts everything\<close>

definition accepting :: "ship_world \<Rightarrow> bool" where
  "accepting W \<longleftrightarrow> (\<forall>k. \<exists>body. net_reply W k = Reply 200 body) \<and> (\<forall>k d. meanwhile W k d = d)"

lemma relock_quiet: "accepting W \<Longrightarrow> relock W s = s\<lparr>st_clock := Suc (st_clock s)\<rparr>"
  by (simp add: accepting_def relock_def)

lemma send_frames_accepted:
  assumes "accepting W" "check_server (m_server M) = Inr ()"
  shows "\<exists>body http. send_frames W c M path req s =
    (Reply 200 body, s\<lparr>st_sent := st_sent s @ [(req, http)], st_clock := Suc (st_clock s)\<rparr>)"
  using assms unfolding accepting_def
  by (auto simp: send_frames_def build_request_def)

lemma push_batch_accepted:
  assumes "accepting W" "check_server (m_server M) = Inr ()"
  shows "\<exists>http s1. push_batch W c M sid host P index recover b es s = Inr s1
    \<and> st_dir s1 = (st_dir s)\<lparr>sd_shipped := Some (shipped_line (last es))\<rparr>
    \<and> st_sent s1 = st_sent s @ [(batch_request W c M sid host (pd_key P) (st_clock s) b es, http)]"
proof -
  obtain body http where "send_frames W c M (frames_path sid host)
      (batch_request W c M sid host (pd_key P) (st_clock s) b es) s =
    (Reply 200 body, s\<lparr>st_sent := st_sent s @ [(batch_request W c M sid host (pd_key P) (st_clock s) b es, http)],
       st_clock := Suc (st_clock s)\<rparr>)"
    using send_frames_accepted [OF assms] by blast
  then show ?thesis
    using relock_quiet [OF assms(1)] by (simp add: push_batch_def write_shipped_def)
qed

lemma push_batches_accepted:
  assumes "accepting W" "check_server (m_server M) = Inr ()" "base64_ok c" "zstd_ok c" "aead_ok c"
    and "\<forall>x \<in> set bs. snd x \<noteq> []"
  shows "\<exists>s1 sent. push_batches W c M sid host P index recover bs s = Some (Inr (Some Done), s1)
    \<and> st_dir s1 = (if bs = [] then st_dir s
        else (st_dir s)\<lparr>sd_shipped := Some (shipped_line (last (snd (last bs))))\<rparr>)
    \<and> st_sent s1 = st_sent s @ sent
    \<and> list_all2 (carries c (pd_key P) sid host) (map fst sent) bs"
  using assms(6)
proof (induction bs arbitrary: s)
  case (Cons x bs)
  obtain b es where x: "x = (b, es)" by (cases x)
  let ?req = "batch_request W c M sid host (pd_key P) (st_clock s) b es"
  obtain http s2 where s2: "push_batch W c M sid host P index recover b es s = Inr s2"
    "st_dir s2 = (st_dir s)\<lparr>sd_shipped := Some (shipped_line (last es))\<rparr>" "st_sent s2 = st_sent s @ [(?req, http)]"
    using push_batch_accepted [OF assms(1,2), of c sid host P index recover b es s] by blast
  obtain s1 sent where IH: "push_batches W c M sid host P index recover bs s2 = Some (Inr (Some Done), s1)"
    "st_dir s1 = (if bs = [] then st_dir s2
        else (st_dir s2)\<lparr>sd_shipped := Some (shipped_line (last (snd (last bs))))\<rparr>)"
    "st_sent s1 = st_sent s2 @ sent" "list_all2 (carries c (pd_key P) sid host) (map fst sent) bs"
    using Cons.IH [of s2] Cons.prems by auto
  with s2 x Cons.prems batch_request_carries [OF assms(3-5)] show ?case
    by (intro exI [of _ s1] exI [of _ "(?req, http) # sent"]) simp
qed simp

text \<open>A session with \<open>n\<close> frames of its log acknowledged so far, and its chain key where it should be.\<close>

definition shipped_upto :: "nat \<Rightarrow> bytes list \<Rightarrow> session_dir \<Rightarrow> bool" where
  "shipped_upto n ls d \<longleftrightarrow>
     n \<le> length ls
     \<and> sd_shipped d = (if n = 0 then None else Some (head_line (ls ! (n - 1))))
     \<and> (case sd_chain_key d of None \<Rightarrow> n = 0 | Some key \<Rightarrow> length key = 32)"

definition shipped_head :: "nat \<Rightarrow> bytes list \<Rightarrow> head option" where
  "shipped_head n ls = (if n = 0 then None else Some (head_of (ls ! (n - 1))))"

definition key_in_use :: "ship_world \<Rightarrow> session_dir \<Rightarrow> bytes" where
  "key_in_use W d = (case sd_chain_key d of Some key \<Rightarrow> key | None \<Rightarrow> rnd_chain_key W)"

lemma read_shipped_head:
  assumes "chain_ok H sid None ls" "shipped_upto n ls d"
  shows "read_head (sd_shipped d) = Inr (shipped_head n ls)"
proof (cases "n = 0")
  case False
  then have "n - 1 < length ls" using assms(2) by (auto simp: shipped_upto_def)
  note f = chain_ok_frame [OF assms(1) this]
  from False assms(2) read_head_line [OF f(1,2)] show ?thesis
    by (simp add: shipped_upto_def shipped_head_def)
qed (use assms(2) in \<open>simp add: shipped_upto_def shipped_head_def\<close>)

lemma head_of_differs:
  assumes "chain_ok H sid None ls" "length ls < 2 ^ 64" "i < length ls" "j < length ls" "i \<noteq> j"
  shows "head_of (ls ! i) \<noteq> head_of (ls ! j)"
proof -
  have "(word_of_nat i :: u64) \<noteq> word_of_nat j"
    using assms(2-5) by (metis unat_word_of_nat order_less_trans)
  with chain_ok_frame(3) [OF assms(1,3)] chain_ok_frame(3) [OF assms(1,4)] show ?thesis
    by (simp add: head_of_def)
qed

lemma pending_frames_settled:
  assumes "settled H sid ls d" "shipped_upto n ls d" "n < length ls"
  shows "pending_frames d (shipped_head n ls) = Some (Inr (unlines (drop n ls)))"
proof -
  have chain: "chain_ok H sid None ls" "length ls < 2 ^ 64" and ev: "sd_events d = Some (unlines ls)"
    using assms by (auto simp: settled_def log_is_def split: if_splits)
  show ?thesis
  proof (cases "n = 0")
    case True
    with ev show ?thesis by (simp add: pending_frames_def shipped_head_def)
  next
    case False
    then have i: "n - 1 < length ls" using assms(3) by simp
    have "hd_seq (head_of (ls ! (n - 1))) = word_of_nat (n - 1)"
      using chain_ok_frame(3) [OF chain(1) i] by (simp add: head_of_def)
    with False ev read_after_seq_log [OF chain i] show ?thesis
      by (simp add: pending_frames_def shipped_head_def del: of_nat_diff)
  qed
qed

lemma read_pending_settled:
  assumes "settled H sid ls d" "shipped_upto n ls d" "n < length ls"
  shows "read_pending (rnd_chain_key W) d = Some (Inr (Some
      \<lparr>pd_shipped = shipped_head n ls, pd_frames = unlines (drop n ls), pd_key = key_in_use W d\<rparr>),
    d\<lparr>sd_chain_key := Some (key_in_use W d)\<rparr>)"
proof -
  have chain: "chain_ok H sid None ls" "length ls < 2 ^ 64" and ne: "ls \<noteq> []"
    using assms by (auto simp: settled_def log_is_def)
  note last = chain_last [OF chain(1) ne]
  have hd: "read_head (sd_head d) = Inr (Some (head_of (last ls)))"
    using assms(1) ne read_head_line [OF last(1,2)] by (simp add: settled_def)
  have "shipped_head n ls \<noteq> Some (head_of (last ls))"
    using head_of_differs [OF chain, of "n - 1" "length ls - 1"] assms(3) ne
    by (auto simp: shipped_head_def last_conv_nth)
  moreover have "unlines (drop n ls) \<noteq> []" using assms(3) by simp
  ultimately show ?thesis
    using hd read_shipped_head [OF chain(1) assms(2)] pending_frames_settled [OF assms] assms(2)
    by (cases "sd_chain_key d")
      (auto simp: read_pending_def shipped_upto_def read_chain_key_def key_in_use_def shipped_head_def
        split: if_splits)
qed

lemma verify_pending:
  assumes "chain_ok H sid None ls" "n < length ls"
  shows "verify_segment H sid (shipped_head n ls) (unlines (drop n ls)) = Inr (head_of (last ls))"
proof (cases "n = 0")
  case True
  with assms verify_segment_log [of H sid ls] show ?thesis by (auto simp: shipped_head_def)
next
  case False
  with assms verify_segment_suffix [OF assms(1), of "n - 1"] show ?thesis by (simp add: shipped_head_def)
qed

lemma chain_ok_drop:
  assumes "chain_ok H sid None ls" "n < length ls"
  shows "chain_ok H sid (shipped_head n ls) (drop n ls)"
proof -
  have "list_all one_line (drop n ls)"
    using assms(1) by (auto simp: chain_ok_def list_all_iff dest: in_set_dropD)
  then show ?thesis
    using verify_pending [OF assms] assms(2) by (simp add: verify_segment_unlines_Inr)
qed

lemma batches_parts:
  assumes "length index = length (split_inclusive newline frames)" "batches frames index = Some bs"
  shows "concat (map fst bs) = frames" "concat (map snd bs) = index" "\<forall>x \<in> set bs. snd x \<noteq> []"
proof -
  obtain grps where g: "concat grps = split_inclusive newline frames" "list_all batch_lines grps"
    "list_all2 (\<lambda>(b, es) g. b = concat g \<and> length es = length g) bs grps" "concat (map snd bs) = index"
    using batches_groups [OF assms(1)] assms(2) by auto
  from g(3) have "map fst bs = map concat grps" by (induction rule: list_all2_induct) auto
  moreover have "concat (map concat grps) = concat (concat grps)" for grps :: "bytes list list"
    by (induction grps) simp_all
  ultimately have "concat (map fst bs) = concat (concat grps)" by simp
  then show "concat (map fst bs) = frames" by (simp add: g(1) concat_split_inclusive)
  show "concat (map snd bs) = index" by (rule g(4))
  from g(3,2) show "\<forall>x \<in> set bs. snd x \<noteq> []"
    by (induction rule: list_all2_induct) (auto simp: batch_lines_def)
qed

lemma last_of_batches: "\<forall>x \<in> set bs. snd x \<noteq> [] \<Longrightarrow> bs \<noteq> [] \<Longrightarrow> last (snd (last bs)) = last (concat (map snd bs))"
  by (cases bs rule: rev_cases) auto

lemma push_accepted:
  assumes "accepting W" "check_server (m_server M) = Inr ()" "base64_ok c" "zstd_ok c" "aead_ok c"
    and "chain_ok (blake3_hex c) sid None ls" "n < length ls"
    and "list_all (\<lambda>l. entry l \<noteq> None) ls" "frame_member (unlines (drop n ls)) ''host'' = Some host"
    and "P = \<lparr>pd_shipped = shipped_head n ls, pd_frames = unlines (drop n ls), pd_key = key\<rparr>"
  shows "\<exists>s1 sent bs. push W c M sid P recover s = Some (Inr (Some Done), s1)
    \<and> st_dir s1 = (st_dir s)\<lparr>sd_shipped := Some (head_line (last ls))\<rparr>
    \<and> st_sent s1 = st_sent s @ sent \<and> list_all2 (carries c key sid host) (map fst sent) bs
    \<and> concat (map fst bs) = unlines (drop n ls)
    \<and> verify_linkage (blake3_hex c) (shipped_head n ls) sid (concat (map snd bs)) = Inr (head_of (last ls))"
proof -
  have chain: "chain_ok (blake3_hex c) sid (shipped_head n ls) (drop n ls)"
    using assms(6,7) by (rule chain_ok_drop)
  then have one: "list_all one_line (drop n ls)" by (simp add: chain_ok_def)
  have ne: "drop n ls \<noteq> []" "last (drop n ls) = last ls" using assms(7) by simp_all
  obtain index where index: "build_index (unlines (drop n ls)) = Inr index"
    using entries_total [of "drop n ls" 0] assms(8) one
    by (auto simp: build_index_unlines list_all_iff dest: in_set_dropD)
  note ix = index_of_chain [OF chain ne(1) index]
  have len: "length index = length (split_inclusive newline (unlines (drop n ls)))"
    using ix(1) one by (simp add: split_inclusive_unlines)
  obtain bs where bs: "batches (unlines (drop n ls)) index = Some bs" using batches_groups [OF len] by blast
  note parts = batches_parts [OF len bs]
  have nbs: "bs \<noteq> []" using parts(2) ix(1) ne(1) by auto
  have "shipped_line (last (snd (last bs))) = head_line (last ls)"
  proof -
    have "last index = last (snd (last bs))" using last_of_batches [OF parts(3) nbs] parts(2) by simp
    moreover have "verify_linkage (blake3_hex c) (shipped_head n ls) sid index = Inr (head_of (last ls))"
      using ix(2) ne(2) by simp
    ultimately show ?thesis by (auto simp: verify_linkage_Inr shipped_line_def head_line_def)
  qed
  with push_batches_accepted [OF assms(1-5) parts(3), of sid host P index recover s] nbs
  obtain s1 sent where "push_batches W c M sid host P index recover bs s = Some (Inr (Some Done), s1)"
    "st_dir s1 = (st_dir s)\<lparr>sd_shipped := Some (head_line (last ls))\<rparr>" "st_sent s1 = st_sent s @ sent"
    "list_all2 (carries c (pd_key P) sid host) (map fst sent) bs"
    by auto
  moreover have "push W c M sid P recover s = push_batches W c M sid host P index recover bs s"
    using verify_pending [OF assms(6,7)] index assms(9) bs by (simp add: push_def assms(10))
  moreover have "verify_linkage (blake3_hex c) (shipped_head n ls) sid (concat (map snd bs)) = Inr (head_of (last ls))"
    using ix(2) ne(2) parts(2) by simp
  ultimately show ?thesis
    using parts(1) assms(10) by (intro exI [of _ s1] exI [of _ sent] exI [of _ bs]) simp
qed

lemma session_loop_accepted:
  assumes "accepting W" "check_server (m_server M) = Inr ()" "base64_ok c" "zstd_ok c" "aead_ok c"
    and "settled (blake3_hex c) sid ls (st_dir s)" "shipped_upto n ls (st_dir s)" "n < length ls"
    and "list_all (\<lambda>l. entry l \<noteq> None) ls" "frame_member (unlines (drop n ls)) ''host'' = Some host"
  shows "\<exists>s1 sent bs. session_loop W c M sid True s = Some (Inr Done, s1)
    \<and> st_dir s1 = (st_dir s)\<lparr>sd_chain_key := Some (key_in_use W (st_dir s)), sd_shipped := Some (head_line (last ls))\<rparr>
    \<and> st_sent s1 = st_sent s @ sent
    \<and> list_all2 (carries c (key_in_use W (st_dir s)) sid host) (map fst sent) bs
    \<and> concat (map fst bs) = unlines (drop n ls)
    \<and> verify_linkage (blake3_hex c) (shipped_head n ls) sid (concat (map snd bs)) = Inr (head_of (last ls))"
proof -
  let ?P = "\<lparr>pd_shipped = shipped_head n ls, pd_frames = unlines (drop n ls), pd_key = key_in_use W (st_dir s)\<rparr>"
  let ?d = "(st_dir s)\<lparr>sd_chain_key := Some (key_in_use W (st_dir s))\<rparr>"
  let ?t = "s\<lparr>st_clock := Suc (st_clock s), st_dir := ?d\<rparr>"
  have chain: "chain_ok (blake3_hex c) sid None ls"
    using assms(6) by (simp add: settled_def log_is_def)
  obtain s1 sent bs where s1: "push W c M sid ?P True ?t = Some (Inr (Some Done), s1)"
    "st_dir s1 = (st_dir ?t)\<lparr>sd_shipped := Some (head_line (last ls))\<rparr>" "st_sent s1 = st_sent ?t @ sent"
    "list_all2 (carries c (key_in_use W (st_dir s)) sid host) (map fst sent) bs"
    "concat (map fst bs) = unlines (drop n ls)"
    "verify_linkage (blake3_hex c) (shipped_head n ls) sid (concat (map snd bs)) = Inr (head_of (last ls))"
    using push_accepted [OF assms(1-5) chain assms(8-10) refl, of "key_in_use W (st_dir s)" True ?t] by blast
  then have "session_loop W c M sid True s = Some (Inr Done, s1)"
    using relock_quiet [OF assms(1), of s] read_pending_settled [OF assms(6-8), of W]
    by (simp add: session_loop.simps [of W c M sid True s])
  with s1 show ?thesis by (intro exI [of _ s1] exI [of _ sent] exI [of _ bs]) simp
qed

section \<open>Any vault\<close>

text \<open>\<^verbatim>\<open>shipped\<close> moves only on an acknowledgement, or to a frame the vault names by our own hash.\<close>

lemma push_batch_shipped:
  assumes "push_batch W c M sid host P index recover b es s = Inl (r, s1)" "accepting W \<or> (\<forall>k d. meanwhile W k d = d)"
  shows "sd_shipped (st_dir s1) = sd_shipped (st_dir s)
    \<or> (r = Inr None \<and> recover \<and> (\<exists>conflict e. conflict_ours index (pd_shipped P) conflict = Some e
          \<and> sd_shipped (st_dir s1) = Some (shipped_line e)))"
proof -
  obtain answer s2 where a: "send_frames W c M (frames_path sid host)
      (batch_request W c M sid host (pd_key P) (st_clock s) b es) s = (answer, s2)" by fastforce
  show ?thesis
    using assms send_frames_dir [OF a]
    by (auto simp: push_batch_def on_conflict_def a Let_def write_shipped_def accepting_def relock_def
        split: reply.splits if_splits option.splits prod.splits) blast+
qed

lemma push_batch_acked:
  assumes "push_batch W c M sid host P index recover b es s = Inr s1"
  shows "(\<exists>body. net_reply W (st_clock s) = Reply 200 body)
    \<and> sd_shipped (st_dir s1) = Some (shipped_line (last es))"
proof -
  obtain answer s2 where a: "send_frames W c M (frames_path sid host)
      (batch_request W c M sid host (pd_key P) (st_clock s) b es) s = (answer, s2)" by fastforce
  from assms obtain body where b: "answer = Reply 200 body" "s1 = write_shipped (shipped_line (last es)) (relock W s2)"
    by (auto simp: push_batch_def a split: reply.splits if_splits option.splits prod.splits)
  with a show ?thesis
    by (auto simp: send_frames_def write_shipped_def split: sum.splits ship_error.splits)
qed

section \<open>Closing, pruning and what they rest on\<close>

lemma finish_prunes:
  assumes "finish now prune_after d = Some (Inr None)"
  obtains after h where "prune_after = Some after" "read_head (sd_shipped d) = Inr h" "read_head (sd_head d) = Inr h"
    "\<exists>line ts. last_frame (sd_events d) = Some (Tail_Frame line) \<and> frame_ts line = Some ts
      \<and> sint (clamp_nanos after) \<le> sint (saturating_sub now ts)"
  using assms
  by (auto simp: finish_def Let_def split: sum.splits option.splits tail.splits if_splits)

lemma finish_settled:
  assumes "settled H sid ls d" "finish now prune_after d = Some (Inr None)"
  shows "ls \<noteq> []" "read_head (sd_shipped d) = Inr (Some (head_of (last ls)))"
    "\<exists>after ts. prune_after = Some after \<and> frame_ts (last ls) = Some ts
      \<and> sint (clamp_nanos after) \<le> sint (saturating_sub now ts)"
proof -
  have log: "log_is H sid ls d" and chain: "chain_ok H sid None ls"
    using assms(1) by (simp_all add: settled_def log_is_def)
  obtain after h where f: "prune_after = Some after" "read_head (sd_shipped d) = Inr h" "read_head (sd_head d) = Inr h"
    "\<exists>line ts. last_frame (sd_events d) = Some (Tail_Frame line) \<and> frame_ts line = Some ts
      \<and> sint (clamp_nanos after) \<le> sint (saturating_sub now ts)"
    using assms(2) by (rule finish_prunes)
  with last_frame_log [OF log] show ne: "ls \<noteq> []" by (auto split: if_splits)
  from f(2,3) assms(1) ne read_head_line [OF chain_last(1,2) [OF chain ne]]
  show "read_head (sd_shipped d) = Inr (Some (head_of (last ls)))" by (simp add: settled_def)
  show "\<exists>after ts. prune_after = Some after \<and> frame_ts (last ls) = Some ts
      \<and> sint (clamp_nanos after) \<le> sint (saturating_sub now ts)"
    using f(1,4) last_frame_log [OF log] ne by auto
qed

lemma finish_keeps_key:
  assumes "settled H sid ls d" "ls \<noteq> []" "finish now prune_after d = Some (Inr (Some d'))"
    and "sd_chain_key d' \<noteq> sd_chain_key d"
  shows "sd_chain_key d' = None" "frame_member (last ls) ''kind'' = Some ''session_end''"
    "read_head (sd_shipped d) = Inr (Some (head_of (last ls)))"
proof -
  have log: "log_is H sid ls d" and chain: "chain_ok H sid None ls"
    using assms(1) by (simp_all add: settled_def log_is_def)
  have hd: "read_head (sd_head d) = Inr (Some (head_of (last ls)))"
    using assms(1,2) read_head_line [OF chain_last(1,2) [OF chain assms(2)]] by (simp add: settled_def)
  from assms(2-4) hd last_frame_log [OF log]
  show "sd_chain_key d' = None" "frame_member (last ls) ''kind'' = Some ''session_end''"
    "read_head (sd_shipped d) = Inr (Some (head_of (last ls)))"
    by (auto simp: finish_def Let_def split: sum.splits option.splits if_splits)
qed

text \<open>
  \<open>finish\<close> compares \<^verbatim>\<open>shipped\<close> with \<^verbatim>\<open>head\<close>, not with the log. After an append that died before it
  wrote \<^verbatim>\<open>head\<close> for the first time both are missing, and the session passes for one the vault
  has every frame of.
\<close>

lemma finish_unshipped:
  assumes "recoverable H sid ls d" "ls \<noteq> []" "sd_head d = None" "sd_shipped d = None"
    and "frame_ts (last ls) = Some ts" "sint (clamp_nanos after) \<le> sint (saturating_sub now ts)"
  shows "finish now (Some after) d = Some (Inr None)"
proof -
  have "log_is H sid ls d" using assms(1) by (simp add: recoverable_def)
  from last_frame_log [OF this] assms(2-6) show ?thesis by (simp add: finish_def)
qed

lemma session_prunes_unshipped:
  assumes "\<forall>k d. meanwhile W k d = d" "recoverable H sid ls d" "ls \<noteq> []" "sd_head d = None" "sd_shipped d = None"
    and "frame_ts (last ls) = Some ts" "sint (clamp_nanos after) \<le> sint (saturating_sub (now_ns W) ts)"
  shows "\<exists>s1. ship_session W c M sid (Some after) (start_state d) = Some (Inr Done, s1, False) \<and> st_sent s1 = []"
proof -
  have "session_loop W c M sid True (start_state d) = Some (Inr Done, (start_state d)\<lparr>st_clock := 1\<rparr>)"
    using assms(1,4) by (simp add: session_loop.simps relock_def start_state_def read_pending_def)
  then show ?thesis
    using finish_unshipped [OF assms(2-7)] assms(1)
    by (simp add: ship_session_def relock_def start_state_def)
qed

text \<open>A chain whose key is gone sends nothing more.\<close>

lemma read_pending_closed:
  assumes "sd_shipped d = Some t" "sd_chain_key d = None" "read_pending fresh d = Some (q, d')"
  shows "d' = d \<and> (q = Inr None \<or> (\<exists>e. q = Inl e))"
  using assms
  by (auto simp: read_pending_def read_chain_key_def dest: read_head_no_file
      split: sum.splits option.splits if_splits)

lemma closed_chain_sends_nothing:
  assumes "\<forall>k d. sd_shipped (meanwhile W k d) = sd_shipped d \<and> sd_chain_key (meanwhile W k d) = sd_chain_key d"
    and "sd_shipped (st_dir s) = Some t" "sd_chain_key (st_dir s) = None"
    and "session_loop W c M sid recover s = Some (r, s1)"
  shows "st_sent s1 = st_sent s" "st_dir s1 = st_dir (relock W s)"
proof -
  let ?s = "relock W s"
  have dir: "sd_shipped (st_dir ?s) = Some t" "sd_chain_key (st_dir ?s) = None" "st_sent ?s = st_sent s"
    using assms(1-3) by (simp_all add: relock_def)
  note step = assms(4) [unfolded session_loop.simps [of W c M sid recover s], unfolded Let_def]
  obtain q d' where rp: "read_pending (rnd_chain_key W) (st_dir ?s) = Some (q, d')"
    using step by (cases "read_pending (rnd_chain_key W) (st_dir ?s)") auto
  from read_pending_closed [OF dir(1,2) rp] step rp dir(3)
  show "st_sent s1 = st_sent s" "st_dir s1 = st_dir ?s" by auto
qed

end
