(* ===== verification/Fleet.thy ===== *)
theory Fleet
  imports Delivery
begin

text \<open>
  The machine level of \<^verbatim>\<open>src/src/ship.rs\<close>: which servers are accepted, what an enrolment
  writes, and a pass over all sessions.
\<close>

section \<open>Which servers are accepted\<close>

text \<open>The host of an authority after RFC 3986: what stands after the user information and before the port.\<close>

definition uri_authority :: "bytes \<Rightarrow> bytes" where
  "uri_authority rest = takeWhile (\<lambda>c. c \<noteq> CHR ''/'' \<and> c \<noteq> CHR ''?'') rest"

definition uri_host :: "bytes \<Rightarrow> bytes" where
  "uri_host rest =
     (let authority = uri_authority rest;
          host_port = (case rsplit_once CHR ''@'' authority of Some (_, h) \<Rightarrow> h | None \<Rightarrow> authority)
      in case rsplit_once CHR '':'' host_port of Some (h, _) \<Rightarrow> h | None \<Rightarrow> host_port)"

lemma check_server_cases:
  "check_server url = Inr () \<longleftrightarrow>
     prefix ''https://'' url \<or> (\<exists>rest. url = ''http://'' @ rest \<and> loopback rest)"
proof (cases "prefix ''https://'' url")
  case False
  then show ?thesis
    by (cases "strip_prefix ''http://'' url") (auto simp: check_server_def strip_prefix_Some)
qed (simp add: check_server_def)

lemma loopback_host:
  assumes "loopback rest" "CHR ''@'' \<notin> set (uri_authority rest)"
  shows "uri_host rest = ''localhost'' \<or> uri_host rest = ''127.0.0.1''"
proof -
  have no_user: "rsplit_once CHR ''@'' (uri_authority rest) = None" 
    using assms(2) by (rule rsplit_once_None [THEN iffD2])
  show ?thesis using assms(1)
    unfolding loopback_def uri_host_def uri_authority_def [symmetric] Let_def no_user by (simp only: option.case)
qed

section \<open>Enrolment\<close>

definition apply_vault_writes :: "vault_write list \<Rightarrow> vault_dir \<Rightarrow> vault_dir" where
  "apply_vault_writes ws d = fold apply_vault_write ws d"

lemma enroll_Inr:
  assumes "enroll c answer req_json parse_response set_json now host seed server token re_enroll d = Inr (ws, machine_id)"
  obtains enrolled :: enroll_response and secret where
    "split_once CHR ''.'' token = Some (set_fingerprint c (srs_set (en_recipients enrolled)), secret)"
    "check_server (trim_slashes server) = Inr ()" "vd_machine_key d = None \<or> re_enroll"
    "machine_id = en_machine_id enrolled"
    "ws = [Write_Machine_Id machine_id, Write_Server (trim_slashes server),
       Write_Recipients (set_json (en_recipients enrolled)), Write_Machine_Key seed]"
proof -
  from assms obtain fp secret where t: "split_once CHR ''.'' token = Some (fp, secret)"
    by (auto simp: enroll_def Let_def split: option.splits)
  with assms have k: "vd_machine_key d = None \<or> re_enroll"
    by (auto simp: enroll_def Let_def split: if_splits)
  have "\<exists>enrolled :: enroll_response. set_fingerprint c (srs_set (en_recipients enrolled)) = fp
      \<and> check_server (trim_slashes server) = Inr () \<and> machine_id = en_machine_id enrolled
      \<and> ws = [Write_Machine_Id machine_id, Write_Server (trim_slashes server),
         Write_Recipients (set_json (en_recipients enrolled)), Write_Machine_Key seed]"
    using assms t
    by (auto simp: enroll_def Let_def build_request_def split: option.splits sum.splits if_splits)
  with t k that show thesis by blast
qed

text \<open>A first enrolment that is interrupted leaves a machine that does not count as enrolled.\<close>

lemma enroll_interrupted:
  assumes "enroll c answer req_json parse_response set_json now host seed server token re_enroll d = Inr (ws, machine_id)"
    and "vd_machine_key d = None" "n < length ws"
  shows "\<exists>e. load_machine parse_set (apply_vault_writes (take n ws) d) = Inl e"
proof -
  obtain a b r where ws: "ws = [Write_Machine_Id a, Write_Server b, Write_Recipients r, Write_Machine_Key seed]"
    using assms(1) by (rule enroll_Inr)
  then consider "n = 0" | "n = 1" | "n = 2" | "n = 3" using assms(3) by force
  then have "vd_machine_key (apply_vault_writes (take n ws) d) = None"
    by cases (simp_all add: ws apply_vault_writes_def assms(2) numeral_2_eq_2 numeral_3_eq_3)
  then show ?thesis by (simp add: load_machine_def)
qed

lemma enroll_loads:
  assumes "enroll c answer req_json parse_response set_json now host seed server token re_enroll d = Inr (ws, machine_id)"
    and "length seed = 32" "\<forall>rs. parse_set (set_json rs) = Some rs"
    and "utf8_valid machine_id" "trim machine_id = machine_id"
    and "utf8_valid (trim_slashes server)" "trim (trim_slashes server) = trim_slashes server"
  shows "\<exists>M secret. load_machine parse_set (apply_vault_writes ws d) = Inr M
    \<and> m_key M = seed \<and> m_id M = machine_id \<and> m_server M = trim_slashes server
    \<and> split_once CHR ''.'' token = Some (set_fingerprint c (srs_set (m_recipients M)), secret)"
proof -
  obtain enrolled :: enroll_response and secret where e: "split_once CHR ''.'' token = Some (set_fingerprint c (srs_set (en_recipients enrolled)), secret)"
    "check_server (trim_slashes server) = Inr ()" "machine_id = en_machine_id enrolled"
    "ws = [Write_Machine_Id machine_id, Write_Server (trim_slashes server),
       Write_Recipients (set_json (en_recipients enrolled)), Write_Machine_Key seed]"
    using assms(1) by (rule enroll_Inr)
  then show ?thesis using assms(2-7)
    by (simp add: load_machine_def apply_vault_writes_def read_text_def)
qed

section \<open>One pass\<close>

lemma run_once_unsigned:
  assumes "load_machine parse_set vd = Inr M" "fetch_recipients c now answer parse_set M = Some rs"
    and "\<not> verify_against c rs (srs_set (m_recipients M))"
  shows "run_once Ws c now answer parse_set set_json prune_after code root names vd ss
    = Some (Inl Unsigned_Recipients, vd, ss)"
  using assms by (simp add: run_once_def)

text \<open>What a pass keeps of every session: its log, or nothing because it was pruned.\<close>

definition fleet_ok :: "(bytes \<Rightarrow> bytes) \<Rightarrow> (bytes \<Rightarrow> bytes list) \<Rightarrow> sessions \<Rightarrow> bool" where
  "fleet_ok H logs ss \<longleftrightarrow> (\<forall>sid d. ss sid = Some d \<longrightarrow> ship_ok H sid (logs sid) d)"

lemma run_sessions_ok:
  assumes "\<forall>sid. appends_only (blake3_hex c) sid (Ws sid)"
    and "run_sessions Ws c M prune_after root names ss r0 = Some (r, ss')"
    and "fleet_ok (blake3_hex c) logs ss" "\<forall>name \<in> set names. ss name \<noteq> None" "distinct names"
  shows "fleet_ok (blake3_hex c) logs ss' \<and> (\<forall>sid. sid \<notin> set names \<longrightarrow> ss' sid = ss sid)"
  using assms(2-5)
proof (induction names arbitrary: ss r0)
  case Nil
  then show ?case by (cases r0) simp
next
  case (Cons name names)
  obtain st un where r0: "r0 = (st, un)" by (cases r0)
  show ?case
  proof (cases "open_in root name")
    case (Inl e)
    with Cons r0 show ?thesis by simp
  next
    case (Inr log)
    then have sid: "sl_session_id log = name"
      by (auto simp: open_in_def split: sum.splits)
    obtain d where d: "ss name = Some d" using Cons.prems(3) by auto
    obtain q s kept where q: "ship_session (Ws name) c M name prune_after (start_state d) = Some (q, s, kept)"
      using Cons.prems(1) r0 Inr d sid by (auto simp: create_dir_def split: option.splits)
    let ?ss = "ss(name := (if kept then Some (st_dir s) else None))"
    obtain r1 where rest: "run_sessions Ws c M prune_after root names ?ss r1 = Some (r, ss')"
      using Cons.prems(1) r0 Inr d sid q by (auto simp: create_dir_def Let_def)
    have "ship_ok (blake3_hex c) name (logs name) (st_dir s)"
      using ship_session_ok [OF assms(1) [rule_format] q] Cons.prems(2) d
      by (simp add: fleet_ok_def start_state_def)
    then have "fleet_ok (blake3_hex c) logs ?ss"
      using Cons.prems(2) by (auto simp: fleet_ok_def)
    moreover have "\<forall>n \<in> set names. ?ss n \<noteq> None" "distinct names" "name \<notin> set names"
      using Cons.prems(3,4) by auto
    ultimately have "fleet_ok (blake3_hex c) logs ss' \<and> (\<forall>sid. sid \<notin> set names \<longrightarrow> ss' sid = ?ss sid)"
      using Cons.IH [OF rest] by blast
    then show ?thesis by simp
  qed
qed

lemma run_once_ok:
  assumes "\<forall>sid. appends_only (blake3_hex c) sid (Ws sid)"
    and "run_once Ws c now answer parse_set set_json prune_after code root names vd ss = Some (r, vd', ss')"
    and "fleet_ok (blake3_hex c) logs ss" "\<forall>name \<in> set names. ss name \<noteq> None" "distinct names"
  shows "fleet_ok (blake3_hex c) logs ss' \<and> (\<forall>sid. sid \<notin> set names \<longrightarrow> ss' sid = ss sid)"
proof -
  consider "ss' = ss"
    | M r1 where "run_sessions Ws c M prune_after root names ss (False, False) = Some (r1, ss')"
    using assms(2) by (auto simp: run_once_def Let_def split: sum.splits option.splits if_splits)
  then show ?thesis using run_sessions_ok [OF assms(1) _ assms(3-5)] assms(3) by cases blast+
qed

text \<open>The exit code tells a divergence or a local failure from a vault that could not be reached.\<close>

definition session_outcome ::
  "(bytes \<Rightarrow> ship_world) \<Rightarrow> crypto_api \<Rightarrow> machine \<Rightarrow> nat option \<Rightarrow> sessions \<Rightarrow> bytes \<Rightarrow> outcome option" where
  "session_outcome Ws c M prune_after ss name =
     (case ship_session (Ws name) c M name prune_after (start_state (create_dir ss name)) of
        None \<Rightarrow> None
      | Some (Inl _, _) \<Rightarrow> Some Stopped
      | Some (Inr out, _) \<Rightarrow> Some out)"

lemma run_sessions_outcomes:
  assumes "run_sessions Ws c M prune_after root names ss (st, un) = Some (Inr (st', un'), ss')" "distinct names"
  shows "(st' \<longleftrightarrow> st \<or> (\<exists>n \<in> set names. session_outcome Ws c M prune_after ss n = Some Stopped))
    \<and> (un' \<longleftrightarrow> un \<or> (\<exists>n \<in> set names. session_outcome Ws c M prune_after ss n = Some Unreachable))"
  using assms
proof (induction names arbitrary: ss st un)
  case (Cons name names)
  from Cons.prems(1) obtain log where log: "open_in root name = Inr log"
    by (auto split: sum.splits)
  then have sid: "sl_session_id log = name"
    by (auto simp: open_in_def split: sum.splits)
  obtain q s kept where q: "ship_session (Ws name) c M name prune_after (start_state (create_dir ss name)) = Some (q, s, kept)"
    using Cons.prems(1) log sid by (auto split: option.splits)
  let ?ss = "ss(name := (if kept then Some (st_dir s) else None))"
  define out where "out = (case q of Inl _ \<Rightarrow> Stopped | Inr out \<Rightarrow> out)"
  have rest: "run_sessions Ws c M prune_after root names ?ss (st \<or> out = Stopped, un \<or> out = Unreachable)
      = Some (Inr (st', un'), ss')"
    using Cons.prems(1) log sid q by (simp add: Let_def out_def)
  have here: "session_outcome Ws c M prune_after ss name = Some out"
    by (simp add: session_outcome_def q out_def split: sum.split)
  have others: "session_outcome Ws c M prune_after ?ss n = session_outcome Ws c M prune_after ss n"
    if "n \<in> set names" for n
    using that Cons.prems(2) by (auto simp: session_outcome_def create_dir_def)
  have same: "(\<exists>n \<in> set names. session_outcome Ws c M prune_after ?ss n = Some x)
      \<longleftrightarrow> (\<exists>n \<in> set names. session_outcome Ws c M prune_after ss n = Some x)" for x
    using others by (intro bex_cong) simp_all
  have "distinct names" using Cons.prems(2) by simp
  from Cons.IH [OF rest this] show ?case unfolding same using here by auto
qed simp

end
