(* ===== verification/SshAgent.thy ===== *)
theory SshAgent
  imports Paths "HOL-Library.Monad_Syntax"
begin

text \<open>
  The ssh-agent protocol of \<^verbatim>\<open>src/src/ssh_agent.rs\<close> and the proxy loop of
  \<^verbatim>\<open>src/src/ssh_proxy.rs\<close>: framing, decoding, the log line for a message, and forwarding. The
  digest of a key blob (\<^verbatim>\<open>sha2\<close>, \<^verbatim>\<open>base64\<close>) and the standard library's \<^verbatim>\<open>{:?}\<close> of a string,
  which depends on Unicode tables, are parameters. A stream is the bytes still to be read from it.
\<close>

section \<open>Numbers and text on the wire\<close>

type_synonym u32 = "32 word"

definition to_be_bytes :: "u32 \<Rightarrow> bytes" where
  "to_be_bytes w = map (\<lambda>k. char_of (unat w div 256 ^ k)) [3, 2, 1, 0]"

definition from_be_bytes :: "char \<Rightarrow> char \<Rightarrow> char \<Rightarrow> char \<Rightarrow> u32" where
  "from_be_bytes a b c d =
     word_of_nat (((of_char a * 256 + of_char b) * 256 + of_char c) * 256 + of_char d)"

section \<open>Frames\<close>

definition MAX_FRAME :: u32 where "MAX_FRAME = 256 * 1024"

datatype frame_error = Unexpected_Eof | Invalid_Data u32

text \<open>\<^verbatim>\<open>read_exact\<close> of \<open>n\<close> bytes: the bytes and what is left.\<close>

definition read_exact :: "nat \<Rightarrow> bytes \<Rightarrow> frame_error + bytes \<times> bytes" where
  "read_exact n s = (if length s < n then Inl Unexpected_Eof else Inr (take n s, drop n s))"

definition read_frame :: "bytes \<Rightarrow> frame_error + bytes \<times> bytes" where
  "read_frame r =
     (case read_exact 4 r of
        Inl e \<Rightarrow> Inl e
      | Inr (b, r1) \<Rightarrow>
          (let len = from_be_bytes (b ! 0) (b ! 1) (b ! 2) (b ! 3) in
           if len = 0 \<or> len > MAX_FRAME then Inl (Invalid_Data len)
           else read_exact (unat len) r1))"

definition write_frame :: "bytes \<Rightarrow> bytes" where
  "write_frame frame = to_be_bytes (word_of_nat (length frame)) @ frame"

section \<open>Message types\<close>

type_synonym u8 = nat

definition type_name :: "u8 \<Rightarrow> bytes option" where
  "type_name kind =
     (if kind = 5 then Some ''FAILURE''
      else if kind = 6 then Some ''SUCCESS''
      else if kind = 11 then Some ''REQUEST_IDENTITIES''
      else if kind = 12 then Some ''IDENTITIES_ANSWER''
      else if kind = 13 then Some ''SIGN_REQUEST''
      else if kind = 14 then Some ''SIGN_RESPONSE''
      else if kind = 17 then Some ''ADD_IDENTITY''
      else if kind = 18 then Some ''REMOVE_IDENTITY''
      else if kind = 19 then Some ''REMOVE_ALL_IDENTITIES''
      else if kind = 20 then Some ''ADD_SMARTCARD_KEY''
      else if kind = 21 then Some ''REMOVE_SMARTCARD_KEY''
      else if kind = 22 then Some ''LOCK''
      else if kind = 23 then Some ''UNLOCK''
      else if kind = 25 then Some ''ADD_ID_CONSTRAINED''
      else if kind = 26 then Some ''ADD_SMARTCARD_KEY_CONSTRAINED''
      else if kind = 27 then Some ''EXTENSION''
      else if kind = 28 then Some ''EXTENSION_FAILURE''
      else None)"

definition USERAUTH_REQUEST :: u8 where "USERAUTH_REQUEST = 50"
definition SESSION_BIND :: bytes where "SESSION_BIND = ''session-bind@openssh.com''"

section \<open>The cursor\<close>

record cursor =
  cur_buf :: bytes
  cur_at :: nat

definition cursor_new :: "bytes \<Rightarrow> cursor" where
  "cursor_new buf = \<lparr>cur_buf = buf, cur_at = 0\<rparr>"

definition cursor_byte :: "cursor \<Rightarrow> (u8 \<times> cursor) option" where
  "cursor_byte c =
     (if cur_at c < length (cur_buf c)
      then Some (of_char (cur_buf c ! cur_at c), c\<lparr>cur_at := cur_at c + 1\<rparr>) else None)"

definition cursor_u32 :: "cursor \<Rightarrow> (u32 \<times> cursor) option" where
  "cursor_u32 c =
     (let i = cur_at c; b = cur_buf c in
      if i + 4 \<le> length b
      then Some (from_be_bytes (b ! i) (b ! (i + 1)) (b ! (i + 2)) (b ! (i + 3)), c\<lparr>cur_at := i + 4\<rparr>)
      else None)"

definition cursor_bytes :: "cursor \<Rightarrow> (bytes \<times> cursor) option" where
  "cursor_bytes c =
     do {
       (n, c1) \<leftarrow> cursor_u32 c;
       let e = cur_at c1 + unat n;
       (if e \<le> length (cur_buf c1)
        then Some (take (unat n) (drop (cur_at c1) (cur_buf c1)), c1\<lparr>cur_at := e\<rparr>) else None)
     }"

section \<open>Decoding\<close>

record ssh_key =
  k_kind :: bytes
  k_fingerprint :: bytes
  k_comment :: "bytes option"

text \<open>\<open>D\<close> is the base64 SHA-256 of a blob.\<close>

definition ssh_key_of :: "(bytes \<Rightarrow> bytes) \<Rightarrow> bytes \<Rightarrow> bytes option \<Rightarrow> ssh_key option" where
  "ssh_key_of D blob comment =
     do {
       (kind, _) \<leftarrow> cursor_bytes (cursor_new blob);
       Some \<lparr>k_kind = from_utf8_lossy kind, k_fingerprint = ''SHA256:'' @ D blob, k_comment = comment\<rparr>
     }"

datatype message =
    RequestIdentities
  | IdentitiesAnswer "ssh_key list"
  | SignRequest ssh_key "bytes option" "bytes option" u32
  | SignResponse nat
  | Success
  | Failure
  | ExtensionFailure
  | SessionBind ssh_key bool
  | Extension bytes
  | Other u8 nat
  | Malformed u8 nat

fun decode_keys :: "(bytes \<Rightarrow> bytes) \<Rightarrow> nat \<Rightarrow> cursor \<Rightarrow> (ssh_key list \<times> cursor) option" where
  "decode_keys D 0 c = Some ([], c)"
| "decode_keys D (Suc n) c =
     do {
       (blob, c1) \<leftarrow> cursor_bytes c;
       (comment, c2) \<leftarrow> cursor_bytes c1;
       k \<leftarrow> ssh_key_of D blob (Some (from_utf8_lossy comment));
       (ks, c3) \<leftarrow> decode_keys D n c2;
       Some (k # ks, c3)
     }"

definition userauth :: "bytes \<Rightarrow> (bytes \<times> bytes) option" where
  "userauth data =
     do {
       (_, c1) \<leftarrow> cursor_bytes (cursor_new data);
       (b, c2) \<leftarrow> cursor_byte c1;
       (if b \<noteq> USERAUTH_REQUEST then None
        else do {
          (user, c3) \<leftarrow> cursor_bytes c2;
          (service, _) \<leftarrow> cursor_bytes c3;
          Some (from_utf8_lossy user, from_utf8_lossy service)
        })
     }"

definition decode :: "(bytes \<Rightarrow> bytes) \<Rightarrow> bytes \<Rightarrow> message option" where
  "decode D frame =
     (case frame of
        [] \<Rightarrow> None
      | k # body \<Rightarrow>
          (let kind = of_char k :: u8; c = cursor_new body in
           if kind = 5 then Some Failure
           else if kind = 6 then Some Success
           else if kind = 28 then Some ExtensionFailure
           else if kind = 11 then Some RequestIdentities
           else if kind = 12 then
             do {
               (n, c1) \<leftarrow> cursor_u32 c;
               (ks, _) \<leftarrow> decode_keys D (unat n) c1;
               Some (IdentitiesAnswer ks)
             }
           else if kind = 13 then
             do {
               (blob, c1) \<leftarrow> cursor_bytes c;
               (data, c2) \<leftarrow> cursor_bytes c1;
               let auth = userauth data;
               key \<leftarrow> ssh_key_of D blob None;
               (flags, _) \<leftarrow> cursor_u32 c2;
               Some (SignRequest key (map_option fst auth) (map_option snd auth) flags)
             }
           else if kind = 14 then
             do {
               (b, _) \<leftarrow> cursor_bytes c;
               Some (SignResponse (length b))
             }
           else if kind = 27 then
             do {
               (b, c1) \<leftarrow> cursor_bytes c;
               let name = from_utf8_lossy b;
               (if name \<noteq> SESSION_BIND then Some (Extension name)
                else do {
                  (hk, c2) \<leftarrow> cursor_bytes c1;
                  host_key \<leftarrow> ssh_key_of D hk None;
                  (_, c3) \<leftarrow> cursor_bytes c2;
                  (_, c4) \<leftarrow> cursor_bytes c3;
                  (fwd, _) \<leftarrow> cursor_byte c4;
                  Some (SessionBind host_key (fwd \<noteq> 0))
                })
             }
           else Some (Other kind (length frame))))"

section \<open>The log line\<close>

text \<open>\<open>dbg\<close> is \<^verbatim>\<open>{:?}\<close> of a string.\<close>

definition show_key :: "(bytes \<Rightarrow> bytes) \<Rightarrow> ssh_key \<Rightarrow> bytes" where
  "show_key dbg k =
     k_kind k @ '' '' @ k_fingerprint k
     @ (case k_comment k of Some c \<Rightarrow> '' '' @ dbg c | None \<Rightarrow> [])"

definition show_type :: "u8 \<Rightarrow> bytes" where
  "show_type kind = (case type_name kind of Some n \<Rightarrow> n | None \<Rightarrow> ''TYPE_'' @ show_nat kind)"

fun show_keys :: "(bytes \<Rightarrow> bytes) \<Rightarrow> bool \<Rightarrow> ssh_key list \<Rightarrow> bytes" where
  "show_keys dbg first [] = []"
| "show_keys dbg first (k # ks) =
     (if first then '': '' else '', '') @ show_key dbg k @ show_keys dbg False ks"

fun show_message :: "(bytes \<Rightarrow> bytes) \<Rightarrow> message \<Rightarrow> bytes" where
  "show_message dbg RequestIdentities = ''REQUEST_IDENTITIES''"
| "show_message dbg (IdentitiesAnswer keys) =
     ''IDENTITIES_ANSWER '' @ show_nat (length keys) @ '' keys'' @ show_keys dbg True keys"
| "show_message dbg (SignRequest k user service flags) =
     ''SIGN_REQUEST key '' @ show_key dbg k
     @ (case user of Some u \<Rightarrow> '' user='' @ u | None \<Rightarrow> [])
     @ (case service of Some s \<Rightarrow> '' service='' @ s | None \<Rightarrow> [])
     @ '' flags='' @ show_nat (unat flags)"
| "show_message dbg (SignResponse len) = ''SIGN_RESPONSE '' @ show_nat len @ '' bytes''"
| "show_message dbg Success = ''SUCCESS''"
| "show_message dbg Failure = ''FAILURE''"
| "show_message dbg ExtensionFailure = ''EXTENSION_FAILURE''"
| "show_message dbg (SessionBind host_key forwarding) =
     ''EXTENSION '' @ SESSION_BIND @ '' host '' @ show_key dbg host_key @ '' forwarding=''
     @ (if forwarding then ''true'' else ''false'')"
| "show_message dbg (Extension name) = ''EXTENSION '' @ name"
| "show_message dbg (Other kind len) = show_type kind @ '' '' @ show_nat len @ '' bytes''"
| "show_message dbg (Malformed kind len) = ''MALFORMED '' @ show_type kind @ '' '' @ show_nat len @ '' bytes''"

definition describe :: "(bytes \<Rightarrow> bytes) \<Rightarrow> (bytes \<Rightarrow> bytes) \<Rightarrow> bytes \<Rightarrow> bytes" where
  "describe D dbg frame =
     show_message dbg
       (case decode D frame of
          Some m \<Rightarrow> m
        | None \<Rightarrow> Malformed (case frame of [] \<Rightarrow> 0 | b # _ \<Rightarrow> of_char b) (length frame))"

section \<open>The proxy\<close>

text \<open>
  \<^verbatim>\<open>proxy\<close>: one connection, over everything the client will send and everything the agent will
  answer. A read that fails ends it, as does the end of either stream; writes reach their reader.
  The result is what the agent was sent, what the client was sent, and the messages noted.
\<close>

record proxied =
  to_agent :: bytes
  to_client :: bytes
  noted :: "(char \<times> bytes) list"

lemma read_frame_shorter: "read_frame r = Inr (f, r') \<Longrightarrow> length r' < length r"
  by (auto simp: read_frame_def read_exact_def Let_def split: if_splits)

function proxy :: "bytes \<Rightarrow> bytes \<Rightarrow> proxied \<Rightarrow> proxied" where
  "proxy client agent p =
     (case read_frame client of
        Inl _ \<Rightarrow> p
      | Inr (request, client1) \<Rightarrow>
          (let p1 = p\<lparr>noted := noted p @ [(CHR ''>'', request)], to_agent := to_agent p @ write_frame request\<rparr>
           in case read_frame agent of
                Inl _ \<Rightarrow> p1
              | Inr (reply, agent1) \<Rightarrow>
                  proxy client1 agent1
                    (p1\<lparr>noted := noted p1 @ [(CHR ''<'', reply)], to_client := to_client p1 @ write_frame reply\<rparr>)))"
  by pat_completeness auto
termination
  by (relation "measure (\<lambda>(client, agent, p). length client)") (auto dest: read_frame_shorter)

declare proxy.simps [simp del]

section \<open>Lemmas\<close>

lemma be_digits:
  fixes n :: nat
  assumes "n < 2 ^ 32"
  shows "((n div 256 ^ 3 mod 256 * 256 + n div 256 ^ 2 mod 256) * 256 + n div 256 mod 256) * 256 + n mod 256 = n"
proof -
  have d: "n div 256 ^ 2 = n div 256 div 256" "n div 256 ^ 3 = n div 256 div 256 div 256"
    by (simp_all add: div_mult2_eq power2_eq_square power3_eq_cube flip: div_mult2_eq)
  have "n div 256 div 256 div 256 < 256" using assms by (simp add: div_less_iff_less_mult flip: div_mult2_eq)
  then have "n div 256 div 256 div 256 mod 256 * 256 + n div 256 div 256 mod 256 = n div 256 div 256" by simp
  then show ?thesis unfolding d by simp
qed

lemma length_to_be_bytes [simp]: "length (to_be_bytes w) = 4"
  by (simp add: to_be_bytes_def)

lemma from_to_be_bytes:
  "from_be_bytes (to_be_bytes w ! 0) (to_be_bytes w ! 1) (to_be_bytes w ! 2) (to_be_bytes w ! 3) = w"
proof -
  have "unat w < 2 ^ 32" using unsigned_less [of w, where ?'a = nat] by simp
  moreover from this have "unat w div 16777216 mod 256 = unat w div 16777216" by simp
  ultimately have "((of_char (to_be_bytes w ! 0) * 256 + of_char (to_be_bytes w ! 1)) * 256 + of_char (to_be_bytes w ! 2)) * 256
      + of_char (to_be_bytes w ! 3) = unat w"
    using be_digits [of "unat w"] by (simp add: to_be_bytes_def numeral_2_eq_2 numeral_3_eq_3)
  then show ?thesis unfolding from_be_bytes_def by simp
qed

lemma of_char_less_256: "(of_char c :: nat) < 256"
  by (cases c) simp

lemma char_of_of_char: "k < 256 \<Longrightarrow> (of_char (char_of (k :: nat)) :: nat) = k"
  by simp

lemma be_parts:
  fixes a b c d :: nat
  assumes "a < 256" "b < 256" "c < 256" "d < 256"
  defines "n \<equiv> ((a * 256 + b) * 256 + c) * 256 + d"
  shows "n < 2 ^ 32" "n div 256 ^ 3 = a" "n div 256 ^ 2 mod 256 = b" "n div 256 mod 256 = c" "n mod 256 = d"
proof -
  have dm: "(x * 256 + y) div 256 = x" "(x * 256 + y) mod 256 = y" if "y < 256" for x y :: nat
    using that by simp_all
  have q1: "n div 256 = (a * 256 + b) * 256 + c" "n mod 256 = d"
    unfolding n_def using assms(4) by (rule dm)+
  have q2: "n div 256 div 256 = a * 256 + b" "n div 256 mod 256 = c"
    unfolding q1 using assms(3) by (rule dm)+
  have q3: "n div 256 div 256 div 256 = a" "n div 256 div 256 mod 256 = b"
    unfolding q2 using assms(2) by (rule dm)+
  show "n mod 256 = d" "n div 256 mod 256 = c" by (rule q1 q2)+
  have "n div 256 ^ 2 = n div 256 div 256" "n div 256 ^ 3 = n div 256 div 256 div 256"
    by (simp_all add: power2_eq_square power3_eq_cube div_mult2_eq)
  with q3 show "n div 256 ^ 3 = a" "n div 256 ^ 2 mod 256 = b" by simp_all
  show "n < 2 ^ 32" using assms(1-4) by (simp add: n_def)
qed

lemma to_from_be_bytes: "to_be_bytes (from_be_bytes a b c d) = [a, b, c, d]"
proof -
  let ?n = "((of_char a * 256 + of_char b) * 256 + of_char c) * 256 + of_char d :: nat"
  note p = be_parts [OF of_char_less_256 of_char_less_256 of_char_less_256 of_char_less_256, of a b c d]
  have u: "unat (from_be_bytes a b c d) = ?n"
    using p(1) by (simp only: from_be_bytes_def unat_of_nat) simp
  have ch: "char_of k = (char_of (k mod 256) :: char)" for k :: nat by simp
  have "to_be_bytes (from_be_bytes a b c d)
    = [char_of (?n div 256 ^ 3), char_of (?n div 256 ^ 2 mod 256), char_of (?n div 256 mod 256), char_of (?n mod 256)]"
    unfolding to_be_bytes_def u by simp
  also have "\<dots> = [a, b, c, d]" unfolding p(2-5) by simp
  finally show ?thesis .
qed

text \<open>A frame comes back from the bytes it was written as, and only from those.\<close>

lemma read_write_frame:
  assumes "f \<noteq> []" "length f \<le> unat MAX_FRAME"
  shows "read_frame (write_frame f @ rest) = Inr (f, rest)"
proof -
  let ?len = "word_of_nat (length f) :: u32"
  have max: "unat MAX_FRAME = 262144" by (simp add: MAX_FRAME_def)
  then have u: "unat ?len = length f" using assms(2) by (simp add: unat_of_nat)
  have pre: "take 4 (write_frame f @ rest) = to_be_bytes ?len" "drop 4 (write_frame f @ rest) = f @ rest"
    by (simp_all add: write_frame_def)
  have "?len \<noteq> 0" using u assms(1) by auto
  moreover have "\<not> ?len > MAX_FRAME" using u assms(2) by (simp add: word_less_nat_alt)
  ultimately show ?thesis
    using u pre from_to_be_bytes [of ?len]
    by (simp add: read_frame_def read_exact_def Let_def write_frame_def)
qed

lemma read_frame_Inr:
  assumes "read_frame r = Inr (f, rest)"
  shows "r = write_frame f @ rest" "f \<noteq> []" "length f \<le> unat MAX_FRAME"
proof -
  have four: "4 \<le> length r" using assms by (auto simp: read_frame_def read_exact_def split: if_splits)
  let ?b = "take 4 r"
  let ?len = "from_be_bytes (?b ! 0) (?b ! 1) (?b ! 2) (?b ! 3)"
  from assms four have len: "?len \<noteq> 0" "\<not> ?len > MAX_FRAME" and
    ex: "unat ?len \<le> length (drop 4 r)" "f = take (unat ?len) (drop 4 r)" "rest = drop (unat ?len) (drop 4 r)"
    by (auto simp: read_frame_def read_exact_def Let_def split: if_splits)
  have lf: "length f = unat ?len" using ex(1,2) by simp
  show "f \<noteq> []" using lf len(1) by (auto simp: unat_eq_zero)
  show "length f \<le> unat MAX_FRAME" using lf len(2) by (simp add: word_less_nat_alt)
  have "?b = [?b ! 0, ?b ! 1, ?b ! 2, ?b ! 3]"
    using four by (intro nth_equalityI) (auto simp: less_Suc_eq numeral_eq_Suc)
  then have "to_be_bytes ?len = ?b" by (simp only: to_from_be_bytes)
  moreover have "word_of_nat (length f) = ?len" using lf by simp
  ultimately have "write_frame f @ rest = ?b @ f @ rest" by (simp only: write_frame_def append_assoc)
  also have "f @ rest = drop 4 r" by (simp only: ex(2,3) append_take_drop_id)
  finally show "r = write_frame f @ rest" by simp
qed

section \<open>The proxy forwards what it notes\<close>

definition forwarded :: "char \<Rightarrow> (char \<times> bytes) list \<Rightarrow> bytes" where
  "forwarded dir ns = concat (map (\<lambda>(d, f). if d = dir then write_frame f else []) ns)"

lemma forwarded_simps [simp]:
  "forwarded dir [] = []"
  "forwarded dir (ns @ ms) = forwarded dir ns @ forwarded dir ms"
  "forwarded dir ((d, f) # ns) = (if d = dir then write_frame f else []) @ forwarded dir ns"
  by (simp_all add: forwarded_def)

lemma proxy_forwards:
  assumes "to_agent p = forwarded CHR ''>'' (noted p)" "to_client p = forwarded CHR ''<'' (noted p)"
  shows "to_agent (proxy client agent p) = forwarded CHR ''>'' (noted (proxy client agent p))
    \<and> to_client (proxy client agent p) = forwarded CHR ''<'' (noted (proxy client agent p))
    \<and> (\<exists>a. to_agent (proxy client agent p) = to_agent p @ a \<and> prefix a client)
    \<and> (\<exists>b. to_client (proxy client agent p) = to_client p @ b \<and> prefix b agent)"
  using assms
proof (induction client agent p rule: proxy.induct)
  case (1 client agent p)
  show ?case
  proof (cases "read_frame client")
    case (Inl e)
    with 1(2,3) show ?thesis by (simp add: proxy.simps [of client agent p])
  next
    case (Inr r)
    then obtain request client1 where req: "read_frame client = Inr (request, client1)" by (cases r) simp
    let ?p1 = "p\<lparr>noted := noted p @ [(CHR ''>'', request)], to_agent := to_agent p @ write_frame request\<rparr>"
    note c = read_frame_Inr(1) [OF req]
    show ?thesis
    proof (cases "read_frame agent")
      case (Inl e)
      then have "proxy client agent p = ?p1" using req by (simp add: proxy.simps [of client agent p])
      with 1(2,3) c show ?thesis by simp
    next
      case (Inr q)
      then obtain reply agent1 where rep: "read_frame agent = Inr (reply, agent1)" by (cases q) simp
      let ?p2 = "?p1\<lparr>noted := noted ?p1 @ [(CHR ''<'', reply)], to_client := to_client ?p1 @ write_frame reply\<rparr>"
      note g = read_frame_Inr(1) [OF rep]
      have eq: "proxy client agent p = proxy client1 agent1 ?p2"
        using req rep by (simp add: proxy.simps [of client agent p])
      define q where "q = proxy client1 agent1 ?p2"
      have p2: "to_agent ?p2 = forwarded CHR ''>'' (noted ?p2)" "to_client ?p2 = forwarded CHR ''<'' (noted ?p2)"
        using 1(2,3) by simp_all
      note ih = 1(1) [OF req refl refl rep refl p2, folded q_def]
      then obtain a b where ab: "to_agent q = to_agent ?p2 @ a" "prefix a client1"
        "to_client q = to_client ?p2 @ b" "prefix b agent1"
        by blast
      then have IH: "to_agent q = forwarded CHR ''>'' (noted q)" "to_client q = forwarded CHR ''<'' (noted q)"
        "to_agent q = to_agent p @ write_frame request @ a" "prefix a client1"
        "to_client q = to_client p @ write_frame reply @ b" "prefix b agent1"
        using ih by simp_all
      have "to_agent q = to_agent p @ (write_frame request @ a)" "prefix (write_frame request @ a) client"
        "to_client q = to_client p @ (write_frame reply @ b)" "prefix (write_frame reply @ b) agent"
        using IH(3-6) by (simp_all add: c g)
      then show ?thesis unfolding eq [folded q_def] using IH(1,2) by blast
    qed
  qed
qed

section \<open>A name is printed as it came\<close>

lemma cursor_bytes_prefixed:
  assumes "length s < 2 ^ 32"
  shows "cursor_bytes (cursor_new (to_be_bytes (word_of_nat (length s)) @ s @ rest)) =
    Some (s, \<lparr>cur_buf = to_be_bytes (word_of_nat (length s)) @ s @ rest, cur_at = 4 + length s\<rparr>)"
proof -
  let ?b = "to_be_bytes (word_of_nat (length s)) @ s @ rest"
  have nth: "?b ! i = to_be_bytes (word_of_nat (length s)) ! i" if "i < 4" for i
    using that by (simp add: nth_append)
  have "cursor_u32 (cursor_new ?b) = Some (word_of_nat (length s), \<lparr>cur_buf = ?b, cur_at = 4\<rparr>)"
    using from_to_be_bytes [of "word_of_nat (length s)"]
    by (simp add: cursor_u32_def cursor_new_def nth numeral_2_eq_2)
  moreover have "unat (word_of_nat (length s) :: u32) = length s" using assms by (simp add: unat_of_nat)
  ultimately show ?thesis by (simp add: cursor_bytes_def)
qed

lemma describe_extension:
  assumes "list_all (byte_in 0 0x7F) s" "length s < 2 ^ 32" "s \<noteq> SESSION_BIND"
  shows "describe D dbg (char_of (27 :: nat) # to_be_bytes (word_of_nat (length s)) @ s) = ''EXTENSION '' @ s"
  using assms cursor_bytes_prefixed [OF assms(2), of "[]"] from_utf8_lossy_ascii [OF assms(1)]
  by (simp add: describe_def decode_def)

end
