(* ===== verification/OpenProxy.thy ===== *)
theory OpenProxy
  imports Paths
begin

text \<open>
  The broker behind the \<^verbatim>\<open>open\<close> shim, \<^verbatim>\<open>src/src/open_proxy.rs\<close>: reading the arguments of a
  request, \<^verbatim>\<open>check\<close>, and the reply and log line of \<^verbatim>\<open>handle\<close>. What the real \<^verbatim>\<open>open\<close> does with a
  URL is a parameter. The lemmas say exactly which requests are handed to it.
\<close>

section \<open>Characters\<close>

text \<open>
  \<^verbatim>\<open>chars().any(|c| c.is_whitespace() || c.is_control())\<close> on UTF-8: a start byte of one character
  is never a later byte of another, so any position may be looked at.
\<close>

definition control1 :: "char \<Rightarrow> bool" where
  "control1 a \<longleftrightarrow> byte_in 0 0x1F a \<or> byte_in 0x7F 0x7F a"

definition control2 :: "char \<Rightarrow> char \<Rightarrow> bool" where
  "control2 a b \<longleftrightarrow> a = CHR 0xC2 \<and> byte_in 0x80 0x9F b"

fun has_space_or_control :: "bytes \<Rightarrow> bool" where
  "has_space_or_control [] = False"
| "has_space_or_control (a # s) =
     (ws1 a \<or> control1 a
      \<or> (case s of [] \<Rightarrow> False
         | b # t \<Rightarrow> ws2 a b \<or> control2 a b \<or> (case t of [] \<Rightarrow> False | c # _ \<Rightarrow> ws3 a b c))
      \<or> has_space_or_control s)"

section \<open>The check\<close>

definition LOOPBACK :: "bytes list" where "LOOPBACK = [''localhost'', ''127.0.0.1'']"

text \<open>\<^verbatim>\<open>rest.split(['/', '?', '#']).next()\<close>.\<close>

definition open_authority :: "bytes \<Rightarrow> bytes" where
  "open_authority rest = takeWhile (\<lambda>c. c \<noteq> CHR ''/'' \<and> c \<noteq> CHR ''?'' \<and> c \<noteq> CHR ''#'') rest"

definition scheme_of :: "bytes \<Rightarrow> (bool \<times> bytes) option" where
  "scheme_of url =
     (case (strip_prefix ''https://'' url, strip_prefix ''http://'' url) of
        (Some rest, _) \<Rightarrow> Some (True, rest)
      | (None, Some rest) \<Rightarrow> Some (False, rest)
      | (None, None) \<Rightarrow> None)"

definition check_open :: "bytes list \<Rightarrow> bytes + bytes" where
  "check_open args =
     (case args of
        [] \<Rightarrow> Inl ''nothing to open''
      | [url] \<Rightarrow>
          if length url > 8 * 1024 then Inl ''URL too long''
          else if has_space_or_control url then Inl ''URL contains whitespace or control characters''
          else (case scheme_of url of
                  None \<Rightarrow> Inl ''only http(s) URLs''
                | Some (secure, rest) \<Rightarrow>
                    (let authority = open_authority rest;
                         (host, port) = (case rsplit_once CHR '':'' authority of
                            Some (h, p) \<Rightarrow> (h, Some p) | None \<Rightarrow> (authority, None))
                     in if host = [] then Inl ''URL has no host''
                        else if \<not> secure \<and> host \<notin> set LOOPBACK then Inl ''http only to localhost''
                        else if \<not> list_all (\<lambda>c. is_ascii_alphanumeric c \<or> c = CHR ''.'' \<or> c = CHR ''-'') host
                        then Inl ''host may only contain letters, digits, dots and hyphens''
                        else if (case port of Some p \<Rightarrow> p = [] \<or> \<not> list_all is_ascii_digit p | None \<Rightarrow> False)
                        then Inl ''port must be a number''
                        else Inr url))
      | _ \<Rightarrow> Inl ''one URL at a time'')"

section \<open>One request\<close>

text \<open>\<^verbatim>\<open>BufRead::lines\<close> up to the first line that is not UTF-8.\<close>

definition read_args :: "bytes \<Rightarrow> bytes list" where
  "read_args request = takeWhile utf8_valid (text_lines request)"

datatype open_status = Exit_Ok | Exit_Status bytes | Spawn_Error bytes

text \<open>What was handed to the opener, the verdict, the reply to the caller and the line of the log.\<close>

record handled =
  h_opened :: "bytes list"
  h_verdict :: bytes
  h_reply :: bytes
  h_log :: bytes

fun join_args :: "bytes list \<Rightarrow> bytes" where
  "join_args [] = []"
| "join_args [a] = a"
| "join_args (a # as) = a @ '' '' @ join_args as"

definition handle_open ::
  "nat \<Rightarrow> (bytes \<Rightarrow> open_status) \<Rightarrow> bytes \<Rightarrow> nat \<Rightarrow> nat \<Rightarrow> bytes \<Rightarrow> handled" where
  "handle_open index opener opener_path at pid request =
     (let args = read_args request;
          (opened, verdict, reply) =
            (case check_open args of
               Inl why \<Rightarrow> ([], ''refuse'', ''refused: '' @ why)
             | Inr url \<Rightarrow>
                 (case opener url of
                    Exit_Ok \<Rightarrow> ([url], ''allow'', ''ok'')
                  | Exit_Status st \<Rightarrow> ([url], ''error'', ''error: '' @ from_utf8_lossy opener_path @ '' exited with '' @ st)
                  | Spawn_Error e \<Rightarrow> ([url], ''error'', ''error: '' @ from_utf8_lossy opener_path @ '': '' @ e)))
      in \<lparr>h_opened = opened, h_verdict = verdict, h_reply = reply @ [newline],
          h_log = show_nat at @ '' '' @ show_nat pid @ '' '' @ show_nat index @ '' '' @ verdict @ '' ''
            @ join_args args @ [newline]\<rparr>)"

section \<open>What is opened\<close>

text \<open>
  The shape of a URL the broker opens: a scheme, a plain host, perhaps a numeric port, and a rest
  that starts a path, a query or a fragment. Plain HTTP only to this machine.
\<close>

definition plain_host :: "bytes \<Rightarrow> bool" where
  "plain_host h \<longleftrightarrow> h \<noteq> [] \<and> list_all (\<lambda>c. is_ascii_alphanumeric c \<or> c = CHR ''.'' \<or> c = CHR ''-'') h"

definition url_tail :: "bytes \<Rightarrow> bool" where
  "url_tail r \<longleftrightarrow> r = [] \<or> hd r \<in> {CHR ''/'', CHR ''?'', CHR ''#''}"

definition opens :: "bytes \<Rightarrow> bool" where
  "opens url \<longleftrightarrow> length url \<le> 8192 \<and> \<not> has_space_or_control url
     \<and> (\<exists>scheme host port tail.
          url = scheme @ host @ port @ tail \<and> (scheme = ''https://'' \<or> scheme = ''http://'' \<and> host \<in> set LOOPBACK)
          \<and> plain_host host
          \<and> (port = [] \<or> (\<exists>digits. port = CHR '':'' # digits \<and> digits \<noteq> [] \<and> list_all is_ascii_digit digits))
          \<and> url_tail tail)"

lemma scheme_of_Some:
  "scheme_of url = Some (secure, rest) \<longleftrightarrow>
    secure \<and> url = ''https://'' @ rest \<or> \<not> secure \<and> url = ''http://'' @ rest"
  by (auto simp: scheme_of_def strip_prefix_Some split: option.splits)

lemma open_authority_tail: "rest = open_authority rest @ drop (length (open_authority rest)) rest"
  "url_tail (drop (length (open_authority rest)) rest)"
proof -
  let ?P = "\<lambda>c. c \<noteq> CHR ''/'' \<and> c \<noteq> CHR ''?'' \<and> c \<noteq> CHR ''#''"
  have d: "drop (length (open_authority rest)) rest = dropWhile ?P rest"
    by (simp add: open_authority_def dropWhile_eq_drop)
  show "rest = open_authority rest @ drop (length (open_authority rest)) rest"
    unfolding d by (simp add: open_authority_def)
  show "url_tail (drop (length (open_authority rest)) rest)"
    unfolding d url_tail_def using hd_dropWhile [of ?P rest] by auto
qed

lemma check_open_Inr:
  "check_open args = Inr url \<Longrightarrow> args = [url]"
  by (auto simp: check_open_def Let_def split: list.splits option.splits if_splits prod.splits)

lemma check_open_opens:
  assumes "check_open [url] = Inr url"
  shows "opens url"
proof -
  from assms obtain secure rest where sch: "scheme_of url = Some (secure, rest)"
    and small: "length url \<le> 8192" "\<not> has_space_or_control url"
    by (cases "scheme_of url") (auto simp: check_open_def split: if_splits)
  let ?a = "open_authority rest" and ?tail = "drop (length (open_authority rest)) rest"
  define scheme where "scheme = (if secure then ''https://'' else ''http://'')"
  have url: "url = scheme @ ?a @ ?tail"
    using sch open_authority_tail(1) [of rest] by (auto simp: scheme_of_Some scheme_def)
  have "\<exists>host port. ?a = host @ port \<and> (secure \<or> host \<in> set LOOPBACK) \<and> plain_host host
      \<and> (port = [] \<or> (\<exists>digits. port = CHR '':'' # digits \<and> digits \<noteq> [] \<and> list_all is_ascii_digit digits))"
  proof (cases "rsplit_once CHR '':'' ?a")
    case None
    with assms sch small show ?thesis
      by (intro exI [of _ ?a] exI [of _ "[]"])
        (auto simp: check_open_def plain_host_def Let_def split: if_splits)
  next
    case (Some hp)
    obtain h p where hp: "hp = (h, p)" by (cases hp)
    with Some have "?a = h @ CHR '':'' # p" by (simp add: rsplit_once_Some)
    with assms sch small Some hp show ?thesis
      by (intro exI [of _ h] exI [of _ "CHR '':'' # p"])
        (auto simp: check_open_def plain_host_def Let_def split: if_splits)
  qed
  then obtain host port where "?a = host @ port" "secure \<or> host \<in> set LOOPBACK" "plain_host host"
    "port = [] \<or> (\<exists>digits. port = CHR '':'' # digits \<and> digits \<noteq> [] \<and> list_all is_ascii_digit digits)"
    by blast
  moreover from this(1) url have "url = scheme @ host @ port @ ?tail" by simp
  moreover have "scheme = ''https://'' \<or> scheme = ''http://'' \<and> host \<in> set LOOPBACK"
    using calculation(2) by (auto simp: scheme_def)
  ultimately show ?thesis
    unfolding opens_def using small open_authority_tail(2) [of rest] by blast
qed

text \<open>And every such URL is opened.\<close>

lemma takeWhile_prefix_tail:
  "list_all P a \<Longrightarrow> t = [] \<or> \<not> P (hd t) \<Longrightarrow> takeWhile P (a @ t) = a"
  by (induction a) (auto, cases t, auto)

lemma opens_check_open:
  assumes "opens url"
  shows "check_open [url] = Inr url"
proof -
  obtain scheme host port tail where small: "length url \<le> 8192" "\<not> has_space_or_control url"
    and url: "url = scheme @ host @ port @ tail"
    and scheme: "scheme = ''https://'' \<or> scheme = ''http://'' \<and> host \<in> set LOOPBACK"
    and host: "plain_host host"
    and port: "port = [] \<or> (\<exists>digits. port = CHR '':'' # digits \<and> digits \<noteq> [] \<and> list_all is_ascii_digit digits)"
    and tail: "url_tail tail"
    using assms unfolding opens_def by blast
  let ?P = "\<lambda>c. c \<noteq> CHR ''/'' \<and> c \<noteq> CHR ''?'' \<and> c \<noteq> CHR ''#''"
  have bad: "\<not> is_ascii_alphanumeric CHR ''/''" "\<not> is_ascii_alphanumeric CHR ''?''"
    "\<not> is_ascii_alphanumeric CHR ''#''" "\<not> is_ascii_alphanumeric CHR '':''"
    by (simp_all add: is_ascii_alphanumeric_def)
  have no: "?P c" "c \<noteq> CHR '':''"
    if "is_ascii_alphanumeric c \<or> c = CHR ''.'' \<or> c = CHR ''-''" for c
    using that bad by auto
  have hostP: "list_all ?P host" "CHR '':'' \<notin> set host"
  proof -
    have h: "is_ascii_alphanumeric c \<or> c = CHR ''.'' \<or> c = CHR ''-''" if "c \<in> set host" for c
      using host that by (simp add: plain_host_def list_all_iff)
    show "list_all ?P host" unfolding list_all_iff using h no(1) by blast
    show "CHR '':'' \<notin> set host" using h no(2) by blast
  qed
  have "is_ascii_alphanumeric c" if "is_ascii_digit c" for c
    using that by (auto simp: is_ascii_alphanumeric_def is_ascii_digit_def)
  then have digit: "?P c" if "is_ascii_digit c" for c using that no(1) by blast
  have portP: "list_all ?P port"
  proof (cases "port = []")
    case False
    with port obtain digits where d: "port = CHR '':'' # digits" "list_all is_ascii_digit digits" by auto
    have "list_all ?P digits" unfolding list_all_iff using d(2) digit by (simp only: list_all_iff) blast
    with d(1) show ?thesis by simp
  qed simp
  have "open_authority ((host @ port) @ tail) = host @ port"
    unfolding open_authority_def
    by (rule takeWhile_prefix_tail) (use hostP portP tail in \<open>auto simp: url_tail_def\<close>)
  then have auth: "open_authority (host @ port @ tail) = host @ port" by simp
  have "scheme_of url = Some (scheme = ''https://'', host @ port @ tail)"
    using scheme url by (auto simp: scheme_of_Some)
  moreover have "rsplit_once CHR '':'' (host @ port) =
    (if port = [] then None else Some (host, tl port))"
  proof (cases "port = []")
    case True
    with hostP(2) show ?thesis by (simp add: rsplit_once_None)
  next
    case False
    with port obtain digits where d: "port = CHR '':'' # digits" "list_all is_ascii_digit digits" by auto
    have "\<not> is_ascii_digit CHR '':''" by (simp add: is_ascii_digit_def)
    with d have "CHR '':'' \<notin> set digits" unfolding list_all_iff by blast
    with d show ?thesis by (simp add: rsplit_once_Some)
  qed
  ultimately show ?thesis
    using small auth host port scheme
    by (auto simp: check_open_def plain_host_def Let_def)
qed

end
