(* ===== verification/HookPrefix.thy ===== *)
theory HookPrefix
  imports HookInput Paths
begin

text \<open>
  The \<^verbatim>\<open>PreToolUse\<close> reply of \<^verbatim>\<open>src/src/hook_prefix.rs\<close>: \<^verbatim>\<open>respond\<close> and
  \<^verbatim>\<open>shell_single_quote\<close>. JSON values and their parser are the parameters of \<^verbatim>\<open>HookInput\<close>;
  the reply is modelled as the members of its \<^verbatim>\<open>hookSpecificOutput\<close> object. A POSIX shell's
  reading of one word is defined here to say what the quoted command means.
\<close>

section \<open>Quoting\<close>

abbreviation squote :: char where "squote \<equiv> CHR 0x27"

definition quote_char :: "char \<Rightarrow> bytes" where
  "quote_char c = (if c = squote then [squote, backslash, squote, squote] else [c])"

definition shell_single_quote :: "bytes \<Rightarrow> bytes" where
  "shell_single_quote s = squote # concat (map quote_char s) @ [squote]"

section \<open>The reply\<close>

datatype 'e prefix_error = PE_Json 'e | PE_Tool_Input | PE_Command

record 'v prefix_reply =
  rp_hook_event_name :: bytes
  rp_permission_decision :: bytes
  rp_permission_reason :: bytes
  rp_updated_input :: "bytes \<rightharpoonup> 'v"

definition bare_path :: "bytes \<Rightarrow> bool" where
  "bare_path s \<longleftrightarrow>
     list_all (\<lambda>c. is_ascii_alphanumeric c \<or> c = CHR ''_'' \<or> c = CHR ''.'' \<or> c = CHR ''/'' \<or> c = CHR ''-'') s"

definition command_prefix :: "bytes \<Rightarrow> bytes" where
  "command_prefix exit =
     (let exit = from_utf8_lossy exit in
      (if bare_path exit then exit else shell_single_quote exit) @ '' -c '')"

text \<open>
  \<open>parse\<close> is \<^verbatim>\<open>serde_json::from_str\<close>, \<open>not_object\<close> the custom error for a payload that is no
  object. The inner \<^const>\<open>None\<close> prints nothing.
\<close>

definition respond ::
  "'v value_api \<Rightarrow> (bytes \<Rightarrow> 'e + 'v) \<Rightarrow> 'e \<Rightarrow> bytes \<Rightarrow> bytes \<Rightarrow> 'e prefix_error + 'v prefix_reply option" where
  "respond api parse not_object payload exit =
     (case parse payload of
        Inl e \<Rightarrow> Inl (PE_Json e)
      | Inr value \<Rightarrow>
     (case as_object api value of
        None \<Rightarrow> Inl (PE_Json not_object)
      | Some obj \<Rightarrow>
          if (case Option.bind (obj ''hook_event_name'') (as_str api) of
                Some name \<Rightarrow> name \<noteq> ''PreToolUse'' | None \<Rightarrow> False) then Inr None
          else if Option.bind (obj ''tool_name'') (as_str api) \<noteq> Some ''Bash'' then Inr None
          else
     (case Option.bind (obj ''tool_input'') (as_object api) of
        None \<Rightarrow> Inl PE_Tool_Input
      | Some input \<Rightarrow>
     (case Option.bind (input ''command'') (as_str api) of
        None \<Rightarrow> Inl PE_Command
      | Some command \<Rightarrow>
          (let pre = command_prefix exit in
           if prefix pre (trim_start command) then Inr None
           else Inr (Some
             \<lparr>rp_hook_event_name = ''PreToolUse'', rp_permission_decision = ''allow'',
              rp_permission_reason = ''nd7: the command runs under this session's sandbox policy'',
              rp_updated_input =
                input(''command'' \<mapsto> of_string api (pre @ shell_single_quote command))\<rparr>))))))"

section \<open>A shell's reading of one word\<close>

text \<open>
  POSIX Shell Command Language 2.2 and 2.3: a word is read up to the first unquoted blank, newline
  or operator character. Between single quotes every character stands for itself; a backslash
  outside them makes the next one do so. \<^const>\<open>None\<close> is anything this reading does not cover: an
  expansion, a double quote, an end inside a quote.
\<close>

definition ends_word :: "char \<Rightarrow> bool" where
  "ends_word c \<longleftrightarrow> c \<in> set '' ;&|<>()'' \<or> c = newline \<or> c = CHR 0x09"

definition special_char :: "char \<Rightarrow> bool" where
  "special_char c \<longleftrightarrow> c \<in> set ''$\"`*?[#~='' "

fun shell_word :: "bool \<Rightarrow> bytes \<Rightarrow> (bytes \<times> bytes) option" where
  "shell_word quoted [] = (if quoted then None else Some ([], []))"
| "shell_word quoted (c # s) =
     (if quoted then
        (if c = squote then shell_word False s
         else map_option (\<lambda>(w, r). (c # w, r)) (shell_word True s))
      else if c = squote then shell_word True s
      else if c = backslash then
        (case s of
           [] \<Rightarrow> None
         | d # t \<Rightarrow> if d = newline then None else map_option (\<lambda>(w, r). (d # w, r)) (shell_word False t))
      else if ends_word c then Some ([], c # s)
      else if special_char c then None
      else map_option (\<lambda>(w, r). (c # w, r)) (shell_word False s))"

lemma shell_word_quoted:
  "shell_word True (concat (map quote_char s) @ squote # rest) =
    map_option (\<lambda>(w, r). (s @ w, r)) (shell_word False rest)"
proof (induction s)
  case Nil
  then show ?case by (cases "shell_word False rest") auto
next
  case (Cons c s)
  then show ?case
    by (cases "shell_word False rest") (auto simp: quote_char_def)
qed

lemma shell_word_end: "rest = [] \<or> ends_word (hd rest) \<Longrightarrow> shell_word False rest = Some ([], rest)"
  by (cases rest) (auto simp: ends_word_def)

lemma shell_single_quote_word:
  assumes "rest = [] \<or> ends_word (hd rest)"
  shows "shell_word False (shell_single_quote s @ rest) = Some (s, rest)"
  using shell_word_quoted [of s rest] shell_word_end [OF assms]
  by (simp add: shell_single_quote_def)

lemma bare_path_word:
  assumes "bare_path s" "rest = [] \<or> ends_word (hd rest)"
  shows "shell_word False (s @ rest) = Some (s, rest)"
  using assms(1)
proof (induction s)
  case Nil
  with shell_word_end [OF assms(2)] show ?case by simp
next
  case (Cons c s)
  have "\<not> is_ascii_alphanumeric squote" "\<not> is_ascii_alphanumeric backslash"
    "\<not> is_ascii_alphanumeric newline" "\<not> is_ascii_alphanumeric (CHR 0x09)"
    by (simp_all add: is_ascii_alphanumeric_def)
  moreover have "list_all (\<lambda>d. \<not> is_ascii_alphanumeric d) '' ;&|<>()$\"`*?[#~=''"
    by (simp add: is_ascii_alphanumeric_def)
  ultimately have "c \<noteq> squote" "c \<noteq> backslash" "\<not> ends_word c" "\<not> special_char c"
    using Cons.prems by (auto simp: bare_path_def ends_word_def special_char_def)
  moreover have "bare_path s" using Cons.prems by (simp add: bare_path_def)
  ultimately show ?case using Cons.IH by simp
qed

text \<open>
  What the rewritten command is, read by a shell: the path of \<^verbatim>\<open>nd7-exec\<close> as text, \<^verbatim>\<open>-c\<close> and the
  command, nothing else.
\<close>

lemma rewritten_words:
  "\<exists>r1 r2. shell_word False (command_prefix exit @ shell_single_quote command) = Some (from_utf8_lossy exit, '' '' @ r1)
    \<and> shell_word False r1 = Some (''-c'', '' '' @ r2) \<and> shell_word False r2 = Some (command, [])"
proof -
  let ?q = "shell_single_quote command" and ?e = "from_utf8_lossy exit"
  have sp: "ends_word CHR '' ''" by (simp add: ends_word_def)
  have first: "shell_word False ((if bare_path ?e then ?e else shell_single_quote ?e) @ '' -c '' @ ?q)
      = Some (?e, '' -c '' @ ?q)"
    using bare_path_word [of ?e "'' -c '' @ ?q"] shell_single_quote_word [of "'' -c '' @ ?q" ?e] sp
    by (cases "bare_path ?e") simp_all
  have "bare_path ''-c''" by (simp add: bare_path_def is_ascii_alphanumeric_def)
  from bare_path_word [OF this, of "'' '' @ ?q"] sp
  have second: "shell_word False (''-c '' @ ?q) = Some (''-c'', '' '' @ ?q)" by simp
  have third: "shell_word False ?q = Some (command, [])"
    using shell_single_quote_word [of "[]" command] by simp
  show ?thesis
    using first second third
    by (intro exI [of _ "''-c '' @ ?q"] exI [of _ ?q]) (simp add: command_prefix_def Let_def)
qed

section \<open>What is answered\<close>

text \<open>A Bash call about to be made, with this input and command.\<close>

definition bash_call :: "'v value_api \<Rightarrow> (bytes \<Rightarrow> 'e + 'v) \<Rightarrow> bytes \<Rightarrow> (bytes \<rightharpoonup> 'v) \<Rightarrow> bytes \<Rightarrow> bool" where
  "bash_call api parse payload input command \<longleftrightarrow>
     (\<exists>value obj. parse payload = Inr value \<and> as_object api value = Some obj
        \<and> (Option.bind (obj ''hook_event_name'') (as_str api) = None
            \<or> Option.bind (obj ''hook_event_name'') (as_str api) = Some ''PreToolUse'')
        \<and> Option.bind (obj ''tool_name'') (as_str api) = Some ''Bash''
        \<and> Option.bind (obj ''tool_input'') (as_object api) = Some input
        \<and> Option.bind (input ''command'') (as_str api) = Some command)"

lemma respond_bash:
  assumes "bash_call api parse payload input command"
  shows "respond api parse not_object payload exit =
    (if prefix (command_prefix exit) (trim_start command) then Inr None
     else Inr (Some
       \<lparr>rp_hook_event_name = ''PreToolUse'', rp_permission_decision = ''allow'',
        rp_permission_reason = ''nd7: the command runs under this session's sandbox policy'',
        rp_updated_input =
          input(''command'' \<mapsto> of_string api (command_prefix exit @ shell_single_quote command))\<rparr>))"
  using assms by (auto simp: bash_call_def respond_def Let_def split: option.splits)

lemma command_prefix_start:
  assumes "exit \<noteq> []"
  shows "trim_start (command_prefix exit @ s) = command_prefix exit @ s"
proof (cases "bare_path (from_utf8_lossy exit)")
  case False
  then show ?thesis
    using trim_start_plain [of squote] by (simp add: command_prefix_def Let_def shell_single_quote_def ws1_def byte_in_def)
next
  case True
  obtain c t where c: "from_utf8_lossy exit = c # t"
    using assms by (cases "from_utf8_lossy exit") simp_all
  from True c have ok: "is_ascii_alphanumeric c \<or> c = CHR ''_'' \<or> c = CHR ''.'' \<or> c = CHR ''/'' \<or> c = CHR ''-''"
    by (simp add: bare_path_def)
  have "c \<notin> {CHR 0xC2, CHR 0xE1, CHR 0xE2, CHR 0xE3}"
  proof -
    have "list_all (\<lambda>d. \<not> is_ascii_alphanumeric d) [CHR 0xC2, CHR 0xE1, CHR 0xE2, CHR 0xE3]"
      by (simp add: is_ascii_alphanumeric_def)
    with ok show ?thesis by auto
  qed
  moreover have "\<not> ws1 c"
  proof -
    have "list_all (\<lambda>d. \<not> ws1 d) ''0123456789abcdefghijklmnopqrstuvwxyzABCDEFGHIJKLMNOPQRSTUVWXYZ_./-''"
      by (simp add: ws1_def byte_in_def)
    moreover have "c \<in> set ''0123456789abcdefghijklmnopqrstuvwxyzABCDEFGHIJKLMNOPQRSTUVWXYZ_./-''"
      using ok unfolding is_ascii_alphanumeric_def by auto
    ultimately show ?thesis unfolding list_all_iff by blast
  qed
  ultimately have "trim_start (c # t @ '' -c '' @ s) = c # t @ '' -c '' @ s" by (intro trim_start_plain)
  with True c show ?thesis by (simp add: command_prefix_def)
qed

end
