(* ===== verification/Samples.thy ===== *)
theory Samples
  imports Fleet SshAgent OpenProxy HookPrefix
begin

text \<open>
  Concrete values of the parameters: functions that behave as the documented hypotheses say, an
  event, a machine and a vault. Each property with hypotheses is applied to them once, so that
  the hypotheses are seen to hold of something.
\<close>

section \<open>Hash and serialiser\<close>

definition H0 :: "bytes \<Rightarrow> bytes" where
  "H0 s = replicate 64 (if length s mod 2 = 0 then CHR ''0'' else CHR ''1'')"

definition js_char :: "char \<Rightarrow> bytes" where
  "js_char c =
     (if c = quote \<or> c = backslash then [backslash, c]
      else if c = newline then [backslash, CHR ''n''] else [c])"

definition js0 :: "bytes \<Rightarrow> bytes" where
  "js0 s = quote # concat (map js_char s) @ [quote]"

definition bj0 :: "'v body \<Rightarrow> bytes" where
  "bj0 b = ''{}''"

lemma hash_hex_H0: "hash_hex H0"
  by (auto simp: hash_hex_def H0_def is_hex64_def list_all_iff is_ascii_hexdigit_def)

lemma json_plain_js_char: "json_plain c \<Longrightarrow> js_char c = [c]"
proof -
  assume p: "json_plain c"
  have "\<not> json_plain quote" "\<not> json_plain backslash" "\<not> json_plain newline"
    by (simp_all add: json_plain_def is_ascii_alphanumeric_def)
  with p have "c \<noteq> quote" "c \<noteq> backslash" "c \<noteq> newline" by blast+
  then show ?thesis by (simp add: js_char_def)
qed

lemma serde_str_js0: "serde_str js0"
proof -
  have "json_chars (concat (map js_char s))" for s
    by (induction s) (auto simp: js_char_def)
  moreover have "concat (map js_char s) = s" if "list_all json_plain s" for s
    using that by (induction s) (auto simp: json_plain_js_char)
  ultimately show ?thesis by (auto simp: serde_str_def js0_def)
qed

lemma serde_body_bj0: "serde_body bj0"
  by (simp add: serde_body_def bj0_def)

lemmas samples_log = serde_str_js0 serde_body_bj0 hash_hex_H0

section \<open>Events\<close>

definition body0 :: "unit body" where
  "body0 = \<lparr>b_cwd = ''/tmp'', b_transcript_path = None, b_hook_event_name = ''Stop'', b_permission_mode = None,
     b_prompt_id = None, b_agent_id = None, b_agent_type = None, b_hook_ppid = Some 7,
     b_detail = D_TurnEnd False None\<rparr>"

definition event0 :: "unit event" where
  "event0 = \<lparr>ev_v = 0, ev_session_id = ''abc'', ev_seq = 0, ev_ts = 5, ev_host = ''box'', ev_source = SOURCE_CLAUDE_CODE,
     ev_kind = K_TurnEnd, ev_prev = [], ev_body = body0, ev_hash = None\<rparr>"

lemma event0_unsealed [simp]: "ev_hash event0 = None"
  by (simp add: event0_def)

text \<open>The first frame of a session \<^verbatim>\<open>abc\<close>, and the directory after it was appended.\<close>

definition frame0 :: bytes where
  "frame0 = next_frame H0 js0 bj0 ''abc'' [] event0"

definition dir0 :: session_dir where
  "dir0 = apply_effects (append_writes frame0) empty_dir"

lemma chain0: "chain_ok H0 ''abc'' None [frame0]"
  using chain_ok_next [OF samples_log event0_unsealed, of "''abc''" "[]"]
  by (simp add: frame0_def chain_ok_def)

lemma settled0: "settled H0 ''abc'' [frame0] dir0"
  using append_writes_settled [of H0 "''abc''" "[]" empty_dir frame0] chain0 settled_empty [of H0 "''abc''"]
  by (simp add: dir0_def settled_def)

lemma entry0: "entry frame0 \<noteq> None"
  using entry_next_frame [OF samples_log event0_unsealed, of "''abc''" "[]"]
  by (simp add: frame0_def chain_ok_def)

lemma index0: "\<exists>index. build_index (unlines [frame0]) = Inr index"
  using entries_total [of "[frame0]" 0] entry0 chain0 build_index_unlines [of "[frame0]"]
  by (auto simp: chain_ok_def)

text \<open>A directory whose head names frames that are gone.\<close>

definition dir_truncated :: session_dir where
  "dir_truncated = empty_dir\<lparr>sd_head := Some (show_head \<lparr>hd_seq = 9, hd_hash = H0 []\<rparr> @ [newline])\<rparr>"

section \<open>Cryptography, a machine and a vault\<close>

definition c0 :: crypto_api where
  "c0 = \<lparr>b64_encode = (\<lambda>s. s), b64_decode = Some, blake3_hex = H0,
     blake3_derive = (\<lambda>context seed. replicate 32 CHR ''d''),
     ed_public = (\<lambda>seed. replicate 32 CHR ''p''), ed_valid_key = (\<lambda>k. True),
     ed_sign = (\<lambda>seed m. replicate 64 CHR ''s''), ed_verify = (\<lambda>k m s. s = replicate 64 CHR ''s''),
     x_public = (\<lambda>sk. replicate 32 CHR ''x''), box_seal = (\<lambda>rand pk m. m), box_unseal = (\<lambda>sk s. Some s),
     zstd_encode = (\<lambda>s. s), zstd_decode = Some,
     aead_encrypt = (\<lambda>k n a m. m), aead_decrypt = (\<lambda>k n a s. Some s)\<rparr>"

lemma crypto0:
  "base64_ok c0" "ed25519_ok c0" "sealed_box_ok c0" "derive_ok c0" "zstd_ok c0" "aead_ok c0"
  by (simp_all add: c0_def base64_ok_def ed25519_ok_def sealed_box_ok_def derive_ok_def zstd_ok_def
      aead_ok_def eq_commute)

lemma blake0 [simp]: "blake3_hex c0 = H0"
  by (simp add: c0_def)

definition seed0 :: bytes where "seed0 = replicate 32 CHR ''k''"

definition admin0 :: admin_key where "admin0 = admin_from_seed c0 seed0"

definition recipients0 :: recipient_set where
  "recipients0 = \<lparr>rs_admins = [admin_public_of c0 admin0], rs_version = 3\<rparr>"

definition signed0 :: signed_recipient_set where
  "signed0 = sign_set c0 recipients0 admin0"

definition machine0 :: machine where
  "machine0 = \<lparr>m_server = ''https://vault.example'', m_id = ''m1'', m_key = seed0, m_recipients = signed0\<rparr>"

lemma machine0_simps [simp]:
  "m_server machine0 = ''https://vault.example''" "m_key machine0 = seed0" "length seed0 = 32"
  by (simp_all add: machine0_def seed0_def)

lemma server0: "check_server (m_server machine0) = Inr ()"
  by (simp add: check_server_def)

definition world0 :: ship_world where
  "world0 = \<lparr>net_reply = (\<lambda>k. Reply 200 []), meanwhile = (\<lambda>k d. d), rnd_chain_key = seed0,
     rnd_nonce = (\<lambda>k. replicate 24 CHR ''n''), rnd_box = (\<lambda>k. []), request_json = (\<lambda>r. []),
     parse_conflict = (\<lambda>b. None), parse_reject = (\<lambda>b. None), now_ns = 1000\<rparr>"

lemma world0_simps [simp]:
  "net_reply world0 k = Reply 200 []" "meanwhile world0 k d = d" "now_ns world0 = 1000"
  by (simp_all add: world0_def)

lemma accepting0: "accepting world0"
  by (simp add: accepting_def)

lemma appends_only0: "appends_only H sid world0"
  unfolding appends_only_def by (auto intro: exI [of _ "[]"])

section \<open>JSON values\<close>

datatype json0 = J_Str bytes | J_Obj "bytes \<Rightarrow> json0 option"

definition api0 :: "json0 value_api" where
  "api0 = \<lparr>as_str = (\<lambda>v. case v of J_Str s \<Rightarrow> Some s | _ \<Rightarrow> None),
     as_object = (\<lambda>v. case v of J_Obj m \<Rightarrow> Some m | _ \<Rightarrow> None),
     of_string = J_Str, of_object = J_Obj\<rparr>"

definition input0 :: "bytes \<Rightarrow> (bytes \<rightharpoonup> json0)" where
  "input0 command = [''command'' \<mapsto> J_Str command, ''timeout'' \<mapsto> J_Str ''5'']"

definition parse0 :: "bytes \<Rightarrow> unit + json0" where
  "parse0 s = Inr (J_Obj [''tool_name'' \<mapsto> J_Str ''Bash'', ''tool_input'' \<mapsto> J_Obj (input0 s)])"

lemma bash_call0: "bash_call api0 parse0 s (input0 s) s"
  by (simp add: bash_call_def api0_def parse0_def input0_def)

end
