(* ===== verification/LogProperties.thy ===== *)
theory LogProperties
  imports Samples
begin

text \<open>
  The properties of the session log: what verification accepts, what an append does, what a crash
  leaves behind, and that the backwards reader computes what a scan of the file would. Each is
  followed, where it has hypotheses, by the same property at the concrete values of
  \<^verbatim>\<open>Samples\<close>.
\<close>

section \<open>Verification\<close>

text \<open>
  C1. \<^verbatim>\<open>verify_segment\<close> accepts a run exactly when it is newline-terminated lines that form a
  chain: every line a sealed frame with the right hash, the positions dense from the expected one,
  every \<^verbatim>\<open>prev\<close> the hash of the frame before; and the head it returns names the last of them.
\<close>
theorem verify_segment_accepts:
  "verify_segment H sid after frames = Inr h \<longleftrightarrow>
     (if frames = [] then after = Some h
      else \<exists>ls. frames = unlines ls \<and> chain_ok H sid after ls \<and> h = head_of (last ls))"
proof (cases "frames = []")
  case True
  then show ?thesis by (cases after) auto
next
  case False
  show ?thesis
  proof
    assume "verify_segment H sid after frames = Inr h"
    from verify_segment_Inr [OF this False] False
    show "if frames = [] then after = Some h
      else \<exists>ls. frames = unlines ls \<and> chain_ok H sid after ls \<and> h = head_of (last ls)" by metis
  next
    assume "if frames = [] then after = Some h
      else \<exists>ls. frames = unlines ls \<and> chain_ok H sid after ls \<and> h = head_of (last ls)"
    with False obtain ls where ls: "frames = unlines ls" "chain_ok H sid after ls" "h = head_of (last ls)" by auto
    with False have "ls \<noteq> []" "list_all one_line ls" by (auto simp: chain_ok_def)
    with ls show "verify_segment H sid after frames = Inr h" by (simp add: verify_segment_unlines_Inr)
  qed
qed

text \<open>
  C2. Tamper evidence. Two logs of one session that verify to the same head, neither as long as
  the 64-bit position, are the same bytes, unless at some position the two logs hold different
  frames that are a collision: two different texts, each what the hash of its frame covers, with
  the same hash.
\<close>
theorem tamper_evident:
  assumes "verify_segment H sid None f = Inr h" "verify_segment H sid None g = Inr h"
    and "f \<noteq> []" "g \<noteq> []" "count_byte newline f < 2 ^ 64" "count_byte newline g < 2 ^ 64"
  shows "f = g \<or> (\<exists>i. let x = sealed_bytes (split_byte newline (butlast f) ! i);
                          y = sealed_bytes (split_byte newline (butlast g) ! i)
                      in i < length (split_byte newline (butlast f)) \<and> x \<noteq> y \<and> H x = H y)"
proof (rule disjCI)
  obtain fs where fs: "fs \<noteq> []" "f = unlines fs" "chain_ok H sid None fs" "h = head_of (last fs)"
    using assms(1,3) by (rule verify_segment_Inr)
  obtain gs where gs: "gs \<noteq> []" "g = unlines gs" "chain_ok H sid None gs" "h = head_of (last gs)"
    using assms(2,4) by (rule verify_segment_Inr)
  have one: "list_all one_line fs" "list_all one_line gs" using fs(3) gs(3) by (simp_all add: chain_ok_def)
  then have lines: "split_byte newline (butlast f) = fs" "split_byte newline (butlast g) = gs"
    using fs(1,2) gs(1,2) by (simp_all add: split_byte_unlines)
  assume "\<not> (\<exists>i. let x = sealed_bytes (split_byte newline (butlast f) ! i);
                          y = sealed_bytes (split_byte newline (butlast g) ! i)
                      in i < length (split_byte newline (butlast f)) \<and> x \<noteq> y \<and> H x = H y)"
  then have no: "sealed_bytes (fs ! i) = sealed_bytes (gs ! i)"
    if "i < length fs" "H (sealed_bytes (fs ! i)) = H (sealed_bytes (gs ! i))" for i
    using that unfolding lines Let_def by blast
  have walks: "walk (check_frame H) 0 fs (genesis_prev H sid) = Inr (hd_seq h + 1, hd_hash h)"
    "walk (check_frame H) 0 gs (genesis_prev H sid) = Inr (hd_seq h + 1, hd_hash h)"
    using fs gs last_seq_Suc [OF fs(3,1)] last_seq_Suc [OF gs(3,1)]
    by (simp_all add: frames.walk_Inr chain_ok_def head_of_def)
  have "length fs < 2 ^ 64" "length gs < 2 ^ 64"
    using one assms(5,6) fs(2) gs(2) by (simp_all add: count_byte_unlines)
  with walks have len: "length fs = length gs" by (rule frames.walk_same_length)
  have "fs = gs"
  proof (rule ccontr)
    assume "fs \<noteq> gs"
    from frames.walk_same_end [OF walks len this] obtain i where
      i: "i < length fs" "fs ! i \<noteq> gs ! i" "frame_hash (fs ! i) = frame_hash (gs ! i)" by blast
    note a = chain_ok_frame [OF fs(3) i(1)] and b = chain_ok_frame [OF gs(3), of i, folded len, OF i(1)]
    have "H (sealed_bytes (fs ! i)) = H (sealed_bytes (gs ! i))"
      using i(3) frame_hash_sealed_bytes [OF a(2)] frame_hash_sealed_bytes [OF b(2)] by simp
    from no [OF i(1) this] sealed_bytes_inject [OF a(1) b(1) a(2) b(2)] i(2) show False by blast
  qed
  then show "f = g" by (simp add: fs(2) gs(2))
qed

lemma verify0: "verify_segment H0 ''abc'' None (unlines [frame0]) = Inr (head_of frame0)"
  using verify_segment_log [OF chain0] by simp

lemma frame0_line: "one_line frame0"
  using chain0 by (simp add: chain_ok_def)

theorem tamper_evident_at:
  "unlines [frame0] = unlines [frame0]
    \<or> (\<exists>i. let x = sealed_bytes (split_byte newline (butlast (unlines [frame0])) ! i);
               y = sealed_bytes (split_byte newline (butlast (unlines [frame0])) ! i)
           in i < length (split_byte newline (butlast (unlines [frame0]))) \<and> x \<noteq> y \<and> H0 x = H0 y)"
  by (rule tamper_evident [OF verify0 verify0])
    (simp_all add: count_byte_0 frame0_line [unfolded one_line_def])

text \<open>
  A run may be verified in pieces: the whole is accepted, or fails, as the second piece does
  after the head the first one ends at.
\<close>
theorem verify_in_pieces:
  assumes "ends_with_newline f" "ends_with_newline g"
  shows "verify_segment H sid after (f @ g) =
    (case verify_segment H sid after f of Inl e \<Rightarrow> Inl e | Inr h \<Rightarrow> verify_segment H sid (Some h) g)"
  using assms by (rule verify_segment_append)

theorem verify_in_pieces_at:
  "verify_segment H0 ''abc'' None (unlines [frame0] @ [newline]) =
    (case verify_segment H0 ''abc'' None (unlines [frame0]) of
       Inl e \<Rightarrow> Inl e | Inr h \<Rightarrow> verify_segment H0 ''abc'' (Some h) [newline])"
  by (rule verify_in_pieces) simp_all

text \<open>
  C10. A sealed event reads back, whatever its strings hold: the line splits at the writer's own
  \<^verbatim>\<open>hash\<close> member, and the byte search finds the envelope's \<^verbatim>\<open>seq\<close> and \<^verbatim>\<open>prev\<close>, not something inside
  a session id, a host or the body; so \<^verbatim>\<open>check_frame\<close> accepts it at its own position and link.
\<close>
theorem sealed_event_checks:
  assumes "serde_str js" "serde_body bj" "hash_hex H" "ev_hash e = None" "is_hex64 (ev_prev e)"
  shows "\<exists>line. seal H js bj e = (line @ [newline], H (event_json js bj e)) \<and> one_line line
    \<and> check_frame H (ev_seq e) line (ev_prev e) = Inr (H (event_json js bj e))"
proof -
  note p = sealed_event_props [OF assms]
  have "check_frame H (ev_seq e) (sealed_event H js bj e) (ev_prev e) = Inr (H (event_json js bj e))"
    using p(2-5) by (simp add: frames.check_Inr)
  with p(1) seal_eq [OF assms(4)] show ?thesis by blast
qed

theorem sealed_event_checks_at:
  "\<exists>line. seal H0 js0 bj0 (event0\<lparr>ev_prev := H0 ''abc'', ev_host := [quote, newline, backslash]\<rparr>)
      = (line @ [newline], H0 (event_json js0 bj0 (event0\<lparr>ev_prev := H0 ''abc'', ev_host := [quote, newline, backslash]\<rparr>)))
    \<and> one_line line
    \<and> check_frame H0 0 line (H0 ''abc'') =
        Inr (H0 (event_json js0 bj0 (event0\<lparr>ev_prev := H0 ''abc'', ev_host := [quote, newline, backslash]\<rparr>)))"
  using sealed_event_checks [OF samples_log, of "event0\<lparr>ev_prev := H0 ''abc'', ev_host := [quote, newline, backslash]\<rparr>"]
    hash_hex_H0 by (simp add: hash_hex_def event0_def)

section \<open>Appending\<close>

text \<open>
  C4. An append to a session whose log is a chain, and whose head is missing, names the last frame
  or names the one before it, succeeds: the log gains exactly the event's frame, sealed at the
  next position and linked to the last frame, and \<^verbatim>\<open>head\<close> names it.
\<close>
theorem append_settles:
  assumes "serde_str js" "serde_body bj" "hash_hex H" "ev_hash e = None"
    and "recoverable H sid ls (create_dir ss sid)" "Suc (length ls) < 2 ^ 64"
  shows "\<exists>d. append_event H js bj sid ss e = Some (ss(sid \<mapsto> d), None)
    \<and> settled H sid (ls @ [next_frame H js bj sid ls e]) d"
  using assms by (rule append_event_recoverable)

theorem append_settles_at:
  "\<exists>d. append_event H0 js0 bj0 ''abc'' [''abc'' \<mapsto> dir0\<lparr>sd_head := None\<rparr>] event0 = Some ([''abc'' \<mapsto> d], None)
    \<and> settled H0 ''abc'' ([frame0] @ [next_frame H0 js0 bj0 ''abc'' [frame0] event0]) d"
proof -
  have "recoverable H0 ''abc'' [frame0] (create_dir [''abc'' \<mapsto> dir0\<lparr>sd_head := None\<rparr>] ''abc'')"
    using settled0 by (simp add: create_dir_def recoverable_def settled_def log_is_def)
  from append_settles [OF samples_log event0_unsealed this] show ?thesis by simp
qed

text \<open>
  An append that is refused writes nothing: the session is as it was, apart from a directory
  that may have been created empty, and no append, refused or not, touches another session.
\<close>
theorem append_touches_one_session:
  assumes "append_event H js bj sid ss e = Some (ss', r)"
  shows "(r \<noteq> None \<longrightarrow> ss' = ss(sid \<mapsto> create_dir ss sid)) \<and> (\<forall>other. other \<noteq> sid \<longrightarrow> ss' other = ss other)"
  using append_event_other [OF assms] append_event_refused [of H js bj sid ss e ss'] assms
  by (cases r) auto

theorem append_touches_one_session_at:
  "append_event H0 js0 bj0 ''abc'' [''abc'' \<mapsto> dir_truncated] event0
      = Some ([''abc'' \<mapsto> dir_truncated], Some (Truncated 9 0))
    \<and> [''abc'' \<mapsto> dir_truncated] = [''abc'' \<mapsto> dir_truncated](''abc'' \<mapsto> create_dir [''abc'' \<mapsto> dir_truncated] ''abc'')
    \<and> [''abc'' \<mapsto> dir_truncated] ''xyz'' = None"
proof -
  have "read_head (sd_head dir_truncated) = Inr (Some \<lparr>hd_seq = 9, hd_hash = H0 []\<rparr>)" "sd_events dir_truncated = None"
    using hash_hex_H0 by (simp_all add: dir_truncated_def hash_hex_def empty_dir_def)
  then have a: "append_event H0 js0 bj0 ''abc'' [''abc'' \<mapsto> dir_truncated] event0
    = Some ([''abc'' \<mapsto> dir_truncated], Some (Truncated 9 0))"
    by (simp add: append_event_def create_dir_def append_frame_def next_link_def)
  with append_touches_one_session [OF a] show ?thesis by simp
qed

text \<open>
  C3. Crash safety. From a session that does not exist yet, whatever the order of appends that
  complete, are refused or die at any byte of any of their writes, the log on disk is a verified
  chain of complete frames, at most followed by part of one frame; and from any such state the
  frames already there stay, in place, whatever comes next.
\<close>
theorem crashes_keep_the_chain:
  assumes "attempts H js bj sid m d0 d" "serde_str js" "serde_body bj" "hash_hex H"
    and "kept_log H sid ls d0" "length ls + m < 2 ^ 64"
  shows "\<exists>ls'. prefix ls ls' \<and> length ls' \<le> length ls + m \<and> chain_ok H sid None ls' \<and> kept_log H sid ls' d"
  using attempts_keep [OF assms] kept_log_chain by blast

theorem crashes_keep_the_chain_at:
  "\<exists>ls'. prefix [] ls' \<and> length ls' \<le> length ([] :: bytes list) + 1 \<and> chain_ok H0 ''abc'' None ls'
    \<and> kept_log H0 ''abc'' ls' (crash 0 5 (append_writes frame0) empty_dir)"
proof (rule crashes_keep_the_chain [OF _ samples_log])
  have e: "recoverable H0 ''abc'' [] empty_dir" by (simp add: settled_recoverable)
  show "attempts H0 js0 (bj0 :: unit body \<Rightarrow> bytes) ''abc'' 1 empty_dir (crash 0 5 (append_writes frame0) empty_dir)"
    using Died [OF Start event0_unsealed append_frame_recoverable [OF samples_log event0_unsealed e]]
    by (simp add: frame0_def)
  show "kept_log H0 ''abc'' [] empty_dir" using e by (simp add: kept_log_def)
qed simp

text \<open>
  A log that ends mid-frame is refused, by an append and by \<^verbatim>\<open>verify\<close>, with the position of
  the frame that was cut short: the number of complete frames before it.
\<close>
theorem torn_log_refused:
  assumes "torn H sid ls d" "ss sid = Some d"
  shows "append_event H js bj sid ss e = Some (ss, Some (TornTail (word_of_nat (length ls))))
    \<and> verify H sid ss = Inl (TornTail (word_of_nat (length ls)))"
  using append_frame_torn [OF assms(1), of js bj e] verify_torn [of H sid ls d ss] assms
  by (simp add: append_event_def create_dir_def fun_upd_idem)

theorem torn_log_refused_at:
  "append_event H0 js0 bj0 ''abc'' [''abc'' \<mapsto> dir0\<lparr>sd_events := Some (unlines [frame0] @ ''{'')\<rparr>] event0
      = Some ([''abc'' \<mapsto> dir0\<lparr>sd_events := Some (unlines [frame0] @ ''{'')\<rparr>],
          Some (TornTail (word_of_nat (length [frame0]))))
    \<and> verify H0 ''abc'' [''abc'' \<mapsto> dir0\<lparr>sd_events := Some (unlines [frame0] @ ''{'')\<rparr>]
      = Inl (TornTail (word_of_nat (length [frame0])))"
proof (rule torn_log_refused)
  have "read_head (sd_head dir0) = Inr (Some (head_of frame0))"
    using settled0 chain_last [OF chain0] by (simp add: settled_def read_head_line)
  then show "torn H0 ''abc'' [frame0] (dir0\<lparr>sd_events := Some (unlines [frame0] @ ''{'')\<rparr>)"
    using chain0 by (auto simp: torn_def intro!: exI [of _ "''{''"])
qed simp

text \<open>
  C24. A second crash before \<^verbatim>\<open>head\<close> was rewritten is not repaired: a log whose head names a frame
  further back than the last but one refuses every append as a stale head, although its frames
  are a verified chain.
\<close>
theorem second_crash_refused:
  assumes "recoverable H sid ls d" "2 \<le> length ls" "sd_head d = Some (head_line (ls ! (length ls - 2)))"
    and "chain_ok H sid None (ls @ [l])" "Suc (length ls) < 2 ^ 64"
  shows "chain_ok H sid None (ls @ [l])
    \<and> sd_events (crash 1 0 (append_writes l) d) = Some (unlines (ls @ [l]))
    \<and> append_frame H js bj sid (crash 1 0 (append_writes l) d) e =
        Some (Inl (HeadStale (word_of_nat (length ls - 2)) (word_of_nat (length ls))))"
proof -
  let ?d = "crash 1 0 (append_writes l) d" and ?i = "length ls - 2"
  have log: "log_is H sid ls d" using assms(1) by (simp add: recoverable_def)
  have grown: "log_is H sid (ls @ [l]) (apply_effect (Append_Events (l @ [newline])) d)"
    using log_is_append_event [OF log assms(4,5)] .
  have ev: "sd_events ?d = Some (unlines (ls @ [l]))" "sd_head ?d = sd_head d"
    using grown by (simp_all add: crash_def append_writes_def apply_effects_def log_is_def)
  have now: "log_is H sid (ls @ [l]) ?d" using grown ev by (simp add: log_is_def)
  have i: "?i + 2 < length (ls @ [l])" "sd_head ?d = Some (head_line ((ls @ [l]) ! ?i))"
    using assms(2,3) ev(2) by (auto simp: nth_append)
  from append_frame_stale [OF now i, of js bj e] assms(4) ev(1) show ?thesis by simp
qed

definition frame1 :: bytes where "frame1 = next_frame H0 js0 bj0 ''abc'' [frame0] event0"

definition frame2 :: bytes where "frame2 = next_frame H0 js0 bj0 ''abc'' [frame0, frame1] event0"

lemma chain1: "chain_ok H0 ''abc'' None [frame0, frame1]"
  using chain_ok_next [OF samples_log event0_unsealed chain0] by (simp add: frame1_def)

lemma chain2: "chain_ok H0 ''abc'' None ([frame0, frame1] @ [frame2])"
  using chain_ok_next [OF samples_log event0_unsealed chain1] by (simp add: frame2_def)

theorem second_crash_refused_at:
  "chain_ok H0 ''abc'' None ([frame0, frame1] @ [frame2])
    \<and> sd_events (crash 1 0 (append_writes frame2) (dir0\<lparr>sd_events := Some (unlines [frame0, frame1])\<rparr>))
        = Some (unlines ([frame0, frame1] @ [frame2]))
    \<and> append_frame H0 js0 bj0 ''abc'' (crash 1 0 (append_writes frame2) (dir0\<lparr>sd_events := Some (unlines [frame0, frame1])\<rparr>)) event0
        = Some (Inl (HeadStale (word_of_nat (length [frame0, frame1] - 2)) (word_of_nat (length [frame0, frame1]))))"
proof (rule second_crash_refused)
  show "recoverable H0 ''abc'' [frame0, frame1] (dir0\<lparr>sd_events := Some (unlines [frame0, frame1])\<rparr>)"
    using settled0 chain1 by (simp add: recoverable_def settled_def log_is_def)
qed (use settled0 chain2 in \<open>simp_all add: settled_def\<close>)

text \<open>
  A session written by this program alone: appending any events to a session that is not
  there yet succeeds each time, \<^verbatim>\<open>verify\<close> then reports exactly that many frames and the last one's
  hash, and no other session has changed.
\<close>
theorem fresh_session_verifies:
  assumes "serde_str js" "serde_body bj" "hash_hex H" "list_all (\<lambda>e. ev_hash e = None) es"
    and "ss sid = None" "es \<noteq> []" "length es < 2 ^ 64"
  shows "\<exists>ss'. append_all H js bj sid ss es = Some ss'
    \<and> verify H sid ss' = Inr \<lparr>rp_frames = word_of_nat (length es),
        rp_last_hash = Some (frame_hash (last (frames_of H js bj sid [] es)))\<rparr>
    \<and> (\<forall>other. other \<noteq> sid \<longrightarrow> ss' other = ss other)"
proof -
  have "settled H sid [] (create_dir ss sid)" using assms(5) by (simp add: create_dir_def)
  from append_all_settled [OF assms(1-4) this] assms(6,7) obtain ss' d where
    ss': "append_all H js bj sid ss es = Some ss'" "settled H sid (frames_of H js bj sid [] es) (create_dir ss' sid)"
    "\<forall>other. other \<noteq> sid \<longrightarrow> ss' other = ss other" "ss' sid = Some d" by auto
  have "frames_of H js bj sid [] es \<noteq> []"
    using length_frames_of [of H js bj sid "[]" es] assms(6) by (metis length_0_conv add_cancel_right_left list.size(3))
  with ss' verify_settled [of H sid "frames_of H js bj sid [] es" d ss'] show ?thesis
    by (intro exI [of _ ss']) (simp add: create_dir_def)
qed

theorem fresh_session_verifies_at:
  "\<exists>ss'. append_all H0 js0 bj0 ''abc'' Map.empty [event0, event0] = Some ss'
    \<and> verify H0 ''abc'' ss' = Inr \<lparr>rp_frames = word_of_nat (length [event0, event0]),
        rp_last_hash = Some (frame_hash (last (frames_of H0 js0 bj0 ''abc'' [] [event0, event0])))\<rparr>
    \<and> (\<forall>other. other \<noteq> ''abc'' \<longrightarrow> ss' other = Map.empty other)"
  by (rule fresh_session_verifies [OF samples_log]) simp_all

text \<open>
  What \<^verbatim>\<open>verify\<close> accepts: the session exists, its log is a chain from genesis, the count it
  reports is the number of its lines, and \<^verbatim>\<open>head\<close> names the last of them, or is missing when there
  is none.
\<close>
theorem verify_sound:
  assumes "verify H sid ss = Inr r"
  shows "\<exists>d ls. ss sid = Some d
    \<and> (case sd_events d of Some f \<Rightarrow> f | None \<Rightarrow> []) = unlines ls \<and> chain_ok H sid None ls
    \<and> rp_frames r = word_of_nat (length ls)
    \<and> rp_last_hash r = (if ls = [] then None else Some (frame_hash (last ls)))
    \<and> read_head (sd_head d) = Inr (if ls = [] then None else Some (head_of (last ls)))"
  using assms by (rule verify_Inr) blast

theorem verify_sound_at:
  "\<exists>d ls. [''abc'' \<mapsto> dir0] ''abc'' = Some d
    \<and> (case sd_events d of Some f \<Rightarrow> f | None \<Rightarrow> []) = unlines ls \<and> chain_ok H0 ''abc'' None ls
    \<and> rp_frames \<lparr>rp_frames = 1, rp_last_hash = Some (frame_hash frame0)\<rparr> = word_of_nat (length ls)
    \<and> rp_last_hash \<lparr>rp_frames = 1, rp_last_hash = Some (frame_hash frame0)\<rparr>
        = (if ls = [] then None else Some (frame_hash (last ls)))
    \<and> read_head (sd_head d) = Inr (if ls = [] then None else Some (head_of (last ls)))"
  by (rule verify_sound [of H0 "''abc''" "[''abc'' \<mapsto> dir0]"])
    (use verify_settled [OF settled0, of "[''abc'' \<mapsto> dir0]"] in simp)

end
