(* ===== verification/VaultProperties.thy ===== *)
theory VaultProperties
  imports Samples
begin

text \<open>
  The properties of the vault's formats: the index agrees with the chain, what is signed and
  authenticated is told apart, a recipient set is what its fingerprint names and what a pinned
  admin signed, and a batch comes back for every recipient.
\<close>

section \<open>The index\<close>

text \<open>
  C26. The vault agrees with the machine. When the machine's \<^verbatim>\<open>verify_segment\<close> accepts frames and an
  index is built from them, the index has one entry for each frame, and \<^verbatim>\<open>verify_linkage\<close>, which
  sees the index alone, accepts it after the same head and ends at the same head.
\<close>
theorem vault_agrees:
  assumes "verify_segment H sid after frames = Inr h" "frames \<noteq> []" "build_index frames = Inr index"
  shows "length index = count_byte newline frames \<and> verify_linkage H after sid index = Inr h"
proof -
  obtain ls where ls: "ls \<noteq> []" "frames = unlines ls" "chain_ok H sid after ls" "h = head_of (last ls)"
    using assms(1,2) by (rule verify_segment_Inr)
  then have "list_all one_line ls" by (simp add: chain_ok_def)
  with ls assms(3) index_of_chain [OF ls(3,1), of index] show ?thesis by (simp add: count_byte_unlines)
qed

theorem vault_agrees_at:
  "\<exists>index. length index = count_byte newline (unlines [frame0])
    \<and> verify_linkage H0 None ''abc'' index = Inr (head_of frame0)"
proof -
  obtain index where "build_index (unlines [frame0]) = Inr index" using index0 by blast
  from vault_agrees [OF verify_segment_log [OF chain0] _ this] show ?thesis by auto
qed

text \<open>
  C32. An index is well typed: from whatever bytes one can be built, it has one entry for each
  newline, and every hash in it is 64 hex digits; so the head the vault's linkage rule ends at can
  be written as a head file, and is read back from it.
\<close>
theorem index_typed:
  assumes "build_index frames = Inr index"
  shows "list_all entry_typed index \<and> length index = count_byte newline frames
    \<and> (verify_linkage H sid after index = Inr h \<longrightarrow> read_head (Some (show_head h @ [newline])) = Inr (Some h))"
proof -
  have "is_hex64 (hd_hash h)" if "verify_linkage H sid after index = Inr h"
  proof -
    have "index \<noteq> []" "hd_hash h = ie_hash (last index)" using that by (simp_all add: verify_linkage_Inr)
    with build_index_typed [OF assms] show ?thesis by (auto simp: list_all_iff entry_typed_def)
  qed
  with build_index_typed [OF assms] show ?thesis by auto
qed

theorem index_typed_at:
  "\<exists>index. list_all entry_typed index \<and> length index = 1
    \<and> (verify_linkage H0 None ''abc'' index = Inr (head_of frame0) \<longrightarrow>
        read_head (Some (show_head (head_of frame0) @ [newline])) = Inr (Some (head_of frame0)))"
proof -
  obtain index where "build_index (unlines [frame0]) = Inr index" using index0 by blast
  from index_typed [OF this, of H0 None "''abc''" "head_of frame0"] show ?thesis
    using count_byte_unlines [of "[frame0]"] chain0 by (auto simp: chain_ok_def)
qed

section \<open>What signatures and seals cover\<close>

text \<open>
  C34. A request's signature names the request: \<^verbatim>\<open>verify_request\<close> accepts what the machine signed,
  and the signed text is that of one method, path, machine, time and body hash only, when the
  first three are single lines.
\<close>
theorem request_signature_binds:
  assumes "base64_ok c" "ed25519_ok c" "length seed = 32"
    and "list_all one_line [m, p, i]" "list_all one_line [m', p', i']"
  shows "verify_request c (machine_public_key c seed) m p i t b (machine_sign_request c seed m p i t b)
    \<and> (request_bytes m p i t b = request_bytes m' p' i' t' b' \<longleftrightarrow> m = m' \<and> p = p' \<and> i = i' \<and> t = t' \<and> b = b')"
  using verify_request_signed [OF assms(1-3)] request_bytes_inject [OF assms(4,5)]
  by (simp add: machine_public_key_def machine_sign_request_def)

theorem request_signature_binds_at:
  "verify_request c0 (machine_public_key c0 seed0) ''GET'' ''/v1'' ''m1'' 7 ''00''
      (machine_sign_request c0 seed0 ''GET'' ''/v1'' ''m1'' 7 ''00'')
    \<and> request_bytes ''GET'' ''/v1'' ''m1'' 7 ''00'' \<noteq> request_bytes ''GET'' ''/v1'' ''m'' 17 ''00''"
  using request_signature_binds [OF crypto0(1,2), of seed0 "''GET''" "''/v1''" "''m1''" "''GET''" "''/v1''" "''m''" 7 "''00''" 17 "''00''"]
  by (simp add: one_line_def)

text \<open>
  The associated data of a batch names its session, its host and its range: two batches with
  the same bytes are the same, whatever their session ids hold. Only the host must be one line. A
  session id with a newline is accepted when a session is opened.
\<close>
theorem aad_binds:
  assumes "one_line (aad_host a)" "one_line (aad_host a')"
  shows "(aad_bytes a = aad_bytes a' \<longleftrightarrow> a = a') \<and> check_session_id [newline] = Inr ()"
  using aad_bytes_inject [OF assms] by (simp add: check_session_id_def)

theorem aad_binds_at:
  "aad_bytes \<lparr>aad_session_id = ''a'' @ newline # ''b'', aad_host = ''c'', aad_first_seq = 0, aad_last_seq = 1\<rparr>
      \<noteq> aad_bytes \<lparr>aad_session_id = ''a'', aad_host = ''b'', aad_first_seq = 0, aad_last_seq = 1\<rparr>
    \<and> check_session_id [newline] = Inr ()"
  using aad_binds [of "\<lparr>aad_session_id = ''a'' @ newline # ''b'', aad_host = ''c'', aad_first_seq = 0, aad_last_seq = 1\<rparr>"
      "\<lparr>aad_session_id = ''a'', aad_host = ''b'', aad_first_seq = 0, aad_last_seq = 1\<rparr>"]
  by (simp add: one_line_def)

section \<open>Recipient sets\<close>

text \<open>
  A fingerprint names a set of admins: the order in which they are listed does not matter, and
  two sets with the same fingerprint are the same, with the same multiplicities, or are a
  collision of BLAKE3.
\<close>
theorem fingerprint_names_set:
  assumes "list_all admin_ok (rs_admins rs)" "list_all admin_ok (rs_admins rs')"
  shows "set_fingerprint c rs = set_fingerprint c rs' \<longleftrightarrow>
    mset (rs_admins rs) = mset (rs_admins rs')
    \<or> set_bytes rs \<noteq> set_bytes rs' \<and> blake3_hex c (set_bytes rs) = blake3_hex c (set_bytes rs')"
proof -
  have fp: "set_fingerprint c r = blake3_hex c (set_bytes r)" for r
    by (simp add: set_fingerprint_def set_bytes_def)
  show ?thesis
    using set_fingerprint_order [of rs rs' c] set_bytes_inject [OF assms] unfolding fp by auto
qed

definition admin1 :: admin_public where
  "admin1 = \<lparr>ap_x25519 = replicate 32 CHR ''1'', ap_ed25519 = replicate 32 CHR ''2''\<rparr>"

definition admin2 :: admin_public where
  "admin2 = \<lparr>ap_x25519 = replicate 32 CHR ''3'', ap_ed25519 = replicate 32 CHR ''4''\<rparr>"

theorem fingerprint_names_set_at:
  "set_fingerprint c0 \<lparr>rs_admins = [admin1, admin2], rs_version = 1\<rparr>
    = set_fingerprint c0 \<lparr>rs_admins = [admin2, admin1], rs_version = 2\<rparr>"
  by (subst fingerprint_names_set) (simp_all add: admin1_def admin2_def admin_ok_def)

text \<open>
  C27. Only a pinned admin replaces the recipients. What a pinned admin signs is accepted, whatever
  its version, an older one too; whatever is accepted bears, under the name of a pinned admin, 64
  bytes that this admin's key verifies for the set's version and fingerprint. And a signature is
  that of one set: put on another set it is accepted only if version and admins are the same, the
  order of the admins apart, or if BLAKE3 has a collision, or if the signature also verifies for
  another text than the one it was made for.
\<close>
theorem pinned_admin_decides:
  assumes "base64_ok c" "ed25519_ok c" "length (ak_ed25519 admin) = 32"
    and "admin_public_of c admin \<in> set (rs_admins pinned)"
    and "inj_on (admin_fingerprint c) (set (rs_admins pinned))"
    and "list_all admin_ok (rs_admins rs)" "list_all admin_ok (rs_admins rs')"
  shows "verify_against c (sign_set c rs admin) pinned
    \<and> (verify_against c s pinned \<longleftrightarrow>
        (\<exists>signer \<in> set (rs_admins pinned). \<exists>raw. admin_fingerprint c signer = srs_signed_by s
          \<and> ed_valid_key c (ap_ed25519 signer) \<and> b64_decode c (srs_signature s) = Some raw \<and> length raw = 64
          \<and> ed_verify c (ap_ed25519 signer) (recipients_bytes c (srs_set s)) raw))
    \<and> (verify_against c ((sign_set c rs admin)\<lparr>srs_set := rs'\<rparr>) pinned \<longleftrightarrow>
        rs_version rs' = rs_version rs
          \<and> (mset (rs_admins rs') = mset (rs_admins rs)
             \<or> set_bytes rs' \<noteq> set_bytes rs \<and> blake3_hex c (set_bytes rs') = blake3_hex c (set_bytes rs))
        \<or> recipients_bytes c rs' \<noteq> recipients_bytes c rs
          \<and> ed_verify c (ed_public c (ak_ed25519 admin)) (recipients_bytes c rs')
              (ed_sign c (ak_ed25519 admin) (recipients_bytes c rs)))"
proof -
  let ?pub = "admin_public_of c admin" and ?seed = "ak_ed25519 admin"
  have one: "find (\<lambda>a. admin_fingerprint c a = admin_fingerprint c signer) (rs_admins pinned) = Some signer"
    if "signer \<in> set (rs_admins pinned)" for signer
    using that assms(5) by (intro find_unique) (auto dest: inj_onD)
  have found: "find (\<lambda>a. admin_fingerprint c a = x) (rs_admins pinned) = Some signer
      \<longleftrightarrow> signer \<in> set (rs_admins pinned) \<and> admin_fingerprint c signer = x" for x signer
    using one [of signer] by (auto simp: find_Some_iff)
  have raw: "verify_ed25519 c k m sig \<longleftrightarrow> (\<exists>raw. ed_valid_key c k \<and> b64_decode c sig = Some raw \<and> length raw = 64
      \<and> ed_verify c k m raw)" for k m sig
    by (auto simp: verify_ed25519_def decode_array_def split: option.split)
  have accepts: "verify_against c s pinned \<longleftrightarrow>
      (\<exists>signer \<in> set (rs_admins pinned). \<exists>raw. admin_fingerprint c signer = srs_signed_by s
          \<and> ed_valid_key c (ap_ed25519 signer) \<and> b64_decode c (srs_signature s) = Some raw \<and> length raw = 64
          \<and> ed_verify c (ap_ed25519 signer) (recipients_bytes c (srs_set s)) raw)" for s
    unfolding verify_against_iff found raw by blast
  have seal: "ed_valid_key c (ed_public c ?seed)" "length (ed_sign c ?seed m) = 64"
      "ed_verify c (ed_public c ?seed) m (ed_sign c ?seed m)" "b64_decode c (b64_encode c x) = Some x" for m x
    using assms(1-3) by (simp_all add: ed25519_ok_def base64_ok_def)
  have moved: "verify_against c ((sign_set c rs admin)\<lparr>srs_set := rs'\<rparr>) pinned
      \<longleftrightarrow> ed_verify c (ed_public c ?seed) (recipients_bytes c rs') (ed_sign c ?seed (recipients_bytes c rs))"
    using one [OF assms(4)] seal
    by (simp add: verify_against_iff sign_set_def raw) (simp add: admin_public_of_def)
  have same: "recipients_bytes c rs' = recipients_bytes c rs \<longleftrightarrow> rs_version rs' = rs_version rs
      \<and> (mset (rs_admins rs') = mset (rs_admins rs)
         \<or> set_bytes rs' \<noteq> set_bytes rs \<and> blake3_hex c (set_bytes rs') = blake3_hex c (set_bytes rs))"
    by (simp add: recipients_bytes_inject fingerprint_names_set [OF assms(7,6)])
  have "verify_against c (sign_set c rs admin) pinned"
    using one [OF assms(4)] by (intro verify_against_signed assms(1-4)) (use assms(4,5) in \<open>auto dest: inj_onD\<close>)
  moreover have "verify_against c ((sign_set c rs admin)\<lparr>srs_set := rs'\<rparr>) pinned
      \<longleftrightarrow> recipients_bytes c rs' = recipients_bytes c rs \<or> recipients_bytes c rs' \<noteq> recipients_bytes c rs
        \<and> ed_verify c (ed_public c ?seed) (recipients_bytes c rs') (ed_sign c ?seed (recipients_bytes c rs))"
    unfolding moved using seal(3) [of "recipients_bytes c rs"] by metis
  ultimately show ?thesis unfolding same using accepts by blast
qed

text \<open>A signature that is the beginning of the text it signs.\<close>

definition c1 :: crypto_api where
  "c1 = c0\<lparr>ed_sign := (\<lambda>seed m. take 64 (m @ replicate 64 CHR ''.'')),
     ed_verify := (\<lambda>k m s. s = take 64 (m @ replicate 64 CHR ''.''))\<rparr>"

theorem pinned_admin_decides_at:
  "verify_against c1 (sign_set c1 (recipients0\<lparr>rs_version := 0\<rparr>) admin0) recipients0 \<and> rs_version recipients0 = 3
    \<and> \<not> verify_against c1 ((sign_set c1 (recipients0\<lparr>rs_version := 0\<rparr>) admin0)\<lparr>srs_set := recipients0\<rparr>) recipients0"
proof -
  let ?old = "recipients0\<lparr>rs_version := 0\<rparr>"
  have ok: "base64_ok c1" "ed25519_ok c1"
    by (simp_all add: c1_def c0_def base64_ok_def ed25519_ok_def min_def)
  have admin: "length (ak_ed25519 admin0) = 32" "admin_public_of c1 admin0 \<in> set (rs_admins recipients0)"
    "inj_on (admin_fingerprint c1) (set (rs_admins recipients0))"
    "list_all admin_ok (rs_admins ?old)" "list_all admin_ok (rs_admins recipients0)"
    by (simp_all add: admin0_def admin_from_seed_def recipients0_def admin_public_of_def c1_def c0_def admin_ok_def seed0_def)
  have "\<not> ed_verify c1 k (recipients_bytes c1 recipients0) (ed_sign c1 seed (recipients_bytes c1 ?old))" for k seed
    by (simp add: c1_def recipients_bytes_def recipients0_def show_u64_def show_nat.simps)
  with pinned_admin_decides [OF ok admin, of "undefined"] show ?thesis
    by (simp add: recipients0_def)
qed

section \<open>Batches\<close>

lemma wraps_lookup:
  assumes "distinct (map (admin_fingerprint c) (rs_admins (srs_set rs)))" "i < length (rs_admins (srs_set rs))"
  shows "wraps c rnd key rs (admin_fingerprint c (rs_admins (srs_set rs) ! i))
    = Some (wrap_for c (rnd i) key (rs_admins (srs_set rs) ! i))"
proof -
  let ?as = "rs_admins (srs_set rs)"
  let ?ps = "rev (map (\<lambda>i. (admin_fingerprint c (?as ! i), wrap_for c (rnd i) key (?as ! i))) [0..<length ?as])"
  have "map fst ?ps = rev (map (admin_fingerprint c) ?as)"
    by (simp add: rev_map comp_def) (metis (no_types) map_nth map_map comp_def rev_map map_eq_conv)
  then have "distinct (map fst ?ps)" using assms(1) by (simp only: distinct_rev)
  moreover have "(admin_fingerprint c (?as ! i), wrap_for c (rnd i) key (?as ! i)) \<in> set ?ps"
    using assms(2) by auto
  ultimately show ?thesis by (simp only: wraps_def Let_def map_of_is_SomeI)
qed

text \<open>
  C33. Every recipient opens the chain: the first batch's \<^verbatim>\<open>wraps\<close> hold, under the fingerprint of
  each admin of the set, a box from which that admin's seed gives back the chain key, and the
  chain key gives back the frames of a batch, byte for byte, under the batch's own associated data.
\<close>
theorem every_recipient_opens:
  assumes "base64_ok c" "sealed_box_ok c" "derive_ok c" "zstd_ok c" "aead_ok c" "length key = 32"
    and "distinct (map (admin_fingerprint c) (rs_admins (srs_set rs)))"
    and "admin_public_of c (admin_from_seed c seed) \<in> set (rs_admins (srs_set rs))"
  shows "\<exists>w. wraps c rnd key rs (admin_fingerprint c (admin_public_of c (admin_from_seed c seed))) = Some w
    \<and> unwrap c (admin_from_seed c seed) w = Inr key
    \<and> open_batch c key aad (seal_batch c nonce key aad frames) = Inr frames"
proof -
  obtain i where i: "i < length (rs_admins (srs_set rs))"
    "rs_admins (srs_set rs) ! i = admin_public_of c (admin_from_seed c seed)"
    using assms(8) by (auto simp: in_set_conv_nth)
  from wraps_lookup [OF assms(7) i(1), of rnd key] unwrap_wrap_for [OF assms(1-3,6), of seed "rnd i"]
    open_seal_batch [OF assms(4,5)] show ?thesis by (simp add: i(2))
qed

theorem every_recipient_opens_at:
  "\<exists>w. wraps c0 (\<lambda>i. []) seed0 signed0 (admin_fingerprint c0 (admin_public_of c0 (admin_from_seed c0 seed0))) = Some w
    \<and> unwrap c0 (admin_from_seed c0 seed0) w = Inr seed0
    \<and> open_batch c0 seed0 \<lparr>aad_session_id = [], aad_host = [], aad_first_seq = 0, aad_last_seq = 0\<rparr>
        (seal_batch c0 [] seed0 \<lparr>aad_session_id = [], aad_host = [], aad_first_seq = 0, aad_last_seq = 0\<rparr> ''x'') = Inr ''x''"
  by (rule every_recipient_opens [OF crypto0(1,3,4,5,6)])
    (simp_all add: signed0_def sign_set_def recipients0_def admin0_def)

end
