(* ===== verification/Brokers.thy ===== *)
theory Brokers
  imports SshAgent OpenProxy
begin

text \<open>
  The two servers of a run, \<^verbatim>\<open>serve\<close> of \<^verbatim>\<open>src/src/ssh_proxy.rs\<close> and of \<^verbatim>\<open>src/src/open_proxy.rs\<close>: a
  listener that gives every connection a number and a thread, and threads that share one log behind
  a mutex. Other runs have servers of their own that append to the same file. What a thread does is
  a list of actions; the step relation interleaves them, down to the single writes of a log line.
\<close>

section \<open>Threads and their log\<close>

text \<open>
  \<^verbatim>\<open>writeln!\<close> on a file writes each literal and each argument of its format on its own: a note is the
  list of those pieces. A \<open>Send\<close> may find the other side gone, which ends the connection.
\<close>

datatype 'e action = Note "bytes list" | Act 'e | Send 'e

record ('c, 'e) thread =
  t_conn :: 'c
  t_done :: "'e action list"
  t_todo :: "'e action list"

text \<open>The threads by the index of their connection, and who is writing which pieces still.\<close>

record ('c, 'e) server =
  sv_threads :: "('c, 'e) thread list"
  sv_lock :: "(nat \<times> bytes list) option"

definition idle_server :: "('c, 'e) server" where
  "idle_server = \<lparr>sv_threads = [], sv_lock = None\<rparr>"

definition start_thread :: "('c \<Rightarrow> 'e action list) \<Rightarrow> 'c \<Rightarrow> ('c, 'e) thread" where
  "start_thread script c = \<lparr>t_conn = c, t_done = [], t_todo = script c\<rparr>"

definition advance :: "nat \<Rightarrow> ('c, 'e) server \<Rightarrow> ('c, 'e) server" where
  "advance i s =
     s\<lparr>sv_threads := (sv_threads s)[i :=
       \<lparr>t_conn = t_conn (sv_threads s ! i),
        t_done = t_done (sv_threads s ! i) @ [hd (t_todo (sv_threads s ! i))],
        t_todo = tl (t_todo (sv_threads s ! i))\<rparr>]\<rparr>"

definition hang_up :: "nat \<Rightarrow> ('c, 'e) server \<Rightarrow> ('c, 'e) server" where
  "hang_up i s = s\<lparr>sv_threads := (sv_threads s)[i := (sv_threads s ! i)\<lparr>t_todo := []\<rparr>]\<rparr>"

definition todo :: "nat \<Rightarrow> ('c, 'e) server \<Rightarrow> 'e action list" where
  "todo i s = (if i < length (sv_threads s) then t_todo (sv_threads s ! i) else [])"

text \<open>
  \<open>script\<close> is what the thread of a connection does; \<open>ok\<close> says that the log can be written. A write that
  fails, after any part of its piece, drops the rest of the line: \<^verbatim>\<open>let _ = writeln!(..)\<close>.
\<close>

inductive server_step ::
  "(nat \<Rightarrow> 'c \<Rightarrow> 'e action list) \<Rightarrow> bool \<Rightarrow> bytes \<times> ('c, 'e) server \<Rightarrow> bytes \<times> ('c, 'e) server \<Rightarrow> bool" for script ok where
  accept: "server_step script ok (l, s)
      (l, s\<lparr>sv_threads := sv_threads s @ [start_thread (script (length (sv_threads s))) c]\<rparr>)"
| act: "todo i s = Act e # as \<Longrightarrow> server_step script ok (l, s) (l, advance i s)"
| send: "todo i s = Send e # as \<Longrightarrow> server_step script ok (l, s) (l, advance i s)"
| gone: "todo i s = Send e # as \<Longrightarrow> server_step script ok (l, s) (l, hang_up i s)"
| lock: "todo i s = Note ps # as \<Longrightarrow> sv_lock s = None \<Longrightarrow> server_step script ok (l, s) (l, s\<lparr>sv_lock := Some (i, ps)\<rparr>)"
| put: "sv_lock s = Some (i, p # ps) \<Longrightarrow> server_step script ok (l, s) (l @ p, s\<lparr>sv_lock := Some (i, ps)\<rparr>)"
| fail: "\<not> ok \<Longrightarrow> sv_lock s = Some (i, p # ps) \<Longrightarrow> prefix q p \<Longrightarrow>
    server_step script ok (l, s) (l @ q, s\<lparr>sv_lock := Some (i, [])\<rparr>)"
| unlock: "sv_lock s = Some (i, []) \<Longrightarrow> todo i s = Note ps # as \<Longrightarrow>
    server_step script ok (l, s) (l, (advance i s)\<lparr>sv_lock := None\<rparr>)"

text \<open>Several runs at once, each with its script, over the one log.\<close>

inductive world_step ::
  "(nat \<Rightarrow> nat \<Rightarrow> 'c \<Rightarrow> 'e action list) \<Rightarrow> bool \<Rightarrow> bytes \<times> ('c, 'e) server list \<Rightarrow> bytes \<times> ('c, 'e) server list \<Rightarrow> bool" for scripts ok where
  one: "k < length ss \<Longrightarrow> server_step (scripts k) ok (l, ss ! k) (l', s') \<Longrightarrow>
    world_step scripts ok (l, ss) (l', ss[k := s'])"

inductive_cases world_stepE: "world_step scripts ok (l, ss) (l', ss')"

section \<open>Every thread follows its script\<close>

text \<open>
  It did a part of it and has the rest to do, or stopped at a \<open>Send\<close> whose other side was gone.
\<close>

definition follows :: "('c \<Rightarrow> 'e action list) \<Rightarrow> ('c, 'e) thread \<Rightarrow> bool" where
  "follows script t \<longleftrightarrow>
     t_done t @ t_todo t = script (t_conn t)
     \<or> t_todo t = [] \<and> (\<exists>e as. script (t_conn t) = t_done t @ Send e # as)"

lemma follows_start [simp]: "follows script (start_thread script c)"
  by (simp add: follows_def start_thread_def)

lemma follows_prefix: "follows script t \<Longrightarrow> prefix (t_done t) (script (t_conn t))"
  by (auto simp: follows_def prefix_def intro: sym)

definition scripted :: "(nat \<Rightarrow> 'c \<Rightarrow> 'e action list) \<Rightarrow> ('c, 'e) server \<Rightarrow> bool" where
  "scripted script s \<longleftrightarrow>
     (\<forall>i < length (sv_threads s). follows (script i) (sv_threads s ! i))"

lemma scripted_idle [simp]: "scripted script idle_server"
  by (simp add: scripted_def idle_server_def)

lemma todo_Cons:
  assumes "todo i s = a # as"
  shows "i < length (sv_threads s)" "t_todo (sv_threads s ! i) = a # as"
  using assms by (auto simp: todo_def split: if_splits)

lemma scripted_lock [simp]: "scripted script (s\<lparr>sv_lock := x\<rparr>) = scripted script s"
  by (simp add: scripted_def)

lemma scripted_update:
  assumes "scripted script s" "i < length (sv_threads s) \<Longrightarrow> follows (script i) t"
  shows "scripted script (s\<lparr>sv_threads := (sv_threads s)[i := t]\<rparr>)"
proof (cases "i < length (sv_threads s)")
  case True
  with assms show ?thesis by (simp add: scripted_def nth_list_update)
qed (use assms(1) in \<open>simp add: scripted_def\<close>)

lemma scripted_advance:
  assumes "scripted script s" "todo i s = a # as"
  shows "scripted script (advance i s)"
  unfolding advance_def
proof (rule scripted_update [OF assms(1)])
  have "follows (script i) (sv_threads s ! i)" using assms(1) todo_Cons [OF assms(2)] by (simp add: scripted_def)
  then show "follows (script i)
      \<lparr>t_conn = t_conn (sv_threads s ! i), t_done = t_done (sv_threads s ! i) @ [hd (t_todo (sv_threads s ! i))],
       t_todo = tl (t_todo (sv_threads s ! i))\<rparr>"
    using todo_Cons [OF assms(2)] by (auto simp: follows_def)
qed

lemma scripted_hang_up:
  assumes "scripted script s" "todo i s = Send e # as"
  shows "scripted script (hang_up i s)"
  unfolding hang_up_def
proof (rule scripted_update [OF assms(1)])
  have "follows (script i) (sv_threads s ! i)" using assms(1) todo_Cons [OF assms(2)] by (simp add: scripted_def)
  then have "script i (t_conn (sv_threads s ! i)) = t_done (sv_threads s ! i) @ Send e # as"
    using todo_Cons [OF assms(2)] by (simp add: follows_def)
  then show "follows (script i) ((sv_threads s ! i)\<lparr>t_todo := []\<rparr>)" by (simp add: follows_def)
qed

lemma server_step_scripted:
  assumes "server_step script ok (l, s) (l', s')" "scripted script s"
  shows "scripted script s'"
  using assms(1)
proof cases
  case (accept c)
  have "follows (script i) ((sv_threads s @ [start_thread (script (length (sv_threads s))) c]) ! i)"
    if "i < Suc (length (sv_threads s))" for i
    using that assms(2) by (cases "i = length (sv_threads s)") (simp_all add: scripted_def nth_append)
  then show ?thesis unfolding accept scripted_def by simp
next
  case (gone i e as)
  then show ?thesis using scripted_hang_up [OF assms(2) gone(3)] by simp
next
  case (unlock i ps as)
  then show ?thesis using scripted_advance [OF assms(2) unlock(4)] by simp
next
  case (act i e as)
  then show ?thesis using scripted_advance [OF assms(2) act(3)] by simp
next
  case (send i e as)
  then show ?thesis using scripted_advance [OF assms(2) send(3)] by simp
qed (use assms(2) in simp_all)

lemma world_steps_scripted:
  assumes "(world_step scripts ok)\<^sup>*\<^sup>* (l, ss) (l', ss')" "\<forall>k < length ss. scripted (scripts k) (ss ! k)"
  shows "length ss' = length ss \<and> (\<forall>k < length ss'. scripted (scripts k) (ss' ! k))"
  using assms
proof (induction "(l', ss')" arbitrary: l' ss' rule: rtranclp_induct)
  case (step w)
  obtain l1 ss1 where w: "w = (l1, ss1)" by (cases w)
  from step(2) [unfolded w] obtain k s' where k: "k < length ss1" "ss' = ss1[k := s']"
    "server_step (scripts k) ok (l1, ss1 ! k) (l', s')" by (auto elim: world_stepE)
  from step.hyps(3) [OF w step.prems] server_step_scripted [OF k(3)] k(1,2) show ?case
    by (auto simp: nth_list_update)
qed simp

section \<open>One run's log\<close>

text \<open>The text of the notes among some actions.\<close>

fun noted_texts :: "'e action list \<Rightarrow> bytes list" where
  "noted_texts [] = []"
| "noted_texts (Note ps # as) = concat ps # noted_texts as"
| "noted_texts (_ # as) = noted_texts as"

lemma noted_texts_append [simp]: "noted_texts (as @ bs) = noted_texts as @ noted_texts bs"
  by (induction as rule: noted_texts.induct) simp_all

text \<open>What thread \<open>i\<close> has put into the log, of entries tagged with their thread.\<close>

definition of_thread :: "nat \<Rightarrow> (nat \<times> bytes) list \<Rightarrow> bytes list" where
  "of_thread i ls = map snd (filter (\<lambda>x. fst x = i) ls)"

lemma of_thread_simps [simp]:
  "of_thread i [] = []" "of_thread i (ls @ ks) = of_thread i ls @ of_thread i ks"
  "of_thread i ((j, l) # ls) = (if j = i then l # of_thread i ls else of_thread i ls)"
  by (simp_all add: of_thread_def)

text \<open>
  The log of a single run whose writes succeed: what was there, then whole notes, each thread's in
  its order, then as much of one note as its writer has written.
\<close>

definition log_ok :: "bytes \<Rightarrow> (nat \<times> bytes) list \<Rightarrow> bytes \<times> ('c, 'e) server \<Rightarrow> bool" where
  "log_ok l0 ls w \<longleftrightarrow>
     (case w of (l, s) \<Rightarrow>
        (\<forall>x \<in> set ls. fst x < length (sv_threads s))
        \<and> (\<forall>i < length (sv_threads s). of_thread i ls = noted_texts (t_done (sv_threads s ! i)))
        \<and> (case sv_lock s of
             None \<Rightarrow> l = l0 @ concat (map snd ls)
           | Some (i, ps) \<Rightarrow> \<exists>qs as. todo i s = Note (qs @ ps) # as \<and> l = l0 @ concat (map snd ls) @ concat qs))"

definition log_inv :: "bytes \<Rightarrow> bytes \<times> ('c, 'e) server \<Rightarrow> bool" where
  "log_inv l0 w \<longleftrightarrow> (\<exists>ls. log_ok l0 ls w)"

lemma log_inv_idle: "log_inv l0 (l0, idle_server)"
  by (auto simp: log_inv_def log_ok_def idle_server_def intro: exI [of _ "[]"])

lemma length_advance [simp]: "length (sv_threads (advance i s)) = length (sv_threads s)"
  by (simp add: advance_def)

lemma lock_advance [simp]: "sv_lock (advance i s) = sv_lock s"
  by (simp add: advance_def)

lemma done_advance:
  assumes "todo i s = a # as" "j < length (sv_threads s)"
  shows "t_done (sv_threads (advance i s) ! j) = (if j = i then t_done (sv_threads s ! i) @ [a] else t_done (sv_threads s ! j))"
  using assms todo_Cons [OF assms(1)] by (simp add: advance_def nth_list_update)

lemma todo_lock [simp]: "todo i (s\<lparr>sv_lock := x\<rparr>) = todo i s"
  by (simp add: todo_def)

lemma todo_advance: "j \<noteq> i \<Longrightarrow> todo j (advance i s) = todo j s"
  by (simp add: advance_def todo_def)

lemma hang_up_simps [simp]:
  "length (sv_threads (hang_up i s)) = length (sv_threads s)" "sv_lock (hang_up i s) = sv_lock s"
  by (simp_all add: hang_up_def)

lemma done_hang_up: "j < length (sv_threads s) \<Longrightarrow> t_done (sv_threads (hang_up i s) ! j) = t_done (sv_threads s ! j)"
  by (cases "i < length (sv_threads s)") (simp_all add: hang_up_def nth_list_update)

lemma todo_hang_up: "j \<noteq> i \<Longrightarrow> todo j (hang_up i s) = todo j s"
  by (simp add: hang_up_def todo_def)

text \<open>An action that is not a note leaves the log in order, also while another thread writes.\<close>

lemma log_ok_other:
  assumes "log_ok l0 ls (l, s)" "todo i s = a # as" "noted_texts [a] = []"
  shows "log_ok l0 ls (l, advance i s)"
proof -
  have "j \<noteq> i" if "todo j s = Note ps # bs" for j ps bs using that assms(2,3) by auto
  then show ?thesis using assms(1) done_advance [OF assms(2)] assms(3) todo_Cons(1) [OF assms(2)]
    by (auto simp: log_ok_def todo_advance split: option.splits)
qed

lemma server_step_log:
  assumes "server_step script True (l, s) (l', s')" "log_inv l0 (l, s)"
  shows "log_inv l0 (l', s')"
proof -
  obtain ls where ls: "log_ok l0 ls (l, s)" using assms(2) by (auto simp: log_inv_def)
  from assms(1) show ?thesis
  proof cases
    case (accept c)
    have "\<forall>x \<in> set ls. fst x < length (sv_threads s)" using ls by (simp add: log_ok_def)
    then have "of_thread (length (sv_threads s)) ls = []" by (auto simp: of_thread_def filter_empty_conv)
    with ls have "log_ok l0 ls (l', s')" unfolding accept
      by (auto simp: log_ok_def nth_append less_Suc_eq todo_def start_thread_def split: option.splits if_splits)
    then show ?thesis unfolding log_inv_def by blast
  next
    case (act i e as)
    with log_ok_other [OF ls act(3)] show ?thesis by (auto simp: log_inv_def)
  next
    case (send i e as)
    with log_ok_other [OF ls send(3)] show ?thesis by (auto simp: log_inv_def)
  next
    case (gone i e as)
    have "j \<noteq> i" if "todo j s = Note ps # bs" for j ps bs using that gone(3) by auto
    then have "log_ok l0 ls (l', s')" using ls unfolding gone
      by (auto simp: log_ok_def done_hang_up todo_hang_up split: option.splits)
    then show ?thesis unfolding log_inv_def by blast
  next
    case (lock i ps as)
    with ls have "log_ok l0 ls (l', s')"
      by (auto simp: log_ok_def split: option.splits intro!: exI [of _ "[]"])
    then show ?thesis unfolding log_inv_def by blast
  next
    case (put i p ps)
    with ls obtain qs as where "todo i s = Note (qs @ p # ps) # as" "l = l0 @ concat (map snd ls) @ concat qs"
      by (auto simp: log_ok_def)
    with put ls have "log_ok l0 ls (l', s')"
      by (auto simp: log_ok_def intro!: exI [of _ "qs @ [p]"])
    then show ?thesis unfolding log_inv_def by blast
  next
    case (unlock i ps as)
    with ls have "l = l0 @ concat (map snd ls) @ concat ps" by (auto simp: log_ok_def)
    with unlock ls todo_Cons [OF unlock(4)] done_advance [OF unlock(4)] have "log_ok l0 (ls @ [(i, concat ps)]) (l', s')"
      by (auto simp: log_ok_def)
    then show ?thesis unfolding log_inv_def by blast
  qed simp
qed

lemma server_steps_log:
  assumes "(server_step script True)\<^sup>*\<^sup>* (l0, idle_server) w"
  shows "log_inv l0 w"
  using assms
proof induction
  case base
  show ?case by (rule log_inv_idle)
next
  case (step w w')
  then show ?case using server_step_log by (cases w; cases w') blast
qed

lemma server_steps_scripted:
  assumes "(server_step script ok)\<^sup>*\<^sup>* (l0, idle_server) (l, s)"
  shows "scripted script s"
  using assms
proof (induction "(l, s)" arbitrary: l s rule: rtranclp_induct)
  case (step w)
  then show ?case using server_step_scripted by (cases w) blast
qed simp

section \<open>Runs of steps\<close>

text \<open>A thread that has the log to itself writes its note.\<close>

lemma puts: "sv_lock s = Some (i, ps) \<Longrightarrow>
    (server_step script ok)\<^sup>*\<^sup>* (l, s) (l @ concat ps, s\<lparr>sv_lock := Some (i, [])\<rparr>)"
proof (induction ps arbitrary: l s)
  case Nil
  then have "s\<lparr>sv_lock := Some (i, [])\<rparr> = s" by (cases s) simp
  then show ?case by simp
next
  case (Cons p ps)
  have "server_step script ok (l, s) (l @ p, s\<lparr>sv_lock := Some (i, ps)\<rparr>)" by (rule put [OF Cons.prems])
  moreover have "(server_step script ok)\<^sup>*\<^sup>* (l @ p, s\<lparr>sv_lock := Some (i, ps)\<rparr>)
      ((l @ p) @ concat ps, s\<lparr>sv_lock := Some (i, [])\<rparr>)"
    using Cons.IH [of "s\<lparr>sv_lock := Some (i, ps)\<rparr>" "l @ p"] by simp
  ultimately show ?case by (simp add: converse_rtranclp_into_rtranclp)
qed

lemma note_runs:
  assumes "todo i s = Note ps # as" "sv_lock s = None"
  shows "(server_step script ok)\<^sup>*\<^sup>* (l, s) (l @ concat ps, advance i s)"
proof -
  let ?s = "s\<lparr>sv_lock := Some (i, [])\<rparr>"
  have "server_step script ok (l, s) (l, s\<lparr>sv_lock := Some (i, ps)\<rparr>)" by (rule lock [OF assms])
  also have "(server_step script ok)\<^sup>*\<^sup>* (l, s\<lparr>sv_lock := Some (i, ps)\<rparr>) (l @ concat ps, ?s)"
    using puts [of "s\<lparr>sv_lock := Some (i, ps)\<rparr>" i ps] by simp
  also have "server_step script ok (l @ concat ps, ?s) (l @ concat ps, (advance i ?s)\<lparr>sv_lock := None\<rparr>)"
    by (rule unlock) (use assms(1) in simp_all)
  also have "(advance i ?s)\<lparr>sv_lock := None\<rparr> = advance i s"
    using assms(2) by (cases s) (simp add: advance_def)
  finally show ?thesis .
qed

text \<open>The steps of one run are steps of the world.\<close>

lemma world_steps_one:
  assumes "(server_step (scripts k) ok)\<^sup>*\<^sup>* (l, s) (l', s')" "k < length ss" "ss ! k = s"
  shows "(world_step scripts ok)\<^sup>*\<^sup>* (l, ss) (l', ss[k := s'])"
  using assms(1)
proof (induction "(l', s')" arbitrary: l' s' rule: rtranclp_induct)
  case base
  with assms(3) show ?case by (metis list_update_id rtranclp.rtrancl_refl)
next
  case (step w)
  obtain l1 s1 where w: "w = (l1, s1)" by (cases w)
  have "world_step scripts ok (l1, ss[k := s1]) (l', (ss[k := s1])[k := s'])"
    by (rule one) (use assms(2) step(2) w in simp_all)
  with step.hyps(3) [OF w] show ?case by (simp add: rtranclp.rtrancl_into_rtrancl)
qed

end
