(* ===== verification/Serve.thy ===== *)
theory Serve
  imports Brokers
begin

text \<open>
  The threads of the two servers: \<^verbatim>\<open>proxy\<close> of \<^verbatim>\<open>src/src/ssh_proxy.rs\<close> and \<^verbatim>\<open>handle\<close> of
  \<^verbatim>\<open>src/src/open_proxy.rs\<close> as lists of actions, and what interleaving them keeps: an agent connection
  carries what the sequential proxy would, and the opener's log has one line for each request.
\<close>

section \<open>The ssh-agent proxy\<close>

text \<open>\<^verbatim>\<open>writeln!(log, "{at} {} {conn} {dir} {}", ..)\<close>, write by write.\<close>

definition note_pieces :: "nat \<Rightarrow> nat \<Rightarrow> nat \<Rightarrow> bytes \<Rightarrow> bytes \<Rightarrow> bytes list" where
  "note_pieces at pid conn word rest =
     [show_nat at, '' '', show_nat pid, '' '', show_nat conn, '' '', word, '' '', rest, [newline]]"

datatype ssh_effect = To_agent bytes | To_client bytes

text \<open>A connection: what the client sends, what the agent answers when it is there, and the clock at each note.\<close>

record ssh_conn =
  sc_client :: bytes
  sc_agent :: "bytes option"
  sc_clock :: "nat \<Rightarrow> nat"

function ssh_loop ::
  "(bytes \<Rightarrow> bytes) \<Rightarrow> (bytes \<Rightarrow> bytes) \<Rightarrow> nat \<Rightarrow> nat \<Rightarrow> (nat \<Rightarrow> nat) \<Rightarrow> nat \<Rightarrow> bytes \<Rightarrow> bytes \<Rightarrow> ssh_effect action list" where
  "ssh_loop D dbg pid conn clock k client agent =
     (case read_frame client of
        Inl _ \<Rightarrow> []
      | Inr (request, client1) \<Rightarrow>
          Note (note_pieces (clock k) pid conn ''>'' (describe D dbg request)) # Send (To_agent (write_frame request)) #
          (case read_frame agent of
             Inl _ \<Rightarrow> []
           | Inr (reply, agent1) \<Rightarrow>
               Note (note_pieces (clock (Suc k)) pid conn ''<'' (describe D dbg reply)) # Send (To_client (write_frame reply)) #
               ssh_loop D dbg pid conn clock (Suc (Suc k)) client1 agent1))"
  by pat_completeness auto
termination
  by (relation "measure (\<lambda>(D, dbg, pid, conn, clock, k, client, agent). length client)")
    (auto dest: read_frame_shorter)

declare ssh_loop.simps [simp del]

text \<open>\<^verbatim>\<open>serve\<close> gives \<^verbatim>\<open>proxy\<close> the index plus one.\<close>

definition ssh_script ::
  "(bytes \<Rightarrow> bytes) \<Rightarrow> (bytes \<Rightarrow> bytes) \<Rightarrow> nat \<Rightarrow> nat \<Rightarrow> ssh_conn \<Rightarrow> ssh_effect action list" where
  "ssh_script D dbg pid index c =
     (case sc_agent c of
        None \<Rightarrow> []
      | Some agent \<Rightarrow> ssh_loop D dbg pid (index + 1) (sc_clock c) 0 (sc_client c) agent)"

fun sent_to_agent :: "ssh_effect action list \<Rightarrow> bytes" where
  "sent_to_agent [] = []"
| "sent_to_agent (Send (To_agent b) # as) = b @ sent_to_agent as"
| "sent_to_agent (_ # as) = sent_to_agent as"

fun sent_to_client :: "ssh_effect action list \<Rightarrow> bytes" where
  "sent_to_client [] = []"
| "sent_to_client (Send (To_client b) # as) = b @ sent_to_client as"
| "sent_to_client (_ # as) = sent_to_client as"

lemma sent_append [simp]:
  "sent_to_agent (as @ bs) = sent_to_agent as @ sent_to_agent bs"
  "sent_to_client (as @ bs) = sent_to_client as @ sent_to_client bs"
proof -
  show "sent_to_agent (as @ bs) = sent_to_agent as @ sent_to_agent bs"
    by (induction as rule: sent_to_agent.induct) simp_all
  show "sent_to_client (as @ bs) = sent_to_client as @ sent_to_client bs"
    by (induction as rule: sent_to_client.induct) simp_all
qed

text \<open>The log lines of the messages \<^const>\<open>proxy\<close> notes, one clock reading each.\<close>

fun ssh_lines ::
  "(bytes \<Rightarrow> bytes) \<Rightarrow> (bytes \<Rightarrow> bytes) \<Rightarrow> nat \<Rightarrow> nat \<Rightarrow> (nat \<Rightarrow> nat) \<Rightarrow> nat \<Rightarrow> (char \<times> bytes) list \<Rightarrow> bytes list" where
  "ssh_lines D dbg pid conn clock k [] = []"
| "ssh_lines D dbg pid conn clock k ((d, frame) # ms) =
     concat (note_pieces (clock k) pid conn [d] (describe D dbg frame)) # ssh_lines D dbg pid conn clock (Suc k) ms"

text \<open>The whole script does what the sequential proxy does.\<close>

lemma ssh_loop_proxy:
  "to_agent (proxy client agent p) = to_agent p @ sent_to_agent (ssh_loop D dbg pid conn clock k client agent)
   \<and> to_client (proxy client agent p) = to_client p @ sent_to_client (ssh_loop D dbg pid conn clock k client agent)
   \<and> (\<exists>ms. noted (proxy client agent p) = noted p @ ms
        \<and> noted_texts (ssh_loop D dbg pid conn clock k client agent) = ssh_lines D dbg pid conn clock k ms)"
proof (induction client agent p arbitrary: k rule: proxy.induct)
  case (1 client agent p)
  show ?case
  proof (cases "read_frame client")
    case (Inl e)
    then show ?thesis by (simp add: proxy.simps [of client agent p] ssh_loop.simps [of D dbg pid conn clock k client agent])
  next
    case (Inr q)
    then obtain request client1 where req: "read_frame client = Inr (request, client1)" by (cases q) simp
    show ?thesis
    proof (cases "read_frame agent")
      case (Inl e)
      with req show ?thesis
        by (simp add: proxy.simps [of client agent p] ssh_loop.simps [of D dbg pid conn clock k client agent])
    next
      case (Inr q)
      then obtain reply agent1 where rep: "read_frame agent = Inr (reply, agent1)" by (cases q) simp
      show ?thesis
        using 1 [OF req refl refl rep refl, of "Suc (Suc k)"] req rep
        by (auto simp: proxy.simps [of client agent p] ssh_loop.simps [of D dbg pid conn clock k client agent])
    qed
  qed
qed

definition proxied_of :: "ssh_conn \<Rightarrow> proxied" where
  "proxied_of c =
     (case sc_agent c of
        None \<Rightarrow> \<lparr>to_agent = [], to_client = [], noted = []\<rparr>
      | Some agent \<Rightarrow> proxy (sc_client c) agent \<lparr>to_agent = [], to_client = [], noted = []\<rparr>)"

lemma ssh_script_proxy:
  "sent_to_agent (ssh_script D dbg pid index c) = to_agent (proxied_of c)"
  "sent_to_client (ssh_script D dbg pid index c) = to_client (proxied_of c)"
  "noted_texts (ssh_script D dbg pid index c) = ssh_lines D dbg pid (index + 1) (sc_clock c) 0 (noted (proxied_of c))"
  using ssh_loop_proxy [of "sc_client c" "the (sc_agent c)" "\<lparr>to_agent = [], to_client = [], noted = []\<rparr>"
      D dbg pid "index + 1" "sc_clock c" 0]
  by (auto simp: ssh_script_def proxied_of_def split: option.splits)

lemma prefix_noted: "prefix as bs \<Longrightarrow> prefix (noted_texts as) (noted_texts bs)"
  by (auto simp: prefix_def)

lemma prefix_sent:
  "prefix as bs \<Longrightarrow> prefix (sent_to_agent as) (sent_to_agent bs)"
  "prefix as bs \<Longrightarrow> prefix (sent_to_client as) (sent_to_client bs)"
  "prefix as bs \<Longrightarrow> prefix (noted_texts as) (noted_texts bs)"
  by (auto simp: prefix_def)

section \<open>The opener\<close>

datatype open_effect = Opened bytes | Replied bytes

record open_conn =
  oc_request :: bytes
  oc_clock :: nat
  oc_opener :: "bytes \<Rightarrow> open_status"

definition open_script :: "bytes \<Rightarrow> nat \<Rightarrow> nat \<Rightarrow> open_conn \<Rightarrow> open_effect action list" where
  "open_script opener_path pid index c =
     (let h = handle_open index (oc_opener c) opener_path (oc_clock c) pid (oc_request c) in
      map (\<lambda>url. Act (Opened url)) (h_opened h)
      @ [Note (note_pieces (oc_clock c) pid index (h_verdict h) (join_args (read_args (oc_request c)))),
         Send (Replied (h_reply h))])"

definition open_line :: "bytes \<Rightarrow> nat \<Rightarrow> nat \<Rightarrow> open_conn \<Rightarrow> bytes" where
  "open_line opener_path pid index c = h_log (handle_open index (oc_opener c) opener_path (oc_clock c) pid (oc_request c))"

lemma open_note_log:
  "concat (note_pieces (oc_clock c) pid index
      (h_verdict (handle_open index (oc_opener c) opener_path (oc_clock c) pid (oc_request c)))
      (join_args (read_args (oc_request c)))) = open_line opener_path pid index c"
  by (auto simp: note_pieces_def open_line_def handle_open_def Let_def split: sum.split open_status.split)

lemma open_script_parts:
  obtains us where "open_script opener_path pid index c
      = map (\<lambda>url. Act (Opened url)) us
        @ [Note (note_pieces (oc_clock c) pid index
             (h_verdict (handle_open index (oc_opener c) opener_path (oc_clock c) pid (oc_request c)))
             (join_args (read_args (oc_request c)))),
           Send (Replied (h_reply (handle_open index (oc_opener c) opener_path (oc_clock c) pid (oc_request c))))]"
    "\<forall>url \<in> set us. check_open (read_args (oc_request c)) = Inr url"
  by (rule that [of "h_opened (handle_open index (oc_opener c) opener_path (oc_clock c) pid (oc_request c))"])
    (auto simp: open_script_def handle_open_def Let_def split: sum.split open_status.split)

lemma noted_texts_acts [simp]: "noted_texts (map (\<lambda>url. Act (f url)) us) = []"
  by (induction us) simp_all

lemma noted_texts_open: "noted_texts (open_script opener_path pid index c) = [open_line opener_path pid index c]"
  by (rule open_script_parts [of opener_path pid index c]) (simp add: open_note_log)

text \<open>One line: neither the number of a request nor its arguments hold a newline.\<close>

lemma show_nat_no_newline: "newline \<notin> set (show_nat n)"
  using show_nat_chars [of newline n] by (auto simp: is_ascii_digit_def)

lemma split_inclusive_inner: "l \<in> set (split_inclusive c s) \<Longrightarrow> c \<notin> set (butlast l)"
  by (induction s arbitrary: l) (auto split: list.splits if_splits)

lemma read_args_no_newline: "line \<in> set (read_args s) \<Longrightarrow> newline \<notin> set line"
proof -
  assume "line \<in> set (read_args s)"
  then have "line \<in> set (map text_line (split_inclusive newline s))"
    unfolding read_args_def text_lines_def by (rule set_takeWhileD [THEN conjunct1])
  then obtain l where l: "l \<in> set (split_inclusive newline s)" "line = text_line l" by auto
  note inner = split_inclusive_inner [OF l(1)]
  have "newline \<notin> set l" if "strip_suffix [newline] l = None"
    using that inner by (cases l rule: rev_cases) (auto simp: strip_suffix_def split: if_splits)
  with inner show ?thesis
    by (auto simp: l(2) text_line_def strip_suffix_Some butlast_append split: option.splits)
qed

lemma join_args_set: "x \<in> set (join_args as) \<Longrightarrow> x = CHR '' '' \<or> (\<exists>a \<in> set as. x \<in> set a)"
  by (induction as rule: join_args.induct) auto

lemma open_line_one:
  obtains line where "open_line opener_path pid index c = line @ [newline]" "newline \<notin> set line"
proof
  let ?h = "handle_open index (oc_opener c) opener_path (oc_clock c) pid (oc_request c)"
  let ?line = "show_nat (oc_clock c) @ '' '' @ show_nat pid @ '' '' @ show_nat index @ '' '' @ h_verdict ?h @ '' ''
      @ join_args (read_args (oc_request c))"
  show "open_line opener_path pid index c = ?line @ [newline]"
    using open_note_log [of c pid index opener_path] by (simp add: note_pieces_def)
  have "newline \<notin> set (h_verdict ?h)"
    by (auto simp: handle_open_def Let_def split: sum.split open_status.split)
  moreover have "newline \<notin> set (join_args (read_args (oc_request c)))"
    using join_args_set read_args_no_newline by fastforce
  ultimately show "newline \<notin> set ?line" by (simp add: show_nat_no_newline)
qed

section \<open>The contract of a log\<close>

text \<open>
  What a server promises of its notes, and what its log then is at any moment, whatever the threads
  do: first that a note ends its line, then that it is a line.
\<close>

locale broker =
  fixes script :: "nat \<Rightarrow> 'c \<Rightarrow> 'e action list"
  assumes note_ends: "Note ps \<in> set (script i c) \<Longrightarrow> \<exists>line. concat ps = line @ [newline]"
begin

lemma noted_ends:
  assumes "follows (script i) t" "x \<in> set (noted_texts (t_done t))"
  shows "\<exists>ps. Note ps \<in> set (script i (t_conn t)) \<and> x = concat ps"
proof -
  have "\<exists>ps. Note ps \<in> set as \<and> x = concat ps" if "x \<in> set (noted_texts as)" for as :: "'e action list"
    using that by (induction as rule: noted_texts.induct) auto
  with assms follows_prefix show ?thesis by (meson set_mono_prefix subsetD)
qed

text \<open>Entries of the log when nobody writes, tagged with their threads.\<close>

lemma log_entries:
  assumes "(server_step script True)\<^sup>*\<^sup>* (l0, idle_server) (l, s)" "sv_lock s = None"
  obtains ls where "l = l0 @ concat (map snd ls)" "\<forall>x \<in> set ls. \<exists>line. snd x = line @ [newline]"
    "\<forall>i < length (sv_threads s). of_thread i ls = noted_texts (t_done (sv_threads s ! i))"
    "\<forall>(i, x) \<in> set ls. i < length (sv_threads s)
      \<and> (\<exists>ps. Note ps \<in> set (script i (t_conn (sv_threads s ! i))) \<and> x = concat ps)"
proof -
  obtain ls where ls: "log_ok l0 ls (l, s)" using server_steps_log [OF assms(1)] by (auto simp: log_inv_def)
  have fol: "scripted script s" by (rule server_steps_scripted [OF assms(1)])
  have tag: "i < length (sv_threads s) \<and> (\<exists>ps. Note ps \<in> set (script i (t_conn (sv_threads s ! i))) \<and> x = concat ps)"
    if "(i, x) \<in> set ls" for i x
  proof -
    have i: "i < length (sv_threads s)" using ls that by (auto simp: log_ok_def)
    have "x \<in> set (of_thread i ls)" using that by (force simp: of_thread_def)
    with ls i have "x \<in> set (noted_texts (t_done (sv_threads s ! i)))" by (simp add: log_ok_def)
    with noted_ends [of i "sv_threads s ! i"] fol i show ?thesis by (simp add: scripted_def)
  qed
  then have "\<forall>x \<in> set ls. \<exists>line. snd x = line @ [newline]" using note_ends by fastforce
  then show thesis using that [of ls] ls tag assms(2) by (auto simp: log_ok_def)
qed

lemma log_ends:
  assumes "(server_step script True)\<^sup>*\<^sup>* (l0, idle_server) (l, s)" "sv_lock s = None" "l0 = [] \<or> last l0 = newline"
  shows "l = [] \<or> last l = newline"
proof -
  obtain ls where ls: "l = l0 @ concat (map snd ls)" "\<forall>x \<in> set ls. \<exists>line. snd x = line @ [newline]"
    "\<forall>i < length (sv_threads s). of_thread i ls = noted_texts (t_done (sv_threads s ! i))"
    "\<forall>(i, x) \<in> set ls. i < length (sv_threads s)
      \<and> (\<exists>ps. Note ps \<in> set (script i (t_conn (sv_threads s ! i))) \<and> x = concat ps)"
    using assms(1,2) by (rule log_entries)
  show ?thesis
  proof (cases ls rule: rev_cases)
    case Nil
    with ls(1) assms(3) show ?thesis by simp
  next
    case (snoc ks x)
    then obtain line where "snd x = line @ [newline]" using ls(2) by auto
    with ls(1) snoc show ?thesis by simp
  qed
qed

end

locale line_broker = broker +
  assumes note_one: "Note ps \<in> set (script i c) \<Longrightarrow> newline \<notin> set (butlast (concat ps))"
begin

text \<open>Every note is a line of the log, so the lines of the log are the notes.\<close>

lemma log_lines:
  assumes "(server_step script True)\<^sup>*\<^sup>* (l0, idle_server) (l, s)" "sv_lock s = None"
  obtains ls where "l = l0 @ unlines (map snd ls)" "\<forall>x \<in> set ls. newline \<notin> set (snd x)"
    "\<forall>x \<in> set ls. fst x < length (sv_threads s)"
    "\<forall>i < length (sv_threads s). map (\<lambda>x. x @ [newline]) (of_thread i ls) = noted_texts (t_done (sv_threads s ! i))"
proof -
  obtain ls where ls: "l = l0 @ concat (map snd ls)" "\<forall>x \<in> set ls. \<exists>line. snd x = line @ [newline]"
    "\<forall>i < length (sv_threads s). of_thread i ls = noted_texts (t_done (sv_threads s ! i))"
    "\<forall>(i, x) \<in> set ls. i < length (sv_threads s)
      \<and> (\<exists>ps. Note ps \<in> set (script i (t_conn (sv_threads s ! i))) \<and> x = concat ps)"
    using assms by (rule log_entries)
  let ?ls = "map (\<lambda>x. (fst x, butlast (snd x))) ls"
  have joined: "map (\<lambda>x. butlast (snd x) @ [newline]) ls = map snd ls"
    using ls(2) by (auto intro!: map_cong)
  show thesis
  proof (rule that [of ?ls])
    show "l = l0 @ unlines (map snd ?ls)"
      unfolding ls(1) by (simp add: unlines_def comp_def joined)
    show "\<forall>x \<in> set ?ls. newline \<notin> set (snd x)" using ls(4) note_one by fastforce
    show "\<forall>x \<in> set ?ls. fst x < length (sv_threads s)" using ls(4) by auto
    show "\<forall>i < length (sv_threads s). map (\<lambda>x. x @ [newline]) (of_thread i ?ls) = noted_texts (t_done (sv_threads s ! i))"
    proof (intro allI impI)
      fix i assume "i < length (sv_threads s)"
      have "map (\<lambda>x. x @ [newline]) (of_thread i (map (\<lambda>x. (fst x, butlast (snd x))) ks)) = of_thread i ks"
        if "\<forall>x \<in> set ks. \<exists>line. snd x = line @ [newline]" for ks
        using that by (induction ks) (auto split: prod.splits)
      with ls(2,3) \<open>i < length (sv_threads s)\<close>
      show "map (\<lambda>x. x @ [newline]) (of_thread i ?ls) = noted_texts (t_done (sv_threads s ! i))" by simp
    qed
  qed
qed

end

lemma ssh_loop_notes: "Note ps \<in> set (ssh_loop D dbg pid conn clock k client agent) \<Longrightarrow> \<exists>line. concat ps = line @ [newline]"
proof (induction D dbg pid conn clock k client agent rule: ssh_loop.induct)
  case (1 D dbg pid conn clock k client agent)
  have one: "\<exists>line. concat (note_pieces at pid conn w r) = line @ [newline]" for at w r
    by (simp add: note_pieces_def)
  show ?case
  proof (cases "read_frame client")
    case (Inl e)
    with 1(2) show ?thesis by (simp add: ssh_loop.simps [of D dbg pid conn clock k client agent])
  next
    case (Inr q)
    then obtain request client1 where req: "read_frame client = Inr (request, client1)" by (cases q) simp
    show ?thesis
    proof (cases "read_frame agent")
      case (Inl e)
      with req 1(2) one show ?thesis by (auto simp: ssh_loop.simps [of D dbg pid conn clock k client agent])
    next
      case (Inr q)
      then obtain reply agent1 where rep: "read_frame agent = Inr (reply, agent1)" by (cases q) simp
      with req 1(2) one 1(1) [OF req refl rep refl] show ?thesis
        by (auto simp: ssh_loop.simps [of D dbg pid conn clock k client agent])
    qed
  qed
qed

interpretation ssh_log: broker "ssh_script D dbg pid" for D dbg pid
  by unfold_locales (auto simp: ssh_script_def split: option.splits dest: ssh_loop_notes)

interpretation open_log: line_broker "open_script opener_path pid" for opener_path pid
proof unfold_locales
  fix ps i c assume "Note ps \<in> set (open_script opener_path pid i c)"
  then have ps: "concat ps = open_line opener_path pid i c"
    by (auto simp: open_script_def Let_def open_note_log)
  obtain line where line: "concat ps = line @ [newline]" "newline \<notin> set line"
    unfolding ps by (rule open_line_one)
  then show "\<exists>line. concat ps = line @ [newline]" by blast
  show "newline \<notin> set (butlast (concat ps))" using line by simp
qed

section \<open>One thread of the opener\<close>

lemma open_opened: "Act (Opened url) \<in> set (open_script opener_path pid index c) \<Longrightarrow> check_open (read_args (oc_request c)) = Inr url"
  by (auto simp: open_script_def handle_open_def Let_def split: sum.splits open_status.splits)

lemma open_script_sends:
  assumes "open_script opener_path pid index c = ds @ Send e # as"
  shows "noted_texts ds = [open_line opener_path pid index c]"
proof -
  let ?h = "handle_open index (oc_opener c) opener_path (oc_clock c) pid (oc_request c)"
  let ?n = "map (\<lambda>url. Act (Opened url)) (h_opened ?h)
      @ [Note (note_pieces (oc_clock c) pid index (h_verdict ?h) (join_args (read_args (oc_request c))))]"
  have eq: "?n @ [Send (Replied (h_reply ?h))] = ds @ Send e # as" using assms by (simp add: open_script_def Let_def)
  have none: "Send e \<notin> set ?n" by auto
  have "as = []"
  proof (rule ccontr)
    assume "as \<noteq> []"
    then have "butlast (ds @ Send e # as) = ds @ Send e # butlast as" by (simp add: butlast_append)
    with eq have "?n = ds @ Send e # butlast as" by (metis butlast_snoc)
    then have "Send e \<in> set ?n" by (metis in_set_conv_decomp)
    with none show False by blast
  qed
  with eq have "ds = ?n" by simp
  then show ?thesis by (simp add: open_note_log)
qed

lemma open_thread:
  assumes "follows (open_script opener_path pid i) t"
  shows "noted_texts (t_done t) = [] \<or> noted_texts (t_done t) = [open_line opener_path pid i (t_conn t)]"
    and "t_todo t = [] \<Longrightarrow> noted_texts (t_done t) = [open_line opener_path pid i (t_conn t)]"
    and "Act (Opened url) \<in> set (t_done t) \<Longrightarrow> read_args (oc_request (t_conn t)) = [url] \<and> opens url"
proof -
  note pre = follows_prefix [OF assms]
  from prefix_noted [OF pre]
  show "noted_texts (t_done t) = [] \<or> noted_texts (t_done t) = [open_line opener_path pid i (t_conn t)]"
    by (auto simp: noted_texts_open prefix_Cons)
  show "noted_texts (t_done t) = [open_line opener_path pid i (t_conn t)]" if "t_todo t = []"
    using assms that open_script_sends [of opener_path pid i "t_conn t" "t_done t"] noted_texts_open
    by (auto simp: follows_def)
  show "read_args (oc_request (t_conn t)) = [url] \<and> opens url" if "Act (Opened url) \<in> set (t_done t)"
  proof -
    have "check_open (read_args (oc_request (t_conn t))) = Inr url"
      using that set_mono_prefix [OF pre] open_opened by blast
    with check_open_Inr check_open_opens show ?thesis by metis
  qed
qed

end
