(* ===== verification/EdgeProperties.thy ===== *)
theory EdgeProperties
  imports Samples Serve
begin

text \<open>
  The properties of the programs at the edge of the sandbox: the ssh-agent proxy forwards exactly
  what it notes, the opener opens exactly the URLs of one shape, and a Bash command is rewritten
  into one that a shell reads as the confined program and the same command.
\<close>

section \<open>The agent proxy\<close>

text \<open>
  Framing round trip: a message is read exactly when the stream starts with what is written for
  it and it has between one byte and \<^verbatim>\<open>MAX_FRAME\<close>; what follows is left unread.
\<close>
theorem frames_round_trip:
  "read_frame r = Inr (f, rest) \<longleftrightarrow> r = write_frame f @ rest \<and> f \<noteq> [] \<and> length f \<le> unat MAX_FRAME"
  using read_frame_Inr [of r f rest] read_write_frame [of f rest] by blast

text \<open>
  One connection by itself: the proxy forwards what it notes and nothing else: the agent receives the noted requests and
  the client the noted replies, in order, and these are the beginnings of what the other side sent.
\<close>
theorem proxy_transparent:
  "let p = proxy client agent \<lparr>to_agent = [], to_client = [], noted = []\<rparr> in
     to_agent p = forwarded CHR ''>'' (noted p) \<and> to_client p = forwarded CHR ''<'' (noted p)
     \<and> prefix (to_agent p) client \<and> prefix (to_client p) agent"
  using proxy_forwards [of "\<lparr>to_agent = [], to_client = [], noted = []\<rparr>" client agent] by (auto simp: Let_def)

text \<open>
  C38. The proxies of any number of runs, with any number of connections, whose threads interleave in
  any way and whose log may or may not be writable: at every moment the agent and the client of
  each connection were sent a beginning of what the sequential proxy forwards between exactly these
  two, which is a beginning of what the other side sent; and the connection's notes are a beginning
  of that proxy's, under a number of its own.
\<close>
theorem proxies_refine:
  assumes "(world_step (\<lambda>k. ssh_script D dbg (pid k)) ok)\<^sup>*\<^sup>* (l0, replicate n idle_server) (l, ss)"
    and "k < n" "i < length (sv_threads (ss ! k))"
  shows "let t = sv_threads (ss ! k) ! i; c = t_conn t; p = proxied_of c in
    prefix (sent_to_agent (t_done t)) (to_agent p) \<and> prefix (sent_to_client (t_done t)) (to_client p)
    \<and> prefix (noted_texts (t_done t)) (ssh_lines D dbg (pid k) (i + 1) (sc_clock c) 0 (noted p))
    \<and> to_agent p = forwarded CHR ''>'' (noted p) \<and> to_client p = forwarded CHR ''<'' (noted p)
    \<and> prefix (to_agent p) (sc_client c)
    \<and> prefix (to_client p) (case sc_agent c of None \<Rightarrow> [] | Some agent \<Rightarrow> agent)"
proof -
  define t where "t = sv_threads (ss ! k) ! i"
  have "length ss = n \<and> (\<forall>k < length ss. scripted (ssh_script D dbg (pid k)) (ss ! k))"
    using world_steps_scripted [OF assms(1)] by simp
  with assms(2,3) have "follows (ssh_script D dbg (pid k) i) t" by (simp add: scripted_def t_def)
  note pre = follows_prefix [OF this]
  have seq: "to_agent (proxied_of c) = forwarded CHR ''>'' (noted (proxied_of c))
      \<and> to_client (proxied_of c) = forwarded CHR ''<'' (noted (proxied_of c))
      \<and> prefix (to_agent (proxied_of c)) (sc_client c)
      \<and> prefix (to_client (proxied_of c)) (case sc_agent c of None \<Rightarrow> [] | Some agent \<Rightarrow> agent)" for c
    using proxy_forwards [of "\<lparr>to_agent = [], to_client = [], noted = []\<rparr>" "sc_client c" "the (sc_agent c)"]
    by (auto simp: proxied_of_def split: option.split)
  show ?thesis
    unfolding Let_def t_def [symmetric]
    using prefix_sent [OF pre, unfolded ssh_script_proxy] seq [of "t_conn t"] by blast
qed

text \<open>A run with one client that asks for the identities of an agent that answers nothing.\<close>

definition ssh0 :: ssh_conn where
  "ssh0 = \<lparr>sc_client = write_frame [CHR 0x0B], sc_agent = Some [], sc_clock = (\<lambda>k. 5)\<rparr>"

lemma ssh0_script:
  "ssh_script D dbg pid index ssh0 =
    [Note (note_pieces 5 pid (index + 1) ''>'' (describe D dbg [CHR 0x0B])), Send (To_agent (write_frame [CHR 0x0B]))]"
proof -
  have "read_frame (write_frame [CHR 0x0B] @ []) = Inr ([CHR 0x0B], [])"
    by (rule read_write_frame) (simp_all add: MAX_FRAME_def)
  moreover have "read_frame [] = Inl Unexpected_Eof" by (simp add: read_frame_def read_exact_def)
  ultimately show ?thesis
    by (simp add: ssh_script_def ssh0_def ssh_loop.simps [of D dbg pid "Suc index" "\<lambda>k. 5" 0 "write_frame [CHR 0x0B]" "[]"])
qed

theorem proxies_refine_at:
  "\<exists>l ss. (world_step (\<lambda>k. ssh_script (\<lambda>b. []) (\<lambda>s. s) 7) True)\<^sup>*\<^sup>* ([], replicate 1 idle_server) (l, ss)
    \<and> t_conn (sv_threads (ss ! 0) ! 0) = ssh0
    \<and> prefix (noted_texts (t_done (sv_threads (ss ! 0) ! 0)))
        (ssh_lines (\<lambda>b. []) (\<lambda>s. s) 7 1 (\<lambda>k. 5) 0 (noted (proxied_of ssh0)))
    \<and> noted_texts (t_done (sv_threads (ss ! 0) ! 0)) \<noteq> []"
proof -
  let ?script = "ssh_script (\<lambda>b. []) (\<lambda>s. s) 7"
  let ?s = "\<lparr>sv_threads = [start_thread (?script 0) ssh0], sv_lock = None\<rparr> :: (ssh_conn, ssh_effect) server"
  let ?ps = "note_pieces 5 7 1 ''>'' (describe (\<lambda>b. []) (\<lambda>s. s) [CHR 0x0B])"
  have todo: "todo 0 ?s = Note ?ps # [Send (To_agent (write_frame [CHR 0x0B]))]"
    by (simp add: todo_def start_thread_def ssh0_script)
  have "server_step ?script True ([], idle_server) ([], ?s)"
    using accept [of ?script True "[]" idle_server ssh0] by (simp add: idle_server_def)
  then have "(server_step ?script True)\<^sup>*\<^sup>* ([], idle_server) ([] @ concat ?ps, advance 0 ?s)"
    using note_runs [OF todo, of ?script True "[]"] by (simp add: converse_rtranclp_into_rtranclp)
  from world_steps_one [where scripts = "\<lambda>k. ?script" and k = 0 and ss = "[idle_server]", OF this]
  have steps: "(world_step (\<lambda>k. ?script) True)\<^sup>*\<^sup>* ([], replicate 1 idle_server) (concat ?ps, [advance 0 ?s])" by simp
  have state: "t_conn (sv_threads (advance 0 ?s) ! 0) = ssh0" "noted_texts (t_done (sv_threads (advance 0 ?s) ! 0)) \<noteq> []"
    using todo by (simp_all add: advance_def start_thread_def ssh0_script)
  have "prefix (noted_texts (t_done (sv_threads (advance 0 ?s) ! 0)))
      (ssh_lines (\<lambda>b. []) (\<lambda>s. s) 7 1 (\<lambda>k. 5) 0 (noted (proxied_of ssh0)))"
    using proxies_refine [OF steps, of 0 0] state(1) by (simp add: Let_def ssh0_def)
  with steps state show ?thesis by (intro exI [of _ "concat ?ps"] exI [of _ "[advance 0 ?s]"]) simp
qed

text \<open>
  The line for an extension message carries the extension's name as the client sent it, line
  breaks included.
\<close>
theorem extension_name_verbatim:
  assumes "list_all (byte_in 0 0x7F) s" "length s < 2 ^ 32" "s \<noteq> SESSION_BIND"
  shows "describe D dbg (char_of (27 :: nat) # to_be_bytes (word_of_nat (length s)) @ s) = ''EXTENSION '' @ s"
  using assms by (rule describe_extension)

theorem extension_name_verbatim_at:
  "describe (\<lambda>b. []) (\<lambda>s. s) (char_of (27 :: nat) # to_be_bytes (word_of_nat (length [newline])) @ [newline])
    = ''EXTENSION '' @ [newline]"
  by (rule extension_name_verbatim) (simp_all add: byte_in_def SESSION_BIND_def)

section \<open>The opener\<close>

text \<open>
  C39. What the opener opens: exactly one argument, a URL of at most 8192 bytes without blanks or
  control characters, \<^verbatim>\<open>https\<close>, or \<^verbatim>\<open>http\<close> to this machine, with a plain host, perhaps a numeric
  port, and a rest that starts a path, a query or a fragment.
\<close>
theorem opens_exactly:
  "check_open args = Inr url \<longleftrightarrow> args = [url] \<and> opens url"
  using check_open_Inr [of args url] check_open_opens [of url] opens_check_open [of url] by blast

text \<open>
  C23. The opener of one run, however its requests interleave: whenever nobody writes, its log is what
  it was and whole lines after it, of each request none or its one, and its one once the request
  is finished; and what was opened is the single argument of a request, of the accepted shape.
\<close>
theorem one_line_each:
  assumes "(server_step (open_script path pid) True)\<^sup>*\<^sup>* (l0, idle_server) (l, s)" "sv_lock s = None"
  shows "\<exists>ls. l = l0 @ unlines (map snd ls) \<and> (\<forall>x \<in> set ls. fst x < length (sv_threads s) \<and> newline \<notin> set (snd x))
    \<and> (\<forall>i < length (sv_threads s). let t = sv_threads s ! i; c = t_conn t in
         unlines (of_thread i ls) \<in> {[], open_line path pid i c} \<and> length (of_thread i ls) \<le> 1
         \<and> (t_todo t = [] \<longrightarrow> unlines (of_thread i ls) = open_line path pid i c)
         \<and> (\<forall>url. Act (Opened url) \<in> set (t_done t) \<longrightarrow> read_args (oc_request c) = [url] \<and> opens url))"
proof -
  obtain ls where ls: "l = l0 @ unlines (map snd ls)" "\<forall>x \<in> set ls. newline \<notin> set (snd x)"
    "\<forall>x \<in> set ls. fst x < length (sv_threads s)"
    "\<forall>i < length (sv_threads s). map (\<lambda>x. x @ [newline]) (of_thread i ls) = noted_texts (t_done (sv_threads s ! i))"
    using assms by (rule open_log.log_lines)
  have fol: "scripted (open_script path pid) s" by (rule server_steps_scripted [OF assms(1)])
  have "unlines (of_thread i ls) \<in> {[], open_line path pid i (t_conn t)} \<and> length (of_thread i ls) \<le> 1
      \<and> (t_todo t = [] \<longrightarrow> unlines (of_thread i ls) = open_line path pid i (t_conn t))
      \<and> (\<forall>url. Act (Opened url) \<in> set (t_done t) \<longrightarrow> read_args (oc_request (t_conn t)) = [url] \<and> opens url)"
    if i: "i < length (sv_threads s)" and t: "t = sv_threads s ! i" for i t
  proof -
    have f: "follows (open_script path pid i) t" using fol i t by (simp add: scripted_def)
    have lines: "map (\<lambda>x. x @ [newline]) (of_thread i ls) = noted_texts (t_done t)" using ls(4) i t by simp
    then have un: "unlines (of_thread i ls) = concat (noted_texts (t_done t))" by (simp add: unlines_def flip: lines)
    have "length (of_thread i ls) = length (noted_texts (t_done t))" unfolding lines [symmetric] by simp
    with open_thread [OF f] un show ?thesis by auto
  qed
  then show ?thesis using ls(1-3) by (intro exI [of _ ls]) (simp add: Let_def)
qed

text \<open>A refused request, and the run it leaves its line in.\<close>

definition refused0 :: open_conn where
  "refused0 = \<lparr>oc_request = [], oc_clock = 5, oc_opener = (\<lambda>url. Exit_Ok)\<rparr>"

lemma refused_script:
  assumes "check_open (read_args (oc_request c)) = Inl why"
  shows "\<exists>r rest. open_script path pid index c = [Note (show_nat (oc_clock c) # rest), Send r]
    \<and> show_nat (oc_clock c) @ concat rest = open_line path pid index c"
  using assms open_note_log [of c pid index path]
  by (auto simp: open_script_def handle_open_def note_pieces_def)

theorem one_line_each_at:
  "\<exists>l s ls. (server_step (open_script ''/o'' 7) True)\<^sup>*\<^sup>* ([], idle_server) (l, s)
    \<and> l = unlines (map snd ls) \<and> length (sv_threads s) = 1 \<and> length (of_thread 0 ls) \<le> 1"
proof -
  let ?script = "open_script ''/o'' 7"
  have no: "check_open (read_args (oc_request refused0)) = Inl ''nothing to open''"
    by (simp add: refused0_def read_args_def text_lines_def check_open_def)
  obtain rest r where script: "?script 0 refused0 = [Note rest, Send r]" using refused_script [OF no] by metis
  let ?s = "\<lparr>sv_threads = [start_thread (?script 0) refused0], sv_lock = None\<rparr> :: (open_conn, open_effect) server"
  have todo: "todo 0 ?s = Note rest # [Send r]" by (simp add: todo_def start_thread_def script)
  have "server_step ?script True ([], idle_server) ([], ?s)"
    using accept [of ?script True "[]" idle_server refused0] by (simp add: idle_server_def)
  then have steps: "(server_step ?script True)\<^sup>*\<^sup>* ([], idle_server) (concat rest, advance 0 ?s)"
    using note_runs [OF todo, of ?script True "[]"] by (simp add: converse_rtranclp_into_rtranclp)
  from one_line_each [OF steps] obtain ls where "concat rest = unlines (map snd ls)" "length (of_thread 0 ls) \<le> 1"
    by (auto simp: Let_def)
  with steps show ?thesis by (intro exI [of _ "concat rest"] exI [of _ "advance 0 ?s"] exI [of _ ls]) simp
qed

text \<open>
  Two runs have the log in common and no lock between them: a line of one can stand in the middle
  of a line of the other, since a line is written piece by piece.
\<close>
theorem lines_mix:
  assumes "check_open (read_args (oc_request c)) = Inl why" "check_open (read_args (oc_request d)) = Inl why'"
  shows "\<exists>ss rest. (world_step (\<lambda>k. open_script path (pid k)) True)\<^sup>*\<^sup>* (l0, [idle_server, idle_server])
      (l0 @ show_nat (oc_clock c) @ open_line path (pid 1) 0 d @ rest, ss)
    \<and> show_nat (oc_clock c) @ rest = open_line path (pid 0) 0 c"
proof -
  let ?scripts = "\<lambda>k. open_script path (pid k)" and ?p = "show_nat (oc_clock c)"
  obtain r1 rest1 where c: "?scripts 0 0 c = [Note (?p # rest1), Send r1]" "?p @ concat rest1 = open_line path (pid 0) 0 c"
    using refused_script [OF assms(1)] by blast
  obtain r2 rest2 where d: "?scripts 1 0 d = [Note (show_nat (oc_clock d) # rest2), Send r2]"
    "show_nat (oc_clock d) @ concat rest2 = open_line path (pid 1) 0 d"
    using refused_script [OF assms(2)] by blast
  let ?s = "\<lambda>x ps. \<lparr>sv_threads = [start_thread (?scripts 0 0) c], sv_lock = ps\<rparr> :: (open_conn, open_effect) server"
  let ?t = "\<lparr>sv_threads = [start_thread (?scripts 1 0) d], sv_lock = None\<rparr> :: (open_conn, open_effect) server"
  have "(server_step (?scripts 0) True)\<^sup>*\<^sup>* (l0, idle_server) (l0 @ ?p, ?s c (Some (0, rest1)))"
  proof -
    have "(server_step (?scripts 0) True)\<^sup>*\<^sup>* (l0, idle_server) (l0, ?s c None)"
      by (rule r_into_rtranclp) (use accept [of "?scripts 0" True l0 idle_server c] in \<open>simp add: idle_server_def\<close>)
    also have "server_step (?scripts 0) True (l0, ?s c None) (l0, ?s c (Some (0, ?p # rest1)))"
      using lock [of 0 "?s c None" "?p # rest1" "[Send r1]" "?scripts 0" True l0]
      by (simp add: todo_def start_thread_def c(1))
    also have "server_step (?scripts 0) True (l0, ?s c (Some (0, ?p # rest1))) (l0 @ ?p, ?s c (Some (0, rest1)))"
      using put [of "?s c (Some (0, ?p # rest1))" 0 ?p rest1 "?scripts 0" True l0] by simp
    finally show ?thesis by simp
  qed
  from world_steps_one [where scripts = ?scripts and k = 0 and ss = "[idle_server, idle_server]", OF this]
  have 1: "(world_step ?scripts True)\<^sup>*\<^sup>* (l0, [idle_server, idle_server]) (l0 @ ?p, [?s c (Some (0, rest1)), idle_server])"
    by simp
  have "(server_step (?scripts 1) True)\<^sup>*\<^sup>* (l0 @ ?p, idle_server) ((l0 @ ?p) @ open_line path (pid 1) 0 d, advance 0 ?t)"
  proof -
    have "server_step (?scripts 1) True (l0 @ ?p, idle_server) (l0 @ ?p, ?t)"
      using accept [of "?scripts 1" True "l0 @ ?p" idle_server d] by (simp add: idle_server_def)
    moreover have "todo 0 ?t = Note (show_nat (oc_clock d) # rest2) # [Send r2]"
      by (simp add: todo_def start_thread_def d(1) [unfolded One_nat_def])
    ultimately show ?thesis
      using note_runs [of 0 ?t _ _ "?scripts 1" True "l0 @ ?p"] d(2)
      by (metis concat.simps(2) converse_rtranclp_into_rtranclp server.select_convs(2))
  qed
  from world_steps_one [where scripts = ?scripts and k = 1 and ss = "[?s c (Some (0, rest1)), idle_server]", OF this]
  have 2: "(world_step ?scripts True)\<^sup>*\<^sup>* (l0 @ ?p, [?s c (Some (0, rest1)), idle_server])
      ((l0 @ ?p) @ open_line path (pid 1) 0 d, [?s c (Some (0, rest1)), advance 0 ?t])"
    by simp
  have "(server_step (?scripts 0) True)\<^sup>*\<^sup>* ((l0 @ ?p) @ open_line path (pid 1) 0 d, ?s c (Some (0, rest1)))
      (((l0 @ ?p) @ open_line path (pid 1) 0 d) @ concat rest1, ?s c (Some (0, [])))"
    using puts [of "?s c (Some (0, rest1))" 0 rest1 "?scripts 0" True "(l0 @ ?p) @ open_line path (pid 1) 0 d"] by simp
  from world_steps_one [where scripts = ?scripts and k = 0 and ss = "[?s c (Some (0, rest1)), advance 0 ?t]", OF this]
  have 3: "(world_step ?scripts True)\<^sup>*\<^sup>* ((l0 @ ?p) @ open_line path (pid 1) 0 d, [?s c (Some (0, rest1)), advance 0 ?t])
      (((l0 @ ?p) @ open_line path (pid 1) 0 d) @ concat rest1, [?s c (Some (0, [])), advance 0 ?t])"
    by simp
  from rtranclp_trans [OF rtranclp_trans [OF 1 2] 3] c(2) show ?thesis by auto
qed

theorem lines_mix_at:
  "\<exists>ss rest. (world_step (\<lambda>k. open_script ''/o'' ((+) 7 k)) True)\<^sup>*\<^sup>* ([], [idle_server, idle_server])
      ([] @ show_nat (oc_clock refused0) @ open_line ''/o'' (7 + 1) 0 refused0 @ rest, ss)
    \<and> show_nat (oc_clock refused0) @ rest = open_line ''/o'' (7 + 0) 0 refused0"
  by (rule lines_mix) (simp_all add: refused0_def read_args_def text_lines_def check_open_def)

section \<open>The Bash hook\<close>

text \<open>
  C40. A Bash call whose command does not already start with the prefix is answered with the same
  input but for the command, and a shell reads the new command as exactly three words: the path of
  the program that confines as the text it is displayed as, which is the path itself when that is
  UTF-8, then \<^verbatim>\<open>-c\<close>, and the old command, whatever it holds.
\<close>
theorem command_confined:
  assumes "bash_call api parse payload input command" "\<not> prefix (command_prefix exit) (trim_start command)"
  shows "\<exists>reply line r1 r2. respond api parse not_object payload exit = Inr (Some reply)
    \<and> rp_updated_input reply = input(''command'' \<mapsto> of_string api line)
    \<and> shell_word False line = Some (from_utf8_lossy exit, '' '' @ r1)
    \<and> (utf8_valid exit \<longrightarrow> from_utf8_lossy exit = exit)
    \<and> shell_word False r1 = Some (''-c'', '' '' @ r2) \<and> shell_word False r2 = Some (command, [])"
proof -
  let ?line = "command_prefix exit @ shell_single_quote command"
  obtain r1 r2 where "shell_word False ?line = Some (from_utf8_lossy exit, '' '' @ r1)"
    "shell_word False r1 = Some (''-c'', '' '' @ r2)" "shell_word False r2 = Some (command, [])"
    using rewritten_words by blast
  with respond_bash [OF assms(1), of not_object exit] assms(2) from_utf8_lossy_valid [of exit] show ?thesis by auto
qed

lemma lossy0: "from_utf8_lossy ''/n'' = ''/n''"
  by (rule from_utf8_lossy_ascii) (simp add: byte_in_def)

theorem command_confined_at:
  "\<exists>reply line r1 r2. respond api0 parse0 () ''rm x'' ''/n'' = Inr (Some reply)
    \<and> rp_updated_input reply = (input0 ''rm x'')(''command'' \<mapsto> of_string api0 line)
    \<and> shell_word False line = Some (''/n'', '' '' @ r1)
    \<and> shell_word False r1 = Some (''-c'', '' '' @ r2) \<and> shell_word False r2 = Some (''rm x'', [])"
proof -
  have "\<not> prefix (command_prefix ''/n'') (trim_start ''rm x'')"
    by (simp add: command_prefix_def lossy0 bare_path_def is_ascii_alphanumeric_def ws1_def byte_in_def ws2_def ws3_def)
  from command_confined [OF bash_call0 this, of "()"] show ?thesis unfolding lossy0 by blast
qed

text \<open>A path that is not UTF-8 is written as another path, which need not be there.\<close>

lemma lossy_exit: "from_utf8_lossy [CHR ''/'', CHR 0xFF] = [CHR ''/'', CHR 0xEF, CHR 0xBF, CHR 0xBD]"
  by (simp add: from_utf8_lossy.simps [of "[CHR ''/'', CHR 0xFF]"] from_utf8_lossy.simps [of "[CHR 0xFF]"]
      utf8_step_def byte_in_def)

text \<open>
  The prefix is taken at its word: a command that starts with it is left as it is, whatever
  follows, so a rewritten command is not rewritten again, and neither is one that goes on after
  the confined word.
\<close>
theorem prefixed_left_alone:
  assumes "bash_call api parse payload input (command_prefix exit @ anything)" "exit \<noteq> []"
  shows "respond api parse not_object payload exit = Inr None"
  using respond_bash [OF assms(1), of not_object exit] command_prefix_start [OF assms(2), of anything] by simp

theorem prefixed_left_alone_at:
  "respond api0 parse0 () (command_prefix ''/n'' @ ''true; rm x'') ''/n'' = Inr None"
  by (rule prefixed_left_alone [OF bash_call0]) simp

end
