(* ===== verification/Seatbelt.thy ===== *)
theory Seatbelt
  imports Paths
begin

text \<open>
  The profile language, as far as \<^verbatim>\<open>policy.rs\<close> uses it: a specification, not code of the
  program. Profiles are Scheme text: lists, words, strings in which a backslash keeps the next
  quote or backslash, \<^verbatim>\<open>#"..."\<close> regular expressions, and comments from a semicolon to the
  end of the line. The comment on \<^verbatim>\<open>WRITE_OPS\<close> says how the rules are consulted: rules that
  name the operation first, then rules that name its classes, and among those the last match
  decides.
\<close>

section \<open>Reading a profile\<close>

datatype sexp = Word bytes | Text bytes | Pattern bytes | Form "sexp list"

datatype mode =
  Between
| In_word bytes
| In_text bytes
| In_text_escape bytes
| After_hash
| In_pattern bytes
| In_comment

text \<open>The lists still open, innermost first.\<close>

type_synonym reader = "mode \<times> sexp list list"

fun add_item :: "sexp \<Rightarrow> sexp list list \<Rightarrow> sexp list list" where
  "add_item x (l # ls) = (l @ [x]) # ls"
| "add_item x [] = []"

fun close_form :: "sexp list list \<Rightarrow> reader option" where
  "close_form (l # m # ls) = Some (Between, (m @ [Form l]) # ls)"
| "close_form _ = None"

definition between :: "sexp list list \<Rightarrow> char \<Rightarrow> reader option" where
  "between st c =
     (if c = CHR ''('' then Some (Between, [] # st)
      else if c = CHR '')'' then close_form st
      else if c = CHR '';'' then Some (In_comment, st)
      else if c = quote then Some (In_text [], st)
      else if c = CHR ''#'' then Some (After_hash, st)
      else if c = CHR '' '' \<or> c = newline then Some (Between, st)
      else Some (In_word [c], st))"

definition delimiter :: "char \<Rightarrow> bool" where
  "delimiter c \<longleftrightarrow> c \<in> {CHR ''('', CHR '')'', CHR '';'', quote, CHR ''#'', CHR '' '', newline}"

fun read_char :: "reader \<Rightarrow> char \<Rightarrow> reader option" where
  "read_char (Between, st) c = between st c"
| "read_char (In_word w, st) c =
     (if delimiter c then between (add_item (Word w) st) c else Some (In_word (w @ [c]), st))"
| "read_char (In_text s, st) c =
     (if c = quote then Some (Between, add_item (Text s) st)
      else if c = backslash then Some (In_text_escape s, st)
      else Some (In_text (s @ [c]), st))"
| "read_char (In_text_escape s, st) c =
     (if c = quote \<or> c = backslash then Some (In_text (s @ [c]), st) else None)"
| "read_char (After_hash, st) c = (if c = quote then Some (In_pattern [], st) else None)"
| "read_char (In_pattern s, st) c =
     (if c = quote then Some (Between, add_item (Pattern s) st) else Some (In_pattern (s @ [c]), st))"
| "read_char (In_comment, st) c = Some (if c = newline then Between else In_comment, st)"

fun read_chars :: "reader \<Rightarrow> bytes \<Rightarrow> reader option" where
  "read_chars r [] = Some r"
| "read_chars r (c # s) = Option.bind (read_char r c) (\<lambda>r'. read_chars r' s)"

definition read_profile :: "bytes \<Rightarrow> sexp list option" where
  "read_profile s =
     (case read_chars (Between, [[]]) s of Some (Between, [rules]) \<Rightarrow> Some rules | _ \<Rightarrow> None)"

section \<open>What the rules decide\<close>

text \<open>
  A filter on a path. \<open>rx\<close> is the matcher of regular expressions; every other filter
  (\<^verbatim>\<open>remote\<close>, \<^verbatim>\<open>local\<close>, \<^verbatim>\<open>global-name\<close>) says nothing of a path.
\<close>

fun filter_matches :: "(bytes \<Rightarrow> bytes \<Rightarrow> bool) \<Rightarrow> bytes \<Rightarrow> sexp \<Rightarrow> bool" where
  "filter_matches rx f (Form [Word w, Text p]) \<longleftrightarrow>
     (w = ''subpath'' \<and> path_starts_with f p) \<or> (w = ''literal'' \<and> path_eq f p)"
| "filter_matches rx f (Form [Word w, Pattern p]) \<longleftrightarrow> w = ''regex'' \<and> rx p f"
| "filter_matches rx f (Form (Word w # xs)) \<longleftrightarrow>
     w = ''require-all'' \<and> (\<forall>x \<in> set xs. filter_matches rx f x)"
| "filter_matches rx f _ \<longleftrightarrow> False"

definition is_word :: "sexp \<Rightarrow> bool" where
  "is_word x = (case x of Word _ \<Rightarrow> True | _ \<Rightarrow> False)"

text \<open>\<^verbatim>\<open>(with ...)\<close> changes what an allowed operation does, not where it is allowed.\<close>

definition is_modifier :: "sexp \<Rightarrow> bool" where
  "is_modifier x = (case x of Form (Word w # _) \<Rightarrow> w = ''with'' | _ \<Rightarrow> False)"

text \<open>A rule: its verdict, the operations it names, and its filters; without filters it matches
  everywhere.\<close>

fun rule_verdict :: "sexp \<Rightarrow> bool option" where
  "rule_verdict (Form (Word v # xs)) =
     (if v = ''allow'' then Some True else if v = ''deny'' then Some False else None)"
| "rule_verdict _ = None"

fun rule_ops :: "sexp \<Rightarrow> sexp list" where
  "rule_ops (Form (v # xs)) = takeWhile is_word xs"
| "rule_ops _ = []"

fun rule_filters :: "sexp \<Rightarrow> sexp list" where
  "rule_filters (Form (v # xs)) = filter (Not \<circ> is_modifier) (dropWhile is_word xs)"
| "rule_filters _ = []"

definition rule_applies :: "(bytes \<Rightarrow> bytes \<Rightarrow> bool) \<Rightarrow> bytes \<Rightarrow> bytes \<Rightarrow> sexp \<Rightarrow> bool" where
  "rule_applies rx op f r \<longleftrightarrow>
     rule_verdict r \<noteq> None \<and> Word op \<in> set (rule_ops r)
     \<and> (rule_filters r = [] \<or> (\<exists>x \<in> set (rule_filters r). filter_matches rx f x))"

text \<open>The last rule that applies.\<close>

definition last_verdict :: "(bytes \<Rightarrow> bytes \<Rightarrow> bool) \<Rightarrow> bytes \<Rightarrow> bytes \<Rightarrow> sexp list \<Rightarrow> bool option" where
  "last_verdict rx op f rules =
     (case rev (filter (rule_applies rx op f) rules) of [] \<Rightarrow> None | r # _ \<Rightarrow> rule_verdict r)"

text \<open>
  The operation is looked up under its own name, then under each of its \<open>classes\<close>; when no rule
  says anything, it is denied. \<open>lib\<close> is the content of the profiles that are imported.
\<close>

fun consult :: "(bytes \<Rightarrow> bytes \<Rightarrow> bool) \<Rightarrow> bytes list \<Rightarrow> bytes \<Rightarrow> sexp list \<Rightarrow> bool" where
  "consult rx [] f rules = False"
| "consult rx (op # classes) f rules =
     (case last_verdict rx op f rules of Some v \<Rightarrow> v | None \<Rightarrow> consult rx classes f rules)"

fun expand_rule :: "(bytes \<Rightarrow> sexp list) \<Rightarrow> sexp \<Rightarrow> sexp list" where
  "expand_rule lib (Form [Word w, Text name]) =
     (if w = ''import'' then lib name else [Form [Word w, Text name]])"
| "expand_rule lib r = [r]"

definition expand_imports :: "(bytes \<Rightarrow> sexp list) \<Rightarrow> sexp list \<Rightarrow> sexp list" where
  "expand_imports lib rules = concat (map (expand_rule lib) rules)"

text \<open>Whether a profile lets a process do \<open>op\<close> on the path \<open>f\<close>; a profile that cannot be read
  starts nothing.\<close>

definition permits ::
  "(bytes \<Rightarrow> sexp list) \<Rightarrow> (bytes \<Rightarrow> bytes \<Rightarrow> bool) \<Rightarrow> bytes \<Rightarrow> bytes \<Rightarrow> bytes list \<Rightarrow> bytes \<Rightarrow> bool"
where
  "permits lib rx profile op classes f =
     (case read_profile profile of
        None \<Rightarrow> False
      | Some rules \<Rightarrow> consult rx (op # classes) f (expand_imports lib rules))"

section \<open>Printing, and reading back what was printed\<close>

text \<open>A string literal, and the forms as the profiles lay them out: one blank between items.\<close>

fun escape_text :: "bytes \<Rightarrow> bytes" where
  "escape_text [] = []"
| "escape_text (c # s) =
     (if c = backslash \<or> c = quote then [backslash, c] else [c]) @ escape_text s"

fun show_sexp :: "sexp \<Rightarrow> bytes" and show_items :: "sexp list \<Rightarrow> bytes" where
  "show_sexp (Word w) = w"
| "show_sexp (Text s) = quote # escape_text s @ [quote]"
| "show_sexp (Pattern s) = CHR ''#'' # quote # s @ [quote]"
| "show_sexp (Form xs) = CHR ''('' # show_items xs @ [CHR '')'']"
| "show_items [] = []"
| "show_items (x # xs) = show_sexp x @ (if xs = [] then [] else CHR '' '' # show_items xs)"

definition plain_word :: "bytes \<Rightarrow> bool" where
  "plain_word w \<longleftrightarrow> w \<noteq> [] \<and> list_all (\<lambda>c. \<not> delimiter c) w"

fun plain :: "sexp \<Rightarrow> bool" where
  "plain (Word w) \<longleftrightarrow> plain_word w"
| "plain (Text s) \<longleftrightarrow> True"
| "plain (Pattern s) \<longleftrightarrow> quote \<notin> set s"
| "plain (Form xs) \<longleftrightarrow> list_all plain xs"

lemma read_chars_append:
  "read_chars r (s @ t) = Option.bind (read_chars r s) (\<lambda>r'. read_chars r' t)"
  by (induction s arbitrary: r) (simp_all split: bind_splits)

lemma read_text:
  "read_chars (In_text t, st) (escape_text s @ quote # u)
   = read_chars (Between, add_item (Text (t @ s)) st) u"
  by (induction s arbitrary: t) simp_all

lemma read_pattern:
  "quote \<notin> set s \<Longrightarrow> read_chars (In_pattern t, st) (s @ quote # u)
   = read_chars (Between, add_item (Pattern (t @ s)) st) u"
  by (induction s arbitrary: t) auto

lemma read_word_rest:
  "list_all (\<lambda>c. \<not> delimiter c) w \<Longrightarrow> delimiter d \<Longrightarrow>
   read_chars (In_word v, st) (w @ d # u)
   = read_chars (Between, add_item (Word (v @ w)) st) (d # u)"
  by (induction w arbitrary: v) auto

lemma read_word:
  assumes "plain_word w" "delimiter d"
  shows "read_chars (Between, st) (w @ d # u)
    = read_chars (Between, add_item (Word w) st) (d # u)"
proof -
  obtain c v where w: "w = c # v" using assms(1) by (cases w) (auto simp: plain_word_def)
  then have "read_chars (Between, st) (w @ d # u) = read_chars (In_word [c], st) (v @ d # u)"
    using assms(1) by (simp add: plain_word_def delimiter_def between_def)
  then show ?thesis using assms w read_word_rest [of v d "[c]" st u] by (simp add: plain_word_def)
qed

lemma delimiters [simp]:
  "delimiter CHR '' ''" "delimiter CHR '')''" "delimiter newline"
  by (simp_all add: delimiter_def)

text \<open>Items inside a form that is open: whatever delimits them follows.\<close>

lemma read_show:
  "plain x \<Longrightarrow> delimiter d \<Longrightarrow>
   read_chars (Between, l # ls) (show_sexp x @ d # u)
   = read_chars (Between, (l @ [x]) # ls) (d # u)"
  "list_all plain xs \<Longrightarrow>
   read_chars (Between, l # ls) (show_items xs @ CHR '')'' # u)
   = read_chars (Between, (l @ xs) # ls) (CHR '')'' # u)"
proof (induction x and xs arbitrary: d l ls u and l ls u rule: show_sexp_show_items.induct)
  case (1 w)
  then show ?case by (simp add: read_word)
next
  case (2 s)
  then show ?case by (simp add: between_def read_text)
next
  case (3 s)
  then show ?case by (simp add: between_def read_pattern)
next
  case (4 xs)
  then show ?case by (simp add: between_def)
next
  case 5
  then show ?case by simp
next
  case (6 x xs)
  then show ?case by (cases "xs = []") (simp_all add: between_def)
qed

lemma read_form:
  assumes "plain (Form xs)"
  shows "read_chars (Between, l # ls) (show_sexp (Form xs) @ u)
    = read_chars (Between, (l @ [Form xs]) # ls) u"
  using assms read_show(2) [of xs "[]" "l # ls" u] by (simp add: between_def)

lemma read_comment:
  "newline \<notin> set s \<Longrightarrow>
   read_chars (In_comment, st) (s @ newline # u) = read_chars (Between, st) u"
  by (induction s) auto

end
