(* ===== verification/Policy.thy ===== *)
theory Policy
  imports Seatbelt
begin

text \<open>
  \<^verbatim>\<open>src/src/policy.rs\<close>: the rules of a run and the two Seatbelt profiles rendered from them,
  line by line as the source writes them; what the two profiles say, read back as rules; and what
  those rules decide.
\<close>

section \<open>The policy and its text\<close>

record policy =
  po_project :: bytes
  po_home :: bytes
  po_state :: bytes
  po_tmp :: bytes
  po_exit :: bytes
  po_grants :: "bytes list"
  po_ssh_agent :: "bytes option"
  po_open_sock :: bytes

definition WRITE_OPS :: bytes where
  "WRITE_OPS = ''file-write* file-write-acl file-write-create file-write-data file-write-flags file-write-mode file-write-owner file-write-setugid file-write-unlink file-write-xattr file-link''"

definition sbpl_string :: "bytes \<Rightarrow> bytes" where
  "sbpl_string path =
     quote
     # concat (map (\<lambda>c. if c = backslash \<or> c = quote then [backslash, c] else [c])
         (from_utf8_lossy path))
     @ [quote]"

definition body :: "policy \<Rightarrow> bytes" where
  "body p =
     unlines [
      ''(version 1)'',
      ''(deny default)'',
      ''(import \"system.sb\")'',
      '''',
      '';; The agent runs commands, and those commands run commands.'',
      ''(allow process-fork process-exec)'',
      ''(allow signal)                          ; Claude Code kills timed-out commands'',
      ''(allow sysctl-read)'',
      ''(allow file-ioctl)                      ; terminals: window size, raw mode'',
      '''',
      '';; Reading is open; credentials and the vault's keys are not. The session log'',
      '';; beside the vault stays readable: it is the user's own record of the run.'',
      ''(allow file-read*)'',
      ''(deny file-read* file-read-data file-read-metadata file-read-xattr (subpath '' @ sbpl_string (path_join (po_home p) ''.ssh'') @ '') (subpath '' @ sbpl_string (path_join (po_home p) ''.aws'') @ '') (subpath '' @ sbpl_string (path_join (po_state p) ''vault'') @ ''))'',
      '''',
      '';; Writable: the project, the temp dir, Claude Code's scratch directories, and'',
      '';; each agent's own state: `~/.claude`, `~/.claude.json` and its backup and'',
      '';; temp files, and `~/.codex`. HOME is matched as a subpath rather than spliced'',
      '';; into the regex, because escaping a path into a regex is error-prone.'',
      ''(allow file-write* (subpath '' @ sbpl_string (po_project p) @ '') (subpath '' @ sbpl_string (po_tmp p) @ '') (regex #\"^/private/tmp/claude-\") (require-all (subpath '' @ sbpl_string (po_home p) @ '') (regex #\"/'' @ backslash # ''.claude(/|$)\")) (require-all (subpath '' @ sbpl_string (po_home p) @ '') (regex #\"/'' @ backslash # ''.codex(/|$)\")) (require-all (subpath '' @ sbpl_string (po_home p) @ '') (regex #\"/'' @ backslash # ''.claude'' @ backslash # ''.json[^/]*$\")))'',
      '''',
      '';; DNS, network configuration and the keychain: what an HTTPS client needs.'',
      ''(allow mach-lookup (global-name \"com.apple.dnssd.service\") (global-name \"com.apple.SystemConfiguration.configd\") (global-name \"com.apple.SecurityServer\"))'',
      ''(allow network-outbound (literal \"/private/var/run/mDNSResponder\"))'',
      '';; A wildcard host with an exact port matches; a wildcard port would not.'',
      ''(allow network-outbound (remote tcp \"*:443\"))'',
      '''',
      '';; Allow binding to ports on localhost:* and using them.'',
      ''(allow network-bind (local ip \"localhost:*\"))'',
      ''(allow network-inbound (local ip \"localhost:*\"))'',
      ''(allow network-outbound (local ip \"localhost:*\"))'',
      '''',
      '';; gpg signs through gpg-agent's socket. Only the restricted one: it refuses'',
      '';; key export, loopback pinentry and agent control, which the main socket'',
      '';; S.gpg-agent would all allow. Nothing in ~/.gnupg is writable, because the'',
      '';; agent runs the programs its config names outside this sandbox.'',
      ''(allow network-outbound (literal '' @ sbpl_string (path_join (po_home p) ''.gnupg/S.gpg-agent.extra'') @ ''))'']
     @ (case po_ssh_agent p of
          None \<Rightarrow> []
        | Some sock \<Rightarrow> unlines [
          '''',
          '';; ssh reaches the user's agent through nd7's proxy socket in the session'',
          '';; directory, never the agent's own; and it may read known_hosts, the one file'',
          '';; under ~/.ssh it needs before it asks the agent for anything. Without an'',
          '';; agent there is no proxy, and so no ssh at all.'',
          ''(allow network-outbound (literal '' @ sbpl_string sock @ ''))'',
          ''(allow file-read* file-read-data file-read-metadata file-read-xattr (literal '' @ sbpl_string (path_join (po_home p) ''.ssh/known_hosts'') @ ''))''])"

definition deny_records :: "policy \<Rightarrow> bytes" where
  "deny_records p =
     unlines [
      '''',
      '';; Last, so the last match wins: nd7's own records stay unwritable, whatever'',
      '';; the rules above allow: the session directories `nd7-exec` reads its policy'',
      '';; from, and the state root holding the flight recorder and the vault.'',
      ''(deny '' @ WRITE_OPS @ '' (subpath '' @ sbpl_string (path_join (po_home p) ''.nd7'') @ '') (subpath '' @ sbpl_string (po_state p) @ ''))'']"

definition deny_agent_config :: "policy \<Rightarrow> bytes" where
  "deny_agent_config p =
     unlines [
      '''',
      '';; And last of all, for the same reason: a session may not rewrite the hooks'',
      '';; or the sandbox settings that the next session starts with.'',
      ''(deny '' @ WRITE_OPS @ '' (literal '' @ sbpl_string (path_join (po_home p) ''.codex/config.toml'') @ '') (literal '' @ sbpl_string (path_join (po_home p) ''.codex/hooks.json'') @ '') (literal '' @ sbpl_string (path_join (po_home p) ''.claude/settings.json'') @ ''))'']"

text \<open>What \<^verbatim>\<open>render_floor\<close> says beyond the body and the denies.\<close>

definition floor_text :: "policy \<Rightarrow> bytes" where
  "floor_text p =
     unlines [
      '''',
      '';; The floor's one exit: nd7-exec, which applies the session policy to itself'',
      '';; before it runs anything. Nothing else leaves this sandbox.'',
      ''(allow process-exec (with no-sandbox) (literal '' @ sbpl_string (po_exit p) @ ''))'']
     @ unlines [
      '''',
      '';; Signing in belongs to Claude Code's own process, not to the commands the'',
      '';; model runs, so the floor allows this and the per-command profile does not.'',
      '';; `security` saves the token by rewriting the login keychain through a temp'',
      '';; file beside it, which it must be able to create.'',
      ''(allow file-write* (require-all (subpath '' @ sbpl_string (po_home p) @ '') (regex #\"/Library/Keychains/login'' @ backslash # ''.keychain-db('' @ backslash # ''.sb-[^/]*)?$\")))'']
     @ unlines [
      '''',
      '';; Signing in also means handing a URL to the browser, which no sandboxed'',
      '';; process can do, so a shim on the program's PATH asks nd7's broker instead.'',
      '';; The floor alone reaches that socket; the commands the model runs cannot'',
      '';; open anything.'',
      ''(allow network-outbound (literal '' @ sbpl_string (po_open_sock p) @ ''))'']"

definition render_floor :: "policy \<Rightarrow> bytes" where
  "render_floor p = body p @ floor_text p @ deny_records p @ deny_agent_config p"

definition render_policy :: "policy \<Rightarrow> bytes" where
  "render_policy p =
     body p
     @ (if po_grants p = [] then []
        else unlines ['''', '';; Write roots added by `nd7 allow` during this run.'']
          @ concat (map (\<lambda>grant. unlines [''(allow file-write* (subpath '' @ sbpl_string grant @ ''))'']) (po_grants p)))
     @ deny_records p @ deny_agent_config p"

section \<open>What the profiles say\<close>

text \<open>The same rules as forms, with a path wherever the text has one.\<close>

abbreviation path_text :: "bytes \<Rightarrow> sexp" where
  "path_text p \<equiv> Text (from_utf8_lossy p)"

abbreviation subpath :: "bytes \<Rightarrow> sexp" where
  "subpath p \<equiv> Form [Word ''subpath'', path_text p]"

abbreviation literal :: "bytes \<Rightarrow> sexp" where
  "literal p \<equiv> Form [Word ''literal'', path_text p]"

abbreviation regex :: "bytes \<Rightarrow> sexp" where
  "regex r \<equiv> Form [Word ''regex'', Pattern r]"

abbreviation require_all :: "sexp list \<Rightarrow> sexp" where
  "require_all fs \<equiv> Form (Word ''require-all'' # fs)"

definition allow :: "bytes list \<Rightarrow> sexp list \<Rightarrow> sexp" where
  "allow ops fs = Form (Word ''allow'' # map Word ops @ fs)"

definition deny :: "bytes list \<Rightarrow> sexp list \<Rightarrow> sexp" where
  "deny ops fs = Form (Word ''deny'' # map Word ops @ fs)"

definition WRITE_OP_NAMES :: "bytes list" where
  "WRITE_OP_NAMES =
     [''file-write*'', ''file-write-acl'', ''file-write-create'', ''file-write-data'',
      ''file-write-flags'', ''file-write-mode'', ''file-write-owner'', ''file-write-setugid'',
      ''file-write-unlink'', ''file-write-xattr'', ''file-link'']"

definition body_rules :: "policy \<Rightarrow> sexp list" where
  "body_rules p =
     [Form [Word ''version'', Word ''1''],
      deny [''default''] [],
      Form [Word ''import'', Text ''system.sb''],
      allow [''process-fork'', ''process-exec''] [],
      allow [''signal''] [],
      allow [''sysctl-read''] [],
      allow [''file-ioctl''] [],
      allow [''file-read*''] [],
      deny [''file-read*'', ''file-read-data'', ''file-read-metadata'',
          ''file-read-xattr''] [subpath (path_join (po_home p) ''.ssh''),
          subpath (path_join (po_home p) ''.aws''), subpath (path_join (po_state p) ''vault'')],
      allow [''file-write*''] [subpath (po_project p), subpath (po_tmp p),
          regex ''^/private/tmp/claude-'', require_all [subpath (po_home p),
          regex (''/'' @ backslash # ''.claude(/|$)'')], require_all [subpath (po_home p),
          regex (''/'' @ backslash # ''.codex(/|$)'')], require_all [subpath (po_home p),
          regex (''/'' @ backslash # ''.claude'' @ backslash # ''.json[^/]*$'')]],
      allow [''mach-lookup''] [Form [Word ''global-name'', Text ''com.apple.dnssd.service''],
          Form [Word ''global-name'', Text ''com.apple.SystemConfiguration.configd''],
          Form [Word ''global-name'', Text ''com.apple.SecurityServer'']],
      allow [''network-outbound''] [Form [Word ''literal'',
          Text ''/private/var/run/mDNSResponder'']],
      allow [''network-outbound''] [Form [Word ''remote'', Word ''tcp'', Text ''*:443'']],
      allow [''network-bind''] [Form [Word ''local'', Word ''ip'', Text ''localhost:*'']],
      allow [''network-inbound''] [Form [Word ''local'', Word ''ip'', Text ''localhost:*'']],
      allow [''network-outbound''] [Form [Word ''local'', Word ''ip'', Text ''localhost:*'']],
      allow [''network-outbound''] [literal (path_join (po_home p) ''.gnupg/S.gpg-agent.extra'')]]
     @ (case po_ssh_agent p of
          None \<Rightarrow> []
        | Some sock \<Rightarrow>
         [allow [''network-outbound''] [literal sock],
          allow [''file-read*'', ''file-read-data'', ''file-read-metadata'',
              ''file-read-xattr''] [literal (path_join (po_home p) ''.ssh/known_hosts'')]])"

definition deny_records_rule :: "policy \<Rightarrow> sexp" where
  "deny_records_rule p =
     deny WRITE_OP_NAMES [subpath (path_join (po_home p) ''.nd7''), subpath (po_state p)]"

definition deny_agent_config_rule :: "policy \<Rightarrow> sexp" where
  "deny_agent_config_rule p =
     deny WRITE_OP_NAMES
       [literal (path_join (po_home p) ''.codex/config.toml''),
        literal (path_join (po_home p) ''.codex/hooks.json''),
        literal (path_join (po_home p) ''.claude/settings.json'')]"

definition floor_own_rules :: "policy \<Rightarrow> sexp list" where
  "floor_own_rules p =
     [allow [''process-exec''] [Form [Word ''with'', Word ''no-sandbox''], literal (po_exit p)]]
     @ [allow [''file-write*'']
        [require_all [subpath (po_home p),
           regex (''/Library/Keychains/login'' @ backslash # ''.keychain-db('' @ backslash # ''.sb-[^/]*)?$'')]]]
     @ [allow [''network-outbound''] [literal (po_open_sock p)]]"

definition floor_rules :: "policy \<Rightarrow> sexp list" where
  "floor_rules p =
     body_rules p @ floor_own_rules p @ [deny_records_rule p, deny_agent_config_rule p]"

definition policy_rules :: "policy \<Rightarrow> sexp list" where
  "policy_rules p =
     body_rules p
     @ map (\<lambda>grant. allow [''file-write*''] [subpath grant]) (po_grants p)
     @ [deny_records_rule p, deny_agent_config_rule p]"

section \<open>Reading the profiles back\<close>

text \<open>A text reads as \<open>xs\<close> when, inside any open list, it adds exactly these items.\<close>

definition reads :: "bytes \<Rightarrow> sexp list \<Rightarrow> bool" where
  "reads s xs \<longleftrightarrow> (\<forall>l ls u.
     read_chars (Between, l # ls) (s @ u) = read_chars (Between, (l @ xs) # ls) u)"

lemma readsI:
  "(\<And>l ls u. read_chars (Between, l # ls) (s @ u) = read_chars (Between, (l @ xs) # ls) u)
   \<Longrightarrow> reads s xs"
  by (simp add: reads_def)

lemma readsD:
  "reads s xs \<Longrightarrow> read_chars (Between, l # ls) (s @ u) = read_chars (Between, (l @ xs) # ls) u"
  by (simp add: reads_def)

lemma reads_Nil: "reads [] []"
  by (simp add: reads_def)

lemma reads_append:
  assumes "reads s xs" "reads t ys"
  shows "reads (s @ t) (xs @ ys)"
  using assms by (auto simp: reads_def)

lemma reads_concat: "(\<And>x. reads (f x) (g x)) \<Longrightarrow> reads (concat (map f xs)) (concat (map g xs))"
  by (induction xs) (simp_all add: reads_Nil reads_append)

lemma reads_option:
  "reads s xs \<Longrightarrow> (\<And>a. reads (f a) (g a)) \<Longrightarrow>
   reads (case v of None \<Rightarrow> s | Some a \<Rightarrow> f a) (case v of None \<Rightarrow> xs | Some a \<Rightarrow> g a)"
  by (cases v) simp_all

lemma reads_profile: "reads s xs \<Longrightarrow> read_profile s = Some xs"
  using readsD [of s xs "[]" "[]" "[]"] by (simp add: read_profile_def)

text \<open>The lines of a profile: blank, comment, or one rule with an optional comment after it.\<close>

lemma line_blank:
  assumes "reads (unlines ls) ys"
  shows "reads (unlines ([] # ls)) ys"
  by (rule readsI) (simp add: between_def readsD [OF assms])

lemma line_comment:
  assumes "newline \<notin> set s" "reads (unlines ls) ys"
  shows "reads (unlines ((CHR '';'' # s) # ls)) ys"
  by (rule readsI) (simp add: between_def read_comment [OF assms(1)] readsD [OF assms(2)])

definition is_form :: "sexp \<Rightarrow> bool" where
  "is_form x \<longleftrightarrow> (case x of Form _ \<Rightarrow> True | _ \<Rightarrow> False)"

lemma line_rule_comment:
  assumes "is_form x" "plain x" "l = show_sexp x @ replicate n (CHR '' '') @ CHR '';'' # s"
    "newline \<notin> set s" "reads (unlines ls) ys"
  shows "reads (unlines (l # ls)) (x # ys)"
proof (rule readsI)
  fix k ks u
  obtain xs where x: "x = Form xs" using assms(1) by (auto simp: is_form_def split: sexp.splits)
  have blanks: "read_chars (Between, st) (replicate n (CHR '' '') @ v) = read_chars (Between, st) v"
    for st v by (induction n) (simp_all add: between_def)
  have "read_chars (Between, k # ks) (unlines (l # ls) @ u)
      = read_chars (Between, (k @ [x]) # ks) (CHR '';'' # s @ newline # unlines ls @ u)"
    using read_form assms(2,3) x blanks by (simp del: show_sexp.simps)
  also have "\<dots> = read_chars (Between, (k @ x # ys) # ks) u"
    using read_comment [OF assms(4)] readsD [OF assms(5)] by (simp add: between_def)
  finally show "read_chars (Between, k # ks) (unlines (l # ls) @ u)
      = read_chars (Between, (k @ x # ys) # ks) u" .
qed

lemma line_rule:
  assumes "is_form x" "plain x" "l = show_sexp x" "reads (unlines ls) ys"
  shows "reads (unlines (l # ls)) (x # ys)"
proof (rule readsI)
  fix k ks u
  obtain xs where x: "x = Form xs" using assms(1) by (auto simp: is_form_def split: sexp.splits)
  have "read_chars (Between, k # ks) (unlines (l # ls) @ u)
      = read_chars (Between, (k @ [x]) # ks) (newline # unlines ls @ u)"
    using read_form assms(2,3) x by (simp del: show_sexp.simps)
  also have "\<dots> = read_chars (Between, (k @ x # ys) # ks) u"
    using readsD [OF assms(4)] by (simp add: between_def)
  finally show "read_chars (Between, k # ks) (unlines (l # ls) @ u)
      = read_chars (Between, (k @ x # ys) # ks) u" .
qed

lemma sbpl_string_eq: "sbpl_string p = quote # escape_text (from_utf8_lossy p) @ [quote]"
proof -
  have "concat (map (\<lambda>c. if c = backslash \<or> c = quote then [backslash, c] else [c]) s)
      = escape_text s" for s
    by (induction s) auto
  then show ?thesis by (simp add: sbpl_string_def)
qed

lemmas layout = is_form_def allow_def deny_def WRITE_OPS_def WRITE_OP_NAMES_def sbpl_string_eq

lemma plain_words [simp]: "plain_word w \<longleftrightarrow> w \<noteq> [] \<and> (\<forall>c \<in> set w. c \<notin>
    {CHR ''('', CHR '')'', CHR '';'', quote, CHR ''#'', CHR '' '', newline})"
  by (simp add: plain_word_def list_all_iff delimiter_def)

lemma lines_end: "reads (unlines []) []"
  by (simp add: reads_Nil)

text \<open>The two rules of the body with a comment after them.\<close>

lemma commented_lines:
  assumes "reads (unlines ls) ys"
  shows "reads (unlines (''(allow signal)                          ; Claude Code kills timed-out commands'' # ls))
      (allow [''signal''] [] # ys)"
    and "reads (unlines (''(allow file-ioctl)                      ; terminals: window size, raw mode'' # ls))
      (allow [''file-ioctl''] [] # ys)"
  by (rule line_rule_comment
        [where n = 26 and s = "'' Claude Code kills timed-out commands''", OF _ _ _ _ assms],
      (simp_all add: layout numeral_eq_Suc)[4],
      rule line_rule_comment
        [where n = 22 and s = "'' terminals: window size, raw mode''", OF _ _ _ _ assms],
      simp_all add: layout numeral_eq_Suc)

text \<open>Every block of the two profiles reads as its rules.\<close>

lemma blocks_read:
  "reads (body p) (body_rules p)"
  "reads (floor_text p) (floor_own_rules p)"
  "reads (unlines ['''', '';; Write roots added by `nd7 allow` during this run.'']) []"
  "reads (unlines [''(allow file-write* (subpath '' @ sbpl_string g @ ''))''])
     [allow [''file-write*''] [subpath g]]"
  "reads (deny_records p) [deny_records_rule p]"
  "reads (deny_agent_config p) [deny_agent_config_rule p]"
  unfolding body_def body_rules_def deny_records_def deny_agent_config_def floor_text_def
    floor_own_rules_def deny_records_rule_def deny_agent_config_rule_def
  by (rule reads_append reads_Nil reads_option lines_end line_blank commented_lines
      | (rule line_comment, (simp; fail))
      | (rule line_rule, (simp add: layout; fail), (simp add: layout; fail), (simp add: layout; fail)))+

text \<open>Both profiles read back as their rules.\<close>

lemma profiles_rules:
  "read_profile (render_floor p) = Some (floor_rules p)"
  "read_profile (render_policy p) = Some (policy_rules p)"
proof -
  have "reads (concat (map (\<lambda>g. unlines [''(allow file-write* (subpath '' @ sbpl_string g @ ''))'']) gs))
      (map (\<lambda>g. allow [''file-write*''] [subpath g]) gs)" for gs
    by (induction gs) (use reads_append [OF blocks_read(4)] in \<open>simp_all add: reads_Nil\<close>)
  then have "reads (if po_grants p = [] then []
      else unlines ['''', '';; Write roots added by `nd7 allow` during this run.'']
        @ concat (map (\<lambda>g. unlines [''(allow file-write* (subpath '' @ sbpl_string g @ ''))'']) (po_grants p)))
      (map (\<lambda>g. allow [''file-write*''] [subpath g]) (po_grants p))"
    using reads_append [OF blocks_read(3)] by (auto simp: reads_Nil simp del: unlines_simps)
  note grants = reads_append [OF this reads_append [OF blocks_read(5,6)]]
  show "read_profile (render_policy p) = Some (policy_rules p)"
    unfolding render_policy_def policy_rules_def
    using reads_append [OF blocks_read(1) grants] by (intro reads_profile) simp
  show "read_profile (render_floor p) = Some (floor_rules p)"
    unfolding render_floor_def floor_rules_def
    using reads_append [OF blocks_read(1) reads_append [OF blocks_read(2) reads_append [OF blocks_read(5,6)]]]
    by (intro reads_profile) simp
qed

end
