(* ===== verification/PolicyRules.thy ===== *)
theory PolicyRules
  imports Policy
begin

text \<open>
  What the two profiles decide: which paths a command may write, and that the records, the agents'
  configuration and the credentials stay closed whatever the grants and the system's own profile
  say. The profile that is imported (\<open>lib\<close>), the matcher of regular expressions (\<open>rx\<close>) and the
  classes of an operation are arguments.
\<close>

section \<open>What the rules decide\<close>

lemma last_verdict_Nil [simp]: "last_verdict rx op f [] = None"
  by (simp add: last_verdict_def)

lemma last_verdict_append:
  "last_verdict rx op f (rs @ qs) =
     (case last_verdict rx op f qs of None \<Rightarrow> last_verdict rx op f rs | Some v \<Rightarrow> Some v)"
proof (cases "rev (filter (rule_applies rx op f) qs)")
  case (Cons r ys)
  then have "r \<in> set (rev (filter (rule_applies rx op f) qs))" by simp
  then have "rule_applies rx op f r" by simp
  with Cons show ?thesis by (auto simp: last_verdict_def rule_applies_def)
qed (simp add: last_verdict_def)

lemma last_verdict_Cons:
  "last_verdict rx op f (r # qs) =
     (case last_verdict rx op f qs of
        None \<Rightarrow> if rule_applies rx op f r then rule_verdict r else None
      | Some v \<Rightarrow> Some v)"
  using last_verdict_append [of rx op f "[r]" qs] by (simp add: last_verdict_def split: option.split)

lemma words_split [simp]:
  "takeWhile is_word (map Word ops @ fs) = map Word ops @ takeWhile is_word fs"
  "dropWhile is_word (map Word ops @ fs) = dropWhile is_word fs"
  by (induction ops) (simp_all add: is_word_def)

text \<open>Filters are forms, so the words of a rule are its operations.\<close>

lemma rule_allow [simp]:
  "rule_verdict (allow ops fs) = Some True" "rule_verdict (deny ops fs) = Some False"
  by (simp_all add: allow_def deny_def)

lemma is_form_simps [simp]:
  "is_form (Form xs)" "\<not> is_form (Word w)" "\<not> is_form (Text s)" "\<not> is_form (Pattern r)"
  by (simp_all add: is_form_def)

lemma rule_applies_allow:
  "list_all is_form fs \<Longrightarrow> rule_applies rx op f (allow ops fs) \<longleftrightarrow>
     op \<in> set ops \<and> (let gs = filter (Not \<circ> is_modifier) fs in
       gs = [] \<or> (\<exists>x \<in> set gs. filter_matches rx f x))"
  "list_all is_form fs \<Longrightarrow> rule_applies rx op f (deny ops fs) \<longleftrightarrow>
     op \<in> set ops \<and> (let gs = filter (Not \<circ> is_modifier) fs in
       gs = [] \<or> (\<exists>x \<in> set gs. filter_matches rx f x))"
proof -
  assume "list_all is_form fs"
  then have "takeWhile is_word fs = []" "dropWhile is_word fs = fs"
    by (cases fs; auto simp: is_form_def is_word_def split: sexp.splits)+
  then show "rule_applies rx op f (allow ops fs) \<longleftrightarrow>
     op \<in> set ops \<and> (let gs = filter (Not \<circ> is_modifier) fs in
       gs = [] \<or> (\<exists>x \<in> set gs. filter_matches rx f x))"
   "rule_applies rx op f (deny ops fs) \<longleftrightarrow>
     op \<in> set ops \<and> (let gs = filter (Not \<circ> is_modifier) fs in
       gs = [] \<or> (\<exists>x \<in> set gs. filter_matches rx f x))"
    by (auto simp: rule_applies_def allow_def deny_def Let_def image_iff)
qed

lemma expand_imports_simps:
  "expand_imports lib [] = []"
  "expand_imports lib (r # rs) = expand_rule lib r @ expand_imports lib rs"
  "expand_imports lib (rs @ qs) = expand_imports lib rs @ expand_imports lib qs"
  by (simp_all add: expand_imports_def)

lemma expand_allow:
  "list_all is_form fs \<Longrightarrow> expand_rule lib (allow ops fs) = [allow ops fs]"
  "list_all is_form fs \<Longrightarrow> expand_rule lib (deny ops fs) = [deny ops fs]"
  by (cases ops; cases fs; cases "tl ops"; cases "tl fs"; auto simp: allow_def deny_def is_form_def split: sexp.splits)+


text \<open>The paths the rules speak of.\<close>

definition under :: "bytes \<Rightarrow> bytes \<Rightarrow> bool" where
  "under f p \<longleftrightarrow> path_starts_with f (from_utf8_lossy p)"

definition is_path :: "bytes \<Rightarrow> bytes \<Rightarrow> bool" where
  "is_path f p \<longleftrightarrow> path_eq f (from_utf8_lossy p)"

definition record_path :: "policy \<Rightarrow> bytes \<Rightarrow> bool" where
  "record_path p f \<longleftrightarrow> under f (path_join (po_home p) ''.nd7'') \<or> under f (po_state p)"

definition agent_config_path :: "policy \<Rightarrow> bytes \<Rightarrow> bool" where
  "agent_config_path p f \<longleftrightarrow>
     is_path f (path_join (po_home p) ''.codex/config.toml'')
     \<or> is_path f (path_join (po_home p) ''.codex/hooks.json'')
     \<or> is_path f (path_join (po_home p) ''.claude/settings.json'')"

definition secret_path :: "policy \<Rightarrow> bytes \<Rightarrow> bool" where
  "secret_path p f \<longleftrightarrow>
     under f (path_join (po_home p) ''.ssh'') \<or> under f (path_join (po_home p) ''.aws'')
     \<or> under f (path_join (po_state p) ''vault'')"

definition session_path :: "(bytes \<Rightarrow> bytes \<Rightarrow> bool) \<Rightarrow> policy \<Rightarrow> bytes \<Rightarrow> bool" where
  "session_path rx p f \<longleftrightarrow>
     under f (po_project p) \<or> under f (po_tmp p) \<or> rx ''^/private/tmp/claude-'' f
     \<or> under f (po_home p)
       \<and> (rx (''/'' @ backslash # ''.claude(/|$)'') f \<or> rx (''/'' @ backslash # ''.codex(/|$)'') f
         \<or> rx (''/'' @ backslash # ''.claude'' @ backslash # ''.json[^/]*$'') f)"

definition keychain_path :: "(bytes \<Rightarrow> bytes \<Rightarrow> bool) \<Rightarrow> policy \<Rightarrow> bytes \<Rightarrow> bool" where
  "keychain_path rx p f \<longleftrightarrow>
     under f (po_home p)
     \<and> rx (''/Library/Keychains/login'' @ backslash # ''.keychain-db('' @ backslash # ''.sb-[^/]*)?$'') f"

definition READ_OP_NAMES :: "bytes list" where
  "READ_OP_NAMES = [''file-read*'', ''file-read-data'', ''file-read-metadata'', ''file-read-xattr'']"

lemmas path_defs = under_def is_path_def record_path_def agent_config_path_def secret_path_def
  session_path_def keychain_path_def

named_theorems verdicts \<open>which rules of a profile apply\<close>

lemma denies_apply [verdicts]:
  "rule_applies rx op f (deny_records_rule p) \<longleftrightarrow> op \<in> set WRITE_OP_NAMES \<and> record_path p f"
  "rule_applies rx op f (deny_agent_config_rule p) \<longleftrightarrow>
     op \<in> set WRITE_OP_NAMES \<and> agent_config_path p f"
  by (auto simp: deny_records_rule_def deny_agent_config_rule_def rule_applies_allow is_form_def
      is_modifier_def path_defs)

lemma denies_deny [verdicts]:
  "rule_verdict (deny_records_rule p) = Some False"
  "rule_verdict (deny_agent_config_rule p) = Some False"
  "expand_rule lib (deny_records_rule p) = [deny_records_rule p]"
  "expand_rule lib (deny_agent_config_rule p) = [deny_agent_config_rule p]"
  by (simp_all add: deny_records_rule_def deny_agent_config_rule_def expand_allow is_form_def)

text \<open>Operations the body names besides reads and writes.\<close>

definition OTHER_OP_NAMES :: "bytes list" where
  "OTHER_OP_NAMES =
     [''default'', ''process-fork'', ''process-exec'', ''signal'', ''sysctl-read'', ''file-ioctl'',
      ''mach-lookup'', ''network-outbound'', ''network-bind'', ''network-inbound'']"

lemma write_op_not:
  "op \<in> set WRITE_OP_NAMES \<Longrightarrow> op \<notin> set OTHER_OP_NAMES"
  "op \<in> set WRITE_OP_NAMES \<Longrightarrow> op \<notin> set READ_OP_NAMES"
  "op \<in> set READ_OP_NAMES \<Longrightarrow> op \<notin> set OTHER_OP_NAMES"
  "op \<in> set READ_OP_NAMES \<Longrightarrow> op \<notin> set WRITE_OP_NAMES"
  by (auto simp: WRITE_OP_NAMES_def OTHER_OP_NAMES_def READ_OP_NAMES_def)

lemma body_silent:
  "op \<in> set WRITE_OP_NAMES \<Longrightarrow>
   op \<noteq> ''default'' \<and> op \<noteq> ''process-fork'' \<and> op \<noteq> ''process-exec'' \<and> op \<noteq> ''signal''
   \<and> op \<noteq> ''sysctl-read'' \<and> op \<noteq> ''file-ioctl'' \<and> op \<noteq> ''mach-lookup''
   \<and> op \<noteq> ''network-outbound'' \<and> op \<noteq> ''network-bind'' \<and> op \<noteq> ''network-inbound''
   \<and> op \<noteq> ''file-read*'' \<and> op \<noteq> ''file-read-data'' \<and> op \<noteq> ''file-read-metadata''
   \<and> op \<noteq> ''file-read-xattr''"
  by (frule write_op_not(1), drule write_op_not(2)) (simp add: OTHER_OP_NAMES_def READ_OP_NAMES_def)

lemma body_write:
  assumes "op \<in> set WRITE_OP_NAMES"
  shows "last_verdict rx op f (expand_imports lib (body_rules p))
    = (if op = ''file-write*'' \<and> session_path rx p f then Some True
       else last_verdict rx op f (lib ''system.sb''))"
proof -
  have system: "rule_applies rx op f (Form [Word ''version'', Word ''1'']) = False"
    by (simp add: rule_applies_def)
  have fil: "filter (rule_applies rx op f) (expand_imports lib (body_rules p))
    = filter (rule_applies rx op f) (lib ''system.sb'')
      @ (if op = ''file-write*'' \<and> session_path rx p f
         then filter (\<lambda>r. rule_verdict r = Some True) [body_rules p ! 9] else [])"
    using body_silent [OF assms] system
    by (cases "po_ssh_agent p")
      (simp_all add: body_rules_def expand_imports_simps expand_allow is_form_def
      rule_applies_allow is_modifier_def session_path_def under_def)
  then show ?thesis by (simp add: last_verdict_def body_rules_def)
qed


lemma file_write_listed [simp]: "''file-write*'' \<in> set WRITE_OP_NAMES"
  by (simp add: WRITE_OP_NAMES_def)

lemma grants_write:
  "last_verdict rx op f (map (\<lambda>g. allow [''file-write*''] [subpath g]) gs)
    = (if op = ''file-write*'' \<and> (\<exists>g \<in> set gs. under f g) then Some True else None)"
  "expand_imports lib (map (\<lambda>g. allow [''file-write*''] [subpath g]) gs)
    = map (\<lambda>g. allow [''file-write*''] [subpath g]) gs"
  by (induction gs)
    (auto simp: last_verdict_Cons rule_applies_allow expand_imports_simps expand_allow
      is_modifier_def under_def)

lemma floor_own_write:
  assumes "op \<in> set WRITE_OP_NAMES"
  shows "last_verdict rx op f (floor_own_rules p)
    = (if op = ''file-write*'' \<and> keychain_path rx p f then Some True else None)"
  using body_silent [OF assms]
  by (simp add: floor_own_rules_def last_verdict_Cons rule_applies_allow is_form_def
      is_modifier_def keychain_path_def under_def)

lemma floor_own_expand: "expand_imports lib (floor_own_rules p) = floor_own_rules p"
  by (simp add: floor_own_rules_def expand_imports_simps expand_allow is_form_def)

definition protected :: "policy \<Rightarrow> bytes \<Rightarrow> bool" where
  "protected p f \<longleftrightarrow> record_path p f \<or> agent_config_path p f"

lemma denies_last:
  "last_verdict rx op f [deny_records_rule p, deny_agent_config_rule p]
   = (if op \<in> set WRITE_OP_NAMES \<and> protected p f then Some False else None)"
  by (simp add: last_verdict_Cons verdicts protected_def)

lemma denies_expand:
  "expand_imports lib [deny_records_rule p, deny_agent_config_rule p]
   = [deny_records_rule p, deny_agent_config_rule p]"
  by (simp add: expand_imports_simps verdicts)

lemmas profile_verdict = policy_rules_def floor_rules_def expand_imports_simps(3) denies_expand
  grants_write floor_own_expand last_verdict_append denies_last

text \<open>What either profile says of one operation that writes.\<close>

lemma write_verdict:
  assumes "op \<in> set WRITE_OP_NAMES"
  shows "last_verdict rx op f (expand_imports lib (policy_rules p))
      = (if protected p f then Some False
         else if op = ''file-write*'' \<and> ((\<exists>g \<in> set (po_grants p). under f g) \<or> session_path rx p f)
         then Some True else last_verdict rx op f (lib ''system.sb''))"
    and "last_verdict rx op f (expand_imports lib (floor_rules p))
      = (if protected p f then Some False
         else if op = ''file-write*'' \<and> (keychain_path rx p f \<or> session_path rx p f)
         then Some True else last_verdict rx op f (lib ''system.sb''))"
  using assms
  by (auto simp: profile_verdict body_write floor_own_write)

lemma permits_rendered:
  "permits lib rx (render_policy p) op classes f
   = consult rx (op # classes) f (expand_imports lib (policy_rules p))"
  "permits lib rx (render_floor p) op classes f
   = consult rx (op # classes) f (expand_imports lib (floor_rules p))"
  by (simp_all add: permits_def profiles_rules)

fun mentions :: "bytes \<Rightarrow> sexp \<Rightarrow> bool" where
  "mentions w (Word v) \<longleftrightarrow> v = w"
| "mentions w (Form xs) \<longleftrightarrow> (\<exists>x \<in> set xs. mentions w x)"
| "mentions w _ \<longleftrightarrow> False"

lemma body_read:
  assumes "op \<in> set READ_OP_NAMES"
  shows "secret_path p f \<Longrightarrow> last_verdict rx op f (expand_imports lib (body_rules p))
    = Some (po_ssh_agent p \<noteq> None \<and> is_path f (path_join (po_home p) ''.ssh/known_hosts''))"
proof -
  assume sec: "secret_path p f"
  have op: "op \<in> set [''file-read*'', ''file-read-data'', ''file-read-metadata'', ''file-read-xattr'']"
    using assms by (simp add: READ_OP_NAMES_def)
  obtain front where front: "expand_imports lib (body_rules p) = front
    @ deny READ_OP_NAMES [subpath (path_join (po_home p) ''.ssh''),
        subpath (path_join (po_home p) ''.aws''), subpath (path_join (po_state p) ''vault'')]
    # expand_imports lib (drop 9 (body_rules p))"
    apply (rule that [of "expand_imports lib (take 8 (body_rules p))"])
    by (simp add: body_rules_def expand_imports_simps expand_allow is_form_def READ_OP_NAMES_def)
  have rest: "last_verdict rx op f (expand_imports lib (drop 9 (body_rules p)))
    = (if po_ssh_agent p \<noteq> None \<and> is_path f (path_join (po_home p) ''.ssh/known_hosts'') then Some True else None)"
    using op by (cases "po_ssh_agent p"; cases "op = ''file-read*''") (auto simp: body_rules_def expand_imports_simps expand_allow rule_applies_allow is_modifier_def
       last_verdict_Cons is_path_def)
  show ?thesis using sec assms unfolding front last_verdict_append last_verdict_Cons rest
    by (auto simp: rule_applies_allow is_form_def is_modifier_def secret_path_def under_def)
qed

lemma body_silent_read:
  "op \<in> set READ_OP_NAMES \<Longrightarrow>
   op \<noteq> ''file-write*'' \<and> op \<noteq> ''network-outbound'' \<and> op \<noteq> ''process-exec''
   \<and> op \<notin> set WRITE_OP_NAMES"
  by (auto simp: READ_OP_NAMES_def WRITE_OP_NAMES_def)

text \<open>What either profile says of an operation that reads a secret.\<close>

lemma read_verdict:
  assumes "op \<in> set READ_OP_NAMES" "secret_path p f"
  shows "last_verdict rx op f (expand_imports lib (policy_rules p))
      = Some (po_ssh_agent p \<noteq> None \<and> is_path f (path_join (po_home p) ''.ssh/known_hosts''))"
    and "last_verdict rx op f (expand_imports lib (floor_rules p))
      = Some (po_ssh_agent p \<noteq> None \<and> is_path f (path_join (po_home p) ''.ssh/known_hosts''))"
proof -
  have own: "last_verdict rx op f (floor_own_rules p) = None"
    using body_silent_read [OF assms(1)]
    by (simp add: floor_own_rules_def last_verdict_Cons rule_applies_allow)
  show "last_verdict rx op f (expand_imports lib (policy_rules p))
      = Some (po_ssh_agent p \<noteq> None \<and> is_path f (path_join (po_home p) ''.ssh/known_hosts''))"
    and "last_verdict rx op f (expand_imports lib (floor_rules p))
      = Some (po_ssh_agent p \<noteq> None \<and> is_path f (path_join (po_home p) ''.ssh/known_hosts''))"
    using body_silent_read [OF assms(1)] body_read [OF assms] own
    by (simp_all add: profile_verdict)
qed

end
