(* ===== verification/PolicyProperties.thy ===== *)
theory PolicyProperties
  imports PolicyRules
begin

text \<open>
  The properties of the two profiles: what their text says, and what it lets a session read and
  write, under any content of the system's own profile.
\<close>

text \<open>
  C13. Both profiles can be read, and say exactly the intended rules: each path of the policy is one
  string of one rule, whatever characters it has, so no path can add, close or change a rule.
\<close>
theorem profiles_read_back:
  "read_profile (render_floor p) = Some (floor_rules p)
   \<and> read_profile (render_policy p) = Some (policy_rules p)"
  by (simp add: profiles_rules)

text \<open>
  C14. nd7's own records and the agents' configuration are closed: no operation that writes is
  permitted on them under either profile, whatever the grants, the system's profile and the classes
  of the operation are.
\<close>
theorem records_unwritable:
  assumes "op \<in> set WRITE_OP_NAMES" "protected p f"
  shows "\<not> permits lib rx (render_floor p) op classes f
    \<and> \<not> permits lib rx (render_policy p) op classes f"
  using assms by (simp add: permits_rendered write_verdict)

definition policy0 :: policy where
  "policy0 = \<lparr>po_project = ''/h/p'', po_home = ''/h'', po_state = ''/h/s'', po_tmp = ''/t'',
     po_exit = ''/b/nd7-exec'', po_grants = [''/h''], po_ssh_agent = None, po_open_sock = ''/h/o''\<rparr>"

lemma paths0:
  "from_utf8_lossy ''/h/p'' = ''/h/p''" "from_utf8_lossy ''/h'' = ''/h''"
  "from_utf8_lossy ''/h/s'' = ''/h/s''" "from_utf8_lossy ''/t'' = ''/t''"
  "from_utf8_lossy ''/h/.nd7'' = ''/h/.nd7''" "from_utf8_lossy ''/h/.ssh'' = ''/h/.ssh''"
  "from_utf8_lossy ''/h/.codex/config.toml'' = ''/h/.codex/config.toml''"
  "from_utf8_lossy ''/h/.codex/hooks.json'' = ''/h/.codex/hooks.json''"
  "from_utf8_lossy ''/h/.claude/settings.json'' = ''/h/.claude/settings.json''"
  by (simp_all add: from_utf8_lossy_ascii byte_in_def)

lemmas policy0_simps = policy0_def path_defs path_starts_with_def path_eq_def components_def
  path_join_def paths0

theorem records_unwritable_at:
  "\<not> permits (\<lambda>n. [allow [''file-write-data''] []]) (\<lambda>r f. True) (render_floor policy0)
      ''file-write-data'' [] ''/h/.nd7/x''
   \<and> \<not> permits (\<lambda>n. [allow [''file-write-data''] []]) (\<lambda>r f. True) (render_policy policy0)
      ''file-write-data'' [] ''/h/.nd7/x''"
  by (rule records_unwritable) (simp_all add: WRITE_OP_NAMES_def protected_def policy0_simps)

text \<open>
  C15. What a command may write is exactly this: nothing protected; otherwise what the system's
  profile says of the operation by name, and where it says nothing the project, the temp directory,
  the agents' own state, the grants, and whatever the system's profile opens to all writing.
\<close>
theorem writes_exactly:
  assumes "op \<in> set (tl WRITE_OP_NAMES)"
  shows "permits lib rx (render_policy p) op [''file-write*''] f \<longleftrightarrow>
    \<not> protected p f
    \<and> (case last_verdict rx op f (lib ''system.sb'') of
         Some v \<Rightarrow> v
       | None \<Rightarrow> session_path rx p f \<or> (\<exists>g \<in> set (po_grants p). under f g)
           \<or> last_verdict rx ''file-write*'' f (lib ''system.sb'') = Some True)"
proof -
  have "op \<in> set WRITE_OP_NAMES" "op \<noteq> ''file-write*''"
    using assms by (auto simp: WRITE_OP_NAMES_def)
  then show ?thesis
    by (simp add: permits_rendered write_verdict split: option.split)
qed

theorem writes_exactly_at:
  "permits (\<lambda>n. []) (\<lambda>r f. False) (render_policy policy0) ''file-write-data'' [''file-write*''] ''/h/q/x''
   \<and> \<not> permits (\<lambda>n. []) (\<lambda>r f. False) (render_policy policy0) ''file-write-data'' [''file-write*''] ''/u''"
  by (simp add: writes_exactly WRITE_OP_NAMES_def protected_def policy0_simps)

text \<open>
  C16. One way out: the floor has exactly one rule that lets a program out of the sandbox, for the one
  program of the policy, and the profile of a command has none.
\<close>
theorem one_exit:
  "map_option (filter (mentions ''no-sandbox'')) (read_profile (render_floor p))
     = Some [allow [''process-exec''] [Form [Word ''with'', Word ''no-sandbox''], literal (po_exit p)]]
   \<and> map_option (filter (mentions ''no-sandbox'')) (read_profile (render_policy p)) = Some []"
proof -
  have "filter (mentions ''no-sandbox'') (map (\<lambda>g. allow [''file-write*''] [subpath g]) gs) = []" for gs
    by (induction gs) (simp_all add: allow_def)
  moreover have "filter (mentions ''no-sandbox'') (body_rules p) = []"
    by (cases "po_ssh_agent p") (simp_all add: body_rules_def allow_def deny_def)
  ultimately show ?thesis
    by (simp add: profiles_rules floor_rules_def policy_rules_def floor_own_rules_def
        deny_records_rule_def deny_agent_config_rule_def allow_def deny_def WRITE_OP_NAMES_def)
qed

text \<open>
  C17. The credentials and the keys of the vault cannot be read under either profile, whatever the
  grants and the system's profile say; the one exception is \<^verbatim>\<open>known_hosts\<close>, exactly when there is
  an agent to forward to.
\<close>
theorem secrets_unreadable:
  assumes "op \<in> set READ_OP_NAMES" "secret_path p f" "profile \<in> {render_floor p, render_policy p}"
  shows "permits lib rx profile op classes f \<longleftrightarrow>
    po_ssh_agent p \<noteq> None \<and> is_path f (path_join (po_home p) ''.ssh/known_hosts'')"
  using assms read_verdict [OF assms(1,2)] by (auto simp: permits_rendered)

theorem secrets_unreadable_at:
  "\<not> permits (\<lambda>n. [allow [''file-read-data''] []]) (\<lambda>r f. True) (render_policy policy0)
      ''file-read-data'' [''file-read*''] ''/h/.ssh/id''"
  by (subst secrets_unreadable [of _ policy0]) (simp_all add: READ_OP_NAMES_def policy0_simps)

end
