(* ===== verification/FrameMembers.thy ===== *)
theory FrameMembers
  imports Ship
begin

text \<open>
  What \<^verbatim>\<open>member\<close> and \<^verbatim>\<open>frame_ts\<close> of \<^verbatim>\<open>src/src/ship.rs\<close> read from a frame this program
  wrote: the event's own host, kind and time, whatever its session id, source and body hold. A host
  that JSON does not escape, as a host name is.
\<close>

lemma frame_member_after:
  "frame_member frame name = Option.bind (text_after frame ('',\"'' @ name @ ''\":\"''))
     (\<lambda>rest. Option.bind (position_byte quote rest) (\<lambda>e. from_utf8 (take e rest)))"
  by (cases "find_sub frame ('',\"'' @ name @ ''\":\"'')")
    (simp_all add: frame_member_def text_after_def Let_def)

lemma json_plain_char: "json_plain c \<Longrightarrow> c \<noteq> quote \<and> byte_in 0 0x7F c"
proof
  assume p: "json_plain c"
  have "\<not> json_plain quote" by (simp add: json_plain_def is_ascii_alphanumeric_def)
  with p show "c \<noteq> quote" by blast
  have "is_ascii_alphanumeric c \<Longrightarrow> byte_in 0 0x7F c"
    by (auto simp: is_ascii_alphanumeric_def byte_in_def)
  with p show "byte_in 0 0x7F c"
    unfolding json_plain_def by (elim disjE) (simp_all add: byte_in_def)
qed

lemma json_plain_text:
  assumes "list_all json_plain s"
  shows "quote \<notin> set s" "utf8_valid s"
proof -
  have p: "c \<noteq> quote \<and> byte_in 0 0x7F c" if "c \<in> set s" for c
    using assms that json_plain_char unfolding list_all_iff by blast
  then show "quote \<notin> set s" by blast
  show "utf8_valid s" by (rule utf8_valid_ascii) (use p in \<open>simp add: list_all_iff\<close>)
qed

lemma frame_member_here:
  assumes "text_after frame ('',\"'' @ name @ ''\":\"'') = Some (s @ quote # rest)" "list_all json_plain s"
  shows "frame_member frame name = Some s"
proof -
  have "position_byte quote (s @ quote # rest) = Some (length s)"
    using json_plain_text(1) [OF assms(2)] by (simp add: position_byte_append)
  then show ?thesis
    unfolding frame_member_after assms(1) using json_plain_text(2) [OF assms(2)] by (simp add: from_utf8_def)
qed

lemma member_host_envelope:
  assumes "serde_str js" "list_all json_plain (ev_host e)"
  shows "frame_member (envelope js e @ r) ''host'' = Some (ev_host e)"
proof -
  obtain t where "js (ev_session_id e) = quote # t @ [quote]" "json_chars t"
    using assms(1) by (rule serde_strE)
  moreover have "js (ev_host e) = quote # ev_host e @ [quote]"
    using assms by (rule serde_str_plain)
  ultimately have "\<exists>rest. text_after (envelope js e @ r) ('',\"'' @ ''host'' @ ''\":\"'') = Some (ev_host e @ quote # rest)"
    by (simp add: envelope_def json_scan show_u64_not_in show_i64_not_in)
  then show ?thesis using frame_member_here assms(2) by blast
qed

lemma kind_str_plain: "list_all json_plain (kind_str k)"
  by (cases k) (simp_all add: json_plain_def is_ascii_alphanumeric_def)

lemma member_kind_envelope:
  assumes "serde_str js"
  shows "frame_member (envelope js e @ r) ''kind'' = Some (kind_str (ev_kind e))"
proof -
  obtain t where t: "js (ev_session_id e) = quote # t @ [quote]" "json_chars t"
    using assms by (rule serde_strE)
  obtain u where u: "js (ev_host e) = quote # u @ [quote]" "json_chars u"
    using assms by (rule serde_strE)
  obtain v where v: "js (ev_source e) = quote # v @ [quote]" "json_chars v"
    using assms by (rule serde_strE)
  have k: "js (kind_str (ev_kind e)) = quote # kind_str (ev_kind e) @ [quote]"
    using assms kind_str_plain by (rule serde_str_plain)
  have "\<exists>rest. text_after (envelope js e @ r) ('',\"'' @ ''kind'' @ ''\":\"'') = Some (kind_str (ev_kind e) @ quote # rest)"
    using t u v k by (simp add: envelope_def json_scan show_u64_not_in show_i64_not_in)
  then show ?thesis using frame_member_here kind_str_plain by blast
qed

text \<open>The same of the frame an append writes, and of a run of them that starts with it.\<close>

lemma next_frame_envelope:
  "\<exists>r'. next_frame H js bj sid ls e @ r = envelope js (e\<lparr>ev_seq := word_of_nat (length ls), ev_prev := link_of H sid ls\<rparr>) @ r'"
  unfolding next_frame_def sealed_event_def sealed_line_def append.assoc by blast

lemma next_frame_members:
  assumes "serde_str js"
  shows "frame_member (next_frame H js bj sid ls e @ r) ''kind'' = Some (kind_str (ev_kind e))"
    "frame_ts (next_frame H js bj sid ls e @ r) = Some (ev_ts e)"
    "list_all json_plain (ev_host e) \<Longrightarrow> frame_member (next_frame H js bj sid ls e @ r) ''host'' = Some (ev_host e)"
proof -
  let ?e = "e\<lparr>ev_seq := word_of_nat (length ls), ev_prev := link_of H sid ls\<rparr>"
  obtain r' where r': "next_frame H js bj sid ls e @ r = envelope js ?e @ r'"
    using next_frame_envelope by blast
  show "frame_member (next_frame H js bj sid ls e @ r) ''kind'' = Some (kind_str (ev_kind e))"
    unfolding r' using member_kind_envelope [OF assms, of ?e r'] by simp
  show "frame_ts (next_frame H js bj sid ls e @ r) = Some (ev_ts e)"
    unfolding r' frame_ts_def using number_TS_envelope [OF assms, of ?e r'] by simp
  show "list_all json_plain (ev_host e) \<Longrightarrow> frame_member (next_frame H js bj sid ls e @ r) ''host'' = Some (ev_host e)"
    unfolding r' using member_host_envelope [OF assms, of ?e r'] by simp
qed

end
