(* ===== verification/Vouched.thy ===== *)
theory Vouched
  imports Delivery FrameMembers
begin

text \<open>
  What leaves the machine, whatever the vault answers and whoever else appends: every request of a
  session is signed with the machine's key over the body it carries, goes to the configured server
  once that server is acceptable, and holds frames only as a batch sealed under the session's one
  chain key, with the index of exactly these frames, and the chain key only in boxes for the pinned
  admins.
\<close>

section \<open>Every request is vouched for\<close>

text \<open>One request, under the session's chain key \<open>key\<close>.\<close>

definition vouched ::
  "ship_world \<Rightarrow> crypto_api \<Rightarrow> machine \<Rightarrow> bytes \<Rightarrow> bytes \<Rightarrow> frames_request \<times> http_request \<Rightarrow> bool" where
  "vouched W c M sid key x \<longleftrightarrow>
     (case x of (req, http) \<Rightarrow>
        check_server (m_server M) = Inr () \<and> rq_body http = request_json W req
        \<and> (\<exists>host b. rq_uri http = m_server M @ frames_path sid host
             \<and> signed_by c (machine_public_key c (m_key M)) (frames_path sid host) http
             \<and> carries c key sid host req (b, fr_index req) \<and> build_index b = Inr (fr_index req)
             \<and> fr_wraps req = (if fr_first_seq req = 0 then Some (wraps c (rnd_box W) key (m_recipients M)) else None)))"

definition all_vouched :: "ship_world \<Rightarrow> crypto_api \<Rightarrow> machine \<Rightarrow> bytes \<Rightarrow> bytes \<Rightarrow> ship_state \<Rightarrow> bool" where
  "all_vouched W c M sid key s \<longleftrightarrow> list_all (vouched W c M sid key) (st_sent s)"

definition crypto_ok :: "crypto_api \<Rightarrow> bool" where
  "crypto_ok c \<longleftrightarrow> base64_ok c \<and> ed25519_ok c \<and> sealed_box_ok c \<and> derive_ok c \<and> zstd_ok c \<and> aead_ok c"

lemma crypto_okD:
  assumes "crypto_ok c"
  shows "base64_ok c" "ed25519_ok c" "sealed_box_ok c" "derive_ok c" "zstd_ok c" "aead_ok c"
  using assms by (simp_all add: crypto_ok_def)

lemma batch_request_vouched:
  assumes "crypto_ok c" "length (m_key M) = 32" "build_index b = Inr es"
    and "build_request c now (Some (m_key M, m_id M)) ''POST'' (m_server M) (frames_path sid host)
      (request_json W (batch_request W c M sid host key k b es)) = Inr http"
  shows "vouched W c M sid key (batch_request W c M sid host key k b es, http)"
proof -
  note http = build_request_signed [OF crypto_okD(1,2) [OF assms(1)] assms(2,4)]
  have req: "carries c key sid host (batch_request W c M sid host key k b es) (b, fr_index (batch_request W c M sid host key k b es))"
    using batch_request_carries [OF crypto_okD(1,5,6) [OF assms(1)], of key sid host W M k b es]
    by (simp add: batch_request_def frames_body_def Let_def)
  have "fr_wraps (batch_request W c M sid host key k b es)
      = (if fr_first_seq (batch_request W c M sid host key k b es) = 0
         then Some (wraps c (rnd_box W) key (m_recipients M)) else None)"
    by (simp add: batch_request_def frames_body_def Let_def)
  moreover have "fr_index (batch_request W c M sid host key k b es) = es"
    by (simp add: batch_request_def frames_body_def Let_def)
  ultimately show ?thesis using http req assms(3) unfolding vouched_def by auto
qed

lemma send_frames_vouched:
  assumes "crypto_ok c" "length (m_key M) = 32" "build_index b = Inr es" "all_vouched W c M sid key s"
    and "send_frames W c M (frames_path sid host) (batch_request W c M sid host key k b es) s = (answer, s1)"
  shows "all_vouched W c M sid key s1"
proof (cases "st_sent s1 = st_sent s")
  case False
  from send_frames_sent [OF assms(5) this] batch_request_vouched [OF assms(1-3)] assms(4)
  show ?thesis by (auto simp: all_vouched_def)
qed (use assms(4) in \<open>simp add: all_vouched_def\<close>)

section \<open>Each batch goes with its own index\<close>

lemma entries_of_lines: "list_all2 (\<lambda>l e. entry l = Some e) ls es \<Longrightarrow> entries i ls = Inr es"
  by (induction ls es arbitrary: i rule: list_all2_induct) simp_all

lemma groups_indexed:
  assumes "list_all2 (\<lambda>(b, es) g. b = concat g \<and> length es = length g) bs grps"
    and "concat grps = map (\<lambda>l. l @ [newline]) ls" "list_all one_line ls"
    and "list_all2 (\<lambda>l e. entry l = Some e) ls (concat (map snd bs))"
  shows "\<forall>(b, es) \<in> set bs. build_index b = Inr es"
  using assms
proof (induction arbitrary: ls rule: list_all2_induct)
  case (Cons x bs g grps)
  obtain b es where x: "x = (b, es)" by (cases x)
  with Cons.hyps have here: "b = concat g" "length es = length g" by simp_all
  from Cons.prems(1) obtain ls1 ls2 where ls: "ls = ls1 @ ls2" "g = map (\<lambda>l. l @ [newline]) ls1"
    "concat grps = map (\<lambda>l. l @ [newline]) ls2"
    by (auto simp: append_eq_map_conv)
  have "list_all2 (\<lambda>l e. entry l = Some e) (ls1 @ ls2) (es @ concat (map snd bs))"
    using Cons.prems(3) ls(1) x by simp
  then have split: "list_all2 (\<lambda>l e. entry l = Some e) ls1 es"
    "list_all2 (\<lambda>l e. entry l = Some e) ls2 (concat (map snd bs))"
    using here(2) ls(2) by (simp_all add: list_all2_append)
  have "b = unlines ls1" using here(1) ls(2) by (simp add: unlines_def)
  then have "build_index b = Inr es"
    using Cons.prems(2) ls(1) entries_of_lines [OF split(1)] by (simp add: build_index_unlines)
  with x Cons.IH [OF ls(3) _ split(2)] Cons.prems(2) ls(1) show ?case by simp
qed simp

lemma batches_indexed:
  assumes "build_index frames = Inr index" "batches frames index = Some bs"
  shows "\<forall>(b, es) \<in> set bs. build_index b = Inr es"
proof -
  obtain ls where ls: "frames = unlines ls" "list_all one_line ls"
  proof (cases "frames = []")
    case False
    with assms(1) have "ends_with_newline frames" by (auto simp: build_index_def split: if_splits)
    then show thesis using terminated_linesE that by metis
  qed (use that [of "[]"] in simp)
  have es: "length index = length ls" "\<forall>k < length ls. entry (ls ! k) = Some (index ! k)"
    using assms(1) entries_Inr [of 0 ls index] ls by (simp_all add: build_index_unlines)
  then have "length index = length (split_inclusive newline frames)" using ls by (simp add: split_inclusive_unlines)
  from batches_groups [OF this] assms(2) obtain grps where
    "concat grps = split_inclusive newline frames" "concat (map snd bs) = index"
    "list_all2 (\<lambda>(b, es) g. b = concat g \<and> length es = length g) bs grps" by auto
  moreover have "list_all2 (\<lambda>l e. entry l = Some e) ls index" using es by (simp add: list_all2_conv_all_nth)
  ultimately show ?thesis using groups_indexed [of bs grps ls] ls by (simp add: split_inclusive_unlines)
qed

section \<open>One key\<close>

text \<open>
  The chain key of a session: whatever other processes do to its directory while the lock is not
  held, they leave \<^verbatim>\<open>chain.key\<close> alone, as every append does.
\<close>

definition keeps_key :: "ship_world \<Rightarrow> bool" where
  "keeps_key W \<longleftrightarrow> (\<forall>k d. sd_chain_key (meanwhile W k d) = sd_chain_key d)"

text \<open>Everything so far is vouched for under the key, and the key is the one on disk, or will be.\<close>

definition under_key :: "ship_world \<Rightarrow> crypto_api \<Rightarrow> machine \<Rightarrow> bytes \<Rightarrow> bytes \<Rightarrow> ship_state \<Rightarrow> bool" where
  "under_key W c M sid key s \<longleftrightarrow> all_vouched W c M sid key s \<and> key_in_use W (st_dir s) = key"

lemma under_key_same:
  "st_sent s' = st_sent s \<Longrightarrow> sd_chain_key (st_dir s') = sd_chain_key (st_dir s) \<Longrightarrow>
    under_key W c M sid key s' = under_key W c M sid key s"
  by (simp add: under_key_def all_vouched_def key_in_use_def)

lemma under_key_relock: "keeps_key W \<Longrightarrow> under_key W c M sid key (relock W s) = under_key W c M sid key s"
  by (rule under_key_same) (simp_all add: relock_def keeps_key_def)

lemma under_key_write [simp]: "under_key W c M sid key (write_shipped l s) = under_key W c M sid key s"
  by (rule under_key_same) (simp_all add: write_shipped_def)

lemma under_key_say [simp]: "under_key W c M sid key (say x s) = under_key W c M sid key s"
  by (rule under_key_same) (simp_all add: say_def)

lemma read_pending_key:
  assumes "read_pending (rnd_chain_key W) d = Some (q, d')"
  shows "key_in_use W d' = key_in_use W d" and "q = Inr (Some P) \<Longrightarrow> pd_key P = key_in_use W d"
  using assms
  by (auto simp: read_pending_def key_in_use_def read_chain_key_def split: sum.splits option.splits if_splits)

lemma on_conflict_under:
  "keeps_key W \<Longrightarrow> on_conflict W P index recover conflict s = (x, s1) \<Longrightarrow>
    under_key W c M sid key s1 = under_key W c M sid key s"
  by (auto simp: on_conflict_def Let_def under_key_relock split: option.splits)

lemma push_batch_under:
  assumes "crypto_ok c" "length (m_key M) = 32" "keeps_key W" "build_index b = Inr es" "under_key W c M sid (pd_key P) s"
  shows "push_batch W c M sid host P index recover b es s = Inr s1 \<Longrightarrow> under_key W c M sid (pd_key P) s1"
    and "push_batch W c M sid host P index recover b es s = Inl (r, s1) \<Longrightarrow> under_key W c M sid (pd_key P) s1"
proof -
  obtain answer s2 where a: "send_frames W c M (frames_path sid host)
      (batch_request W c M sid host (pd_key P) (st_clock s) b es) s = (answer, s2)" by fastforce
  have "st_dir s2 = st_dir s" using a by (auto simp: send_frames_def split: sum.splits ship_error.splits)
  with send_frames_vouched [OF assms(1,2,4) _ a] assms(5) have "under_key W c M sid (pd_key P) s2"
    by (simp add: under_key_def)
  then show "push_batch W c M sid host P index recover b es s = Inr s1 \<Longrightarrow> under_key W c M sid (pd_key P) s1"
    and "push_batch W c M sid host P index recover b es s = Inl (r, s1) \<Longrightarrow> under_key W c M sid (pd_key P) s1"
    using assms(3)
    by (auto simp: push_batch_def a apfst_def map_prod_def on_conflict_under under_key_relock
        split: reply.splits if_splits option.splits prod.splits)
qed

lemma push_batches_under:
  assumes "crypto_ok c" "length (m_key M) = 32" "keeps_key W" "under_key W c M sid (pd_key P) s"
    and "\<forall>(b, es) \<in> set bs. build_index b = Inr es"
    and "push_batches W c M sid host P index recover bs s = Some (r, s1)"
  shows "under_key W c M sid (pd_key P) s1"
  using assms(4-6)
proof (induction bs arbitrary: s)
  case (Cons x bs)
  note one = push_batch_under [OF assms(1-3) _ Cons.prems(1), of "fst x" "snd x" host index recover]
  show ?case
  proof (cases "push_batch W c M sid host P index recover (fst x) (snd x) s")
    case (Inl q)
    with one(2) [of r s1] Cons.prems(2,3) show ?thesis by (cases x) (auto split: if_splits)
  next
    case (Inr s2)
    with one(1) [of s2] Cons.IH [of s2] Cons.prems(2,3) show ?thesis by (cases x) (auto split: if_splits)
  qed
qed simp

lemma push_under:
  assumes "crypto_ok c" "length (m_key M) = 32" "keeps_key W" "under_key W c M sid (pd_key P) s"
    and "push W c M sid P recover s = Some (r, s1)"
  shows "under_key W c M sid (pd_key P) s1"
proof -
  have "s1 = s \<or> (\<exists>index host bs. build_index (pd_frames P) = Inr index \<and> batches (pd_frames P) index = Some bs
      \<and> push_batches W c M sid host P index recover bs s = Some (r, s1))"
    using assms(5) by (auto simp: push_def split: sum.splits option.splits)
  then show ?thesis
  proof (elim disjE exE conjE)
    fix index host bs
    assume "build_index (pd_frames P) = Inr index" "batches (pd_frames P) index = Some bs"
      and "push_batches W c M sid host P index recover bs s = Some (r, s1)"
    then show ?thesis using push_batches_under [OF assms(1-4) batches_indexed] by blast
  qed (use assms(4) in simp)
qed

lemma session_loop_under:
  assumes "crypto_ok c" "length (m_key M) = 32" "keeps_key W" "under_key W c M sid key s"
    and "session_loop W c M sid recover s = Some (r, s1)"
  shows "under_key W c M sid key s1"
proof -
  have step: "under_key W c M sid key s1
      \<or> recover \<and> (\<exists>s2. under_key W c M sid key s2 \<and> session_loop W c M sid False s2 = Some (r, s1))"
    if "under_key W c M sid key s" "session_loop W c M sid recover s = Some (r, s1)" for recover s
  proof -
    note eq = that(2) [unfolded session_loop.simps [of W c M sid recover s], unfolded Let_def]
    have lock: "under_key W c M sid key (relock W s)" using that(1) assms(3) by (simp add: under_key_relock)
    obtain q d where rp: "read_pending (rnd_chain_key W) (st_dir (relock W s)) = Some (q, d)"
      using eq by (cases "read_pending (rnd_chain_key W) (st_dir (relock W s))") auto
    let ?t = "(relock W s)\<lparr>st_dir := d\<rparr>"
    have t: "under_key W c M sid key ?t" using lock read_pending_key(1) [OF rp] by (simp add: under_key_def all_vouched_def)
    show ?thesis
    proof (cases "\<exists>P. q = Inr (Some P)")
      case False
      with eq rp t show ?thesis by (auto split: sum.splits option.splits)
    next
      case True
      then obtain P where P: "q = Inr (Some P)" by blast
      have key: "pd_key P = key" using read_pending_key(2) [OF rp P] lock by (simp add: under_key_def)
      obtain pr s2 where push: "push W c M sid P recover ?t = Some (pr, s2)"
        using eq rp P by (cases "push W c M sid P recover ?t") auto
      from push_under [OF assms(1-3) _ this] t key have s2: "under_key W c M sid key s2" by simp
      consider e where "pr = Inl e" | out where "pr = Inr (Some out)" | "pr = Inr None"
        by (metis option.exhaust sum.exhaust)
      then show ?thesis
      proof cases
        case 3
        with eq rp P push push_recovers [of W c M sid P recover ?t s2] s2 show ?thesis by auto
      qed (use eq rp P push s2 in auto)
    qed
  qed
  from step [OF assms(4,5)] step show ?thesis by blast
qed

lemma ship_session_vouched:
  assumes "crypto_ok c" "length (m_key M) = 32" "keeps_key W"
    and "ship_session W c M sid prune_after (start_state d) = Some (r, s1, kept)"
  shows "all_vouched W c M sid (key_in_use W d) s1"
proof -
  let ?key = "key_in_use W d"
  obtain r1 s2 where loop: "session_loop W c M sid True (start_state d) = Some (r1, s2)"
    using assms(4) by (cases "session_loop W c M sid True (start_state d)") (auto simp: ship_session_def)
  have "under_key W c M sid ?key (start_state d)" by (simp add: under_key_def all_vouched_def start_state_def)
  from session_loop_under [OF assms(1-3) this loop] have "all_vouched W c M sid ?key s2" by (simp add: under_key_def)
  with assms(4) loop show ?thesis
    by (auto simp: ship_session_def all_vouched_def relock_def Let_def split: sum.splits outcome.splits option.splits)
qed

end
