(* ===== verification/EndToEnd.thy ===== *)
theory EndToEnd
  imports Vouched
begin

text \<open>
  From an event to the vault: the frames of a session this program wrote, what the vault's byte
  searches read from them, and the run of \<^verbatim>\<open>ship\<close> that delivers them all and closes the chain.
\<close>

section \<open>The frames of a run of appends\<close>

lemma frames_of_nth:
  assumes "i < length es"
  shows "\<exists>ks. frames_of H js bj sid ls es ! (length ls + i) = next_frame H js bj sid ks (es ! i)"
  using assms
proof (induction es arbitrary: ls i)
  case (Cons e es)
  have keep: "frames_of H js bj sid (ls @ [x]) es ! length ls = x" for x
  proof -
    have "take (length ks) (frames_of H js bj sid ks es) = ks" for ks
    proof (induction es arbitrary: ks)
      case (Cons a es)
      from Cons [of "ks @ [next_frame H js bj sid ks a]"] show ?case
        by (metis append_eq_conv_conj append_take_drop_id append.assoc frames_of.simps(2) length_append)
    qed simp
    from this [of "ls @ [x]"] show ?thesis
      by (metis append_take_drop_id length_append_singleton lessI nth_append nth_append_length)
  qed
  show ?case
  proof (cases i)
    case 0
    with keep show ?thesis by auto
  next
    case (Suc j)
    with Cons.prems Cons.IH [of j "ls @ [next_frame H js bj sid ls e]"] show ?thesis by simp
  qed
qed simp

lemma frames_of_hd:
  assumes "es \<noteq> []"
  shows "\<exists>ks. hd (frames_of H js bj sid [] es) = next_frame H js bj sid ks (hd es)"
    and "\<exists>ks. last (frames_of H js bj sid [] es) = next_frame H js bj sid ks (last es)"
proof -
  have len: "length (frames_of H js bj sid [] es) = length es" by simp
  then have ne: "frames_of H js bj sid [] es \<noteq> []" using assms by (metis length_0_conv)
  have "0 < length es" "length es - 1 < length es" using assms by simp_all
  note at = this [THEN frames_of_nth [where ls = "[]" and H = H and js = js and bj = bj and sid = sid,
        unfolded list.size(3) add_0]]
  show "\<exists>ks. hd (frames_of H js bj sid [] es) = next_frame H js bj sid ks (hd es)"
    unfolding hd_conv_nth [OF ne] hd_conv_nth [OF assms] by (rule at(1))
  show "\<exists>ks. last (frames_of H js bj sid [] es) = next_frame H js bj sid ks (last es)"
    unfolding last_conv_nth [OF ne] last_conv_nth [OF assms] len by (rule at(2))
qed

section \<open>Appending leaves the shipping files alone\<close>

lemma apply_effects_sidecars [simp]:
  "sd_shipped (apply_effects effs d) = sd_shipped d" "sd_chain_key (apply_effects effs d) = sd_chain_key d"
proof -
  have "sd_shipped (apply_effect x d) = sd_shipped d \<and> sd_chain_key (apply_effect x d) = sd_chain_key d" for x d
    by (cases x) (simp_all split: option.split)
  then show "sd_shipped (apply_effects effs d) = sd_shipped d" "sd_chain_key (apply_effects effs d) = sd_chain_key d"
    by (induction effs arbitrary: d) (simp_all add: apply_effects_def)
qed

lemma append_event_sidecars:
  assumes "append_event H js bj sid ss e = Some (ss', r)"
  shows "sd_shipped (create_dir ss' sid) = sd_shipped (create_dir ss sid)
    \<and> sd_chain_key (create_dir ss' sid) = sd_chain_key (create_dir ss sid)"
  using assms by (auto simp: append_event_def create_dir_def Let_def split: option.splits sum.splits)

lemma append_all_sidecars:
  assumes "append_all H js bj sid ss es = Some ss'"
  shows "sd_shipped (create_dir ss' sid) = sd_shipped (create_dir ss sid)
    \<and> sd_chain_key (create_dir ss' sid) = sd_chain_key (create_dir ss sid)"
  using assms
proof (induction es arbitrary: ss)
  case (Cons e es)
  then show ?case using append_event_sidecars by (fastforce split: option.splits prod.splits)
qed simp

section \<open>Closing the chain\<close>

lemma kind_str_end: "kind_str k = ''session_end'' \<longleftrightarrow> k = K_SessionEnd"
  by (cases k) simp_all

lemma finish_shipped:
  assumes "settled H sid ls d" "ls \<noteq> []" "sd_shipped d = sd_head d"
  shows "finish now None d = Some (Inr (Some
    (if frame_member (last ls) ''kind'' = Some ''session_end'' then d\<lparr>sd_chain_key := None\<rparr> else d)))"
proof -
  have log: "log_is H sid ls d" and chain: "chain_ok H sid None ls"
    using assms(1) by (simp_all add: settled_def log_is_def)
  have "read_head (sd_head d) = Inr (Some (head_of (last ls)))"
    using assms(1,2) read_head_line [OF chain_last(1,2) [OF chain assms(2)]] by (simp add: settled_def)
  with assms(2,3) last_frame_log [OF log] show ?thesis by (simp add: finish_def Let_def)
qed

lemma session_delivers:
  assumes "accepting W" "check_server (m_server M) = Inr ()" "crypto_ok c"
    and "settled (blake3_hex c) sid ls d" "shipped_upto 0 ls d" "ls \<noteq> []"
    and "list_all (\<lambda>l. entry l \<noteq> None) ls" "frame_member (unlines ls) ''host'' = Some host"
  shows "\<exists>s1 bs. ship_session W c M sid None (start_state d) = Some (Inr Done, s1, True)
    \<and> list_all2 (carries c (key_in_use W d) sid host) (map fst (st_sent s1)) bs
    \<and> concat (map fst bs) = unlines ls
    \<and> verify_linkage (blake3_hex c) None sid (concat (map snd bs)) = Inr (head_of (last ls))
    \<and> sd_shipped (st_dir s1) = Some (head_line (last ls))
    \<and> sd_chain_key (st_dir s1) = (if frame_member (last ls) ''kind'' = Some ''session_end'' then None else Some (key_in_use W d))"
proof -
  let ?d = "d\<lparr>sd_chain_key := Some (key_in_use W d), sd_shipped := Some (head_line (last ls))\<rparr>"
  note crypto = crypto_okD [OF assms(3)]
  have st: "st_dir (start_state d) = d" "st_sent (start_state d) = []" by (simp_all add: start_state_def)
  obtain s1 bs where s1: "session_loop W c M sid True (start_state d) = Some (Inr Done, s1)"
    "st_dir s1 = ?d" "list_all2 (carries c (key_in_use W d) sid host) (map fst (st_sent s1)) bs"
    "concat (map fst bs) = unlines ls"
    "verify_linkage (blake3_hex c) None sid (concat (map snd bs)) = Inr (head_of (last ls))"
    using session_loop_accepted [OF assms(1,2) crypto(1,5,6), of sid ls "start_state d" 0 host]
      assms(4-8) unfolding st by (auto simp: shipped_head_def)
  have "settled (blake3_hex c) sid ls ?d" using assms(4) by (simp add: settled_def log_is_def)
  moreover have "sd_shipped ?d = sd_head ?d" using assms(4,6) by (simp add: settled_def)
  ultimately have "finish (now_ns W) None ?d = Some (Inr (Some
      (if frame_member (last ls) ''kind'' = Some ''session_end'' then ?d\<lparr>sd_chain_key := None\<rparr> else ?d)))"
    using assms(6) by (intro finish_shipped)
  with s1 relock_quiet [OF assms(1), of s1] show ?thesis
    by (intro exI [of _ "s1\<lparr>st_clock := Suc (st_clock s1), st_dir :=
          (if frame_member (last ls) ''kind'' = Some ''session_end'' then ?d\<lparr>sd_chain_key := None\<rparr> else ?d)\<rparr>"] exI [of _ bs])
      (simp add: ship_session_def)
qed

end
