(* ===== verification/ShipProperties.thy ===== *)
theory ShipProperties
  imports Samples EndToEnd
begin

text \<open>
  The properties of shipping: what leaves the machine, that it all arrives at a vault that accepts
  it, what is pruned, which server and which recipients are accepted, and what a run over every
  session keeps.
\<close>

lemma crypto_ok0: "crypto_ok c0"
  using crypto0 by (simp add: crypto_ok_def)

section \<open>Batches and requests\<close>

lemma build_index_length:
  assumes "build_index frames = Inr index"
  shows "length index = length (split_inclusive newline frames)"
proof (cases "frames = []")
  case False
  with assms have "ends_with_newline frames" by (auto simp: build_index_def split: if_splits)
  then obtain ls where ls: "frames = unlines ls" "list_all one_line ls" by (rule terminated_linesE)
  with assms entries_Inr [of 0 ls index] show ?thesis by (simp add: build_index_unlines split_inclusive_unlines)
qed (use assms in \<open>simp add: build_index_def\<close>)

text \<open>
  C35. Batches partition what is pending: they never panic, hold all its bytes and all its index
  entries in order, each holds whole lines, at least one, with one entry for each, and is at most
  \<^verbatim>\<open>MAX_BATCH\<close> bytes unless it is a single line.
\<close>
theorem batches_partition:
  assumes "build_index frames = Inr index"
  shows "\<exists>bs groups. batches frames index = Some bs
    \<and> concat (map fst bs) = frames \<and> concat (map snd bs) = index
    \<and> concat groups = split_inclusive newline frames
    \<and> list_all2 (\<lambda>(b, es) g. b = concat g \<and> length es = length g \<and> g \<noteq> []
         \<and> (length b \<le> MAX_BATCH \<or> length g = 1)) bs groups"
proof -
  obtain bs grps where b: "batches frames index = Some bs" "concat grps = split_inclusive newline frames"
    "list_all batch_lines grps" "list_all2 (\<lambda>(b, es) g. b = concat g \<and> length es = length g) bs grps"
    "concat (map snd bs) = index"
    using batches_groups [OF build_index_length [OF assms]] by blast
  have "list_all2 (\<lambda>(b, es) g. b = concat g \<and> length es = length g \<and> g \<noteq> []
      \<and> (length b \<le> MAX_BATCH \<or> length g = 1)) bs grps"
    using b(3,4) by (auto simp: list_all2_conv_all_nth list_all_length batch_lines_def split: prod.splits)
  moreover have "concat (map fst bs) = frames"
    using batches_parts(1) [OF build_index_length [OF assms] b(1)] .
  ultimately show ?thesis using b by blast
qed

theorem batches_partition_at:
  "\<exists>index bs groups. batches (unlines [frame0]) index = Some bs
    \<and> concat (map fst bs) = unlines [frame0] \<and> concat (map snd bs) = index
    \<and> concat groups = split_inclusive newline (unlines [frame0])"
  using index0 batches_partition [of "unlines [frame0]"] by metis

text \<open>
  C6. Whatever the vault answers and whatever other processes append, every request a session sends
  is vouched for: to an acceptable server, signed with the machine's key over its body, with frames
  only as a batch sealed under the one chain key of the session, which is that of \<^verbatim>\<open>chain.key\<close> or,
  where there is none, the fresh one; bound to its session, host and range, next to the index of
  exactly its frames; and the chain key itself only in boxes for the pinned admins, in the batch that
  starts the chain.
\<close>
theorem every_request_vouched:
  assumes "crypto_ok c" "length (m_key M) = 32" "keeps_key W"
    and "ship_session W c M sid prune_after (start_state d) = Some (r, s1, kept)"
  shows "list_all (vouched W c M sid (case sd_chain_key d of Some key \<Rightarrow> key | None \<Rightarrow> rnd_chain_key W)) (st_sent s1)"
  using ship_session_vouched [OF assms] by (simp add: all_vouched_def key_in_use_def)

lemma shipped0: "shipped_upto 0 [frame0] dir0"
  by (simp add: shipped_upto_def dir0_def apply_effects_sidecars empty_dir_def)

lemma host0: "frame_member (unlines [frame0]) ''host'' = Some ''box''"
  using next_frame_members(3) [OF serde_str_js0, of event0 H0 bj0 "''abc''" "[]" "[newline]"]
  by (simp add: frame0_def event0_def json_plain_def is_ascii_alphanumeric_def)

lemma delivers0:
  "\<exists>s1. ship_session world0 c0 machine0 ''abc'' None (start_state dir0) = Some (Inr Done, s1, True) \<and> st_sent s1 \<noteq> []"
proof -
  have "settled (blake3_hex c0) ''abc'' [frame0] dir0" using settled0 by simp
  from session_delivers [OF accepting0 server0 crypto_ok0 this shipped0 _ _ host0] entry0 obtain s1 bs where
    "ship_session world0 c0 machine0 ''abc'' None (start_state dir0) = Some (Inr Done, s1, True)"
    "list_all2 (carries c0 (key_in_use world0 dir0) ''abc'' ''box'') (map fst (st_sent s1)) bs"
    "concat (map fst bs) = unlines [frame0]"
    by auto
  then show ?thesis by (intro exI [of _ s1]) auto
qed

theorem every_request_vouched_at:
  "\<exists>s1. ship_session world0 c0 machine0 ''abc'' None (start_state dir0) = Some (Inr Done, s1, True)
    \<and> st_sent s1 \<noteq> [] \<and> list_all (vouched world0 c0 machine0 ''abc'' (rnd_chain_key world0)) (st_sent s1)"
proof -
  obtain s1 where s1: "ship_session world0 c0 machine0 ''abc'' None (start_state dir0) = Some (Inr Done, s1, True)"
    "st_sent s1 \<noteq> []"
    using delivers0 by blast
  have "sd_chain_key dir0 = None" by (simp add: dir0_def apply_effects_sidecars empty_dir_def)
  moreover have "keeps_key world0" using accepting0 by (simp add: keeps_key_def accepting_def)
  ultimately show ?thesis using every_request_vouched [OF crypto_ok0 _ _ s1(1)] s1 by (auto simp: machine0_def)
qed

section \<open>Delivery\<close>

text \<open>
  From the hook to the vault: any events appended to a session that did not exist arrive, in
  one run, at a vault that accepts them. The requests open, under the session's key and their own
  associated data, to batches that together are exactly the log file; the vault's linkage rule
  accepts their indexes; \<^verbatim>\<open>shipped\<close> ends at the head the vault computed, and the chain key is deleted
  exactly when the last event ends the session.
\<close>
theorem written_is_delivered:
  assumes "serde_str js" "serde_body bj" "hash_hex (blake3_hex c)" "crypto_ok c"
    and "list_all (\<lambda>e. ev_hash e = None) es" "es \<noteq> []" "length es < 2 ^ 64" "list_all json_plain (ev_host (hd es))"
    and "ss sid = None" "accepting W" "check_server (m_server M) = Inr ()"
  shows "\<exists>ss' d s1 bs h. append_all (blake3_hex c) js bj sid ss es = Some ss' \<and> ss' sid = Some d
    \<and> ship_session W c M sid None (start_state d) = Some (Inr Done, s1, True)
    \<and> list_all2 (carries c (rnd_chain_key W) sid (ev_host (hd es))) (map fst (st_sent s1)) bs
    \<and> sd_events d = Some (concat (map fst bs))
    \<and> verify_linkage (blake3_hex c) None sid (concat (map snd bs)) = Inr h
    \<and> read_head (sd_shipped (st_dir s1)) = Inr (Some h)
    \<and> (sd_chain_key (st_dir s1) = None \<longleftrightarrow> ev_kind (last es) = K_SessionEnd)"
proof -
  let ?H = "blake3_hex c" and ?ls = "frames_of (blake3_hex c) js bj sid [] es"
  have new: "create_dir ss sid = empty_dir" using assms(9) by (simp add: create_dir_def)
  obtain ss' d where a: "append_all ?H js bj sid ss es = Some ss'" "ss' sid = Some d" "settled ?H sid ?ls d"
    using append_all_settled [OF assms(1-3,5), of sid "[]" ss] assms(6,7) new by (auto simp: create_dir_def)
  have side: "sd_shipped d = None" "sd_chain_key d = None"
    using append_all_sidecars [OF a(1)] a(2) unfolding new by (simp_all add: create_dir_def empty_dir_def)
  have len: "length ?ls = length es" by simp
  then have ne: "?ls \<noteq> []" using assms(6) by (metis length_0_conv)
  have chain: "chain_ok ?H sid None ?ls" using a(3) by (simp add: settled_def log_is_def)
  have indexable: "list_all (\<lambda>l. entry l \<noteq> None) ?ls"
    by (rule frames_of_indexable [OF assms(1-3,5)]) (simp_all add: chain_ok_def)
  obtain k1 where "hd ?ls = next_frame ?H js bj sid k1 (hd es)" using frames_of_hd(1) [OF assms(6)] by blast
  with ne have "unlines ?ls = next_frame ?H js bj sid k1 (hd es) @ newline # unlines (tl ?ls)" by (cases ?ls) simp_all
  then have host: "frame_member (unlines ?ls) ''host'' = Some (ev_host (hd es))"
    using next_frame_members(3) [OF assms(1,8)] by simp
  obtain k2 where "last ?ls = next_frame ?H js bj sid k2 (last es)" using frames_of_hd(2) [OF assms(6)] by blast
  then have kind: "frame_member (last ?ls) ''kind'' = Some (kind_str (ev_kind (last es)))"
    using next_frame_members(1) [OF assms(1), of ?H bj sid k2 "last es" "[]"] by simp
  have up: "shipped_upto 0 ?ls d" by (simp add: shipped_upto_def side)
  obtain s1 bs where s1: "ship_session W c M sid None (start_state d) = Some (Inr Done, s1, True)"
    "list_all2 (carries c (key_in_use W d) sid (ev_host (hd es))) (map fst (st_sent s1)) bs"
    "concat (map fst bs) = unlines ?ls"
    "verify_linkage ?H None sid (concat (map snd bs)) = Inr (head_of (last ?ls))"
    "sd_shipped (st_dir s1) = Some (head_line (last ?ls))"
    "sd_chain_key (st_dir s1) = (if frame_member (last ?ls) ''kind'' = Some ''session_end'' then None else Some (key_in_use W d))"
    using session_delivers [OF assms(10,11,4) a(3) up ne indexable host] by blast
  have "key_in_use W d = rnd_chain_key W" by (simp add: key_in_use_def side)
  moreover have "sd_events d = Some (unlines ?ls)" using a(3) ne by (simp add: settled_def log_is_def)
  moreover have "read_head (Some (head_line (last ?ls))) = Inr (Some (head_of (last ?ls)))"
    by (rule read_head_line [OF chain_last(1,2) [OF chain ne]])
  ultimately show ?thesis using a(1,2) s1 kind kind_str_end by auto
qed

theorem written_is_delivered_at:
  "\<exists>ss' d s1 bs h. append_all H0 js0 bj0 ''abc'' Map.empty [event0, event0\<lparr>ev_kind := K_SessionEnd\<rparr>] = Some ss' \<and> ss' ''abc'' = Some d
    \<and> ship_session world0 c0 machine0 ''abc'' None (start_state d) = Some (Inr Done, s1, True)
    \<and> list_all2 (carries c0 (rnd_chain_key world0) ''abc'' ''box'') (map fst (st_sent s1)) bs
    \<and> sd_events d = Some (concat (map fst bs))
    \<and> verify_linkage H0 None ''abc'' (concat (map snd bs)) = Inr h
    \<and> read_head (sd_shipped (st_dir s1)) = Inr (Some h) \<and> sd_chain_key (st_dir s1) = None"
proof -
  let ?es = "[event0, event0\<lparr>ev_kind := K_SessionEnd\<rparr>]"
  have es: "list_all (\<lambda>e. ev_hash e = None) ?es" "?es \<noteq> []" "length ?es < 2 ^ 64"
    "ev_host (hd ?es) = ''box''" "list_all json_plain (ev_host (hd ?es))" "ev_kind (last ?es) = K_SessionEnd"
    by (simp_all add: event0_def json_plain_def is_ascii_alphanumeric_def)
  have h: "hash_hex (blake3_hex c0)" using hash_hex_H0 by simp
  from written_is_delivered [OF samples_log(1,2) h crypto_ok0 es(1-3,5) _ accepting0 server0, of Map.empty "''abc''"]
  show ?thesis unfolding es(4,6) blake0 by simp
qed

section \<open>Closing and pruning\<close>

text \<open>
  C8. The end of a run on a session whose head is right: pruning happens only when it is on, the
  vault has acknowledged the last frame and that frame is old enough, and the chain key is deleted
  only when the acknowledged last frame ends the session. Nothing else changes.
\<close>
theorem prune_only_delivered:
  assumes "settled H sid ls d" "finish now prune_after d = Some (Inr r)"
  shows "case r of
      None \<Rightarrow> ls \<noteq> [] \<and> read_head (sd_shipped d) = Inr (Some (head_of (last ls)))
        \<and> (\<exists>after ts. prune_after = Some after \<and> frame_ts (last ls) = Some ts
             \<and> sint (clamp_nanos after) \<le> sint (saturating_sub now ts))
    | Some d' \<Rightarrow> d' = d \<or> d' = d\<lparr>sd_chain_key := None\<rparr> \<and> ls \<noteq> []
        \<and> frame_member (last ls) ''kind'' = Some ''session_end''
        \<and> read_head (sd_shipped d) = Inr (Some (head_of (last ls)))"
proof (cases r)
  case None
  with finish_settled [OF assms(1)] assms(2) show ?thesis by simp
next
  case (Some d')
  have keep: "d' = d \<or> d' = d\<lparr>sd_chain_key := None\<rparr>"
    using assms(2) Some by (auto simp: finish_def Let_def split: sum.splits option.splits tail.splits if_splits)
  show ?thesis
  proof (cases "sd_chain_key d' = sd_chain_key d")
    case True
    with keep have "d' = d" by (cases d) auto
    with Some show ?thesis by simp
  next
    case False
    have "ls \<noteq> []"
    proof
      assume "ls = []"
      with assms(1) have "last_frame (sd_events d) = Some Tail_Empty"
        using last_frame_log [of H sid ls d] by (simp add: settled_def)
      with assms(2) Some False show False
        by (auto simp: finish_def Let_def split: sum.splits option.splits if_splits)
    qed
    with finish_keeps_key [OF assms(1) this, of now prune_after d'] assms(2) Some False keep show ?thesis by auto
  qed
qed

theorem prune_only_delivered_at:
  "\<exists>r. finish 7 None (dir0\<lparr>sd_shipped := sd_head dir0\<rparr>) = Some (Inr (Some r)) \<and> r = dir0\<lparr>sd_shipped := sd_head dir0\<rparr>"
proof -
  let ?d = "dir0\<lparr>sd_shipped := sd_head dir0\<rparr>"
  have s: "settled H0 ''abc'' [frame0] ?d" using settled0 by (simp add: settled_def log_is_def)
  have kind: "frame_member frame0 ''kind'' = Some ''turn_end''"
    using next_frame_members(1) [OF serde_str_js0, of H0 bj0 "''abc''" "[]" event0 "[]"]
    by (simp add: frame0_def event0_def)
  obtain r where r: "finish 7 None ?d = Some (Inr (Some r))"
    using finish_shipped [OF s] by auto
  from prune_only_delivered [OF s r] kind r show ?thesis by auto
qed

text \<open>
  C9. A crash can lose a session that was never sent. When the first append of a session dies
  after its frame was written and before \<^verbatim>\<open>head\<close> was, neither \<^verbatim>\<open>head\<close> nor \<^verbatim>\<open>shipped\<close> exists; a run
  with pruning on takes them to agree, sends nothing, and deletes the directory with the frame in it
  once the frame is old enough.
\<close>
theorem crash_then_prune:
  assumes "serde_str js" "serde_body bj" "hash_hex H" "ev_hash e = None"
    and "\<forall>k d. meanwhile W k d = d" "sint (clamp_nanos limit) \<le> sint (saturating_sub (now_ns W) (ev_ts e))"
  shows "\<exists>effs s1. append_frame H js bj sid empty_dir e = Some (Inr effs)
    \<and> sd_events (crash 1 0 effs empty_dir) = Some (next_frame H js bj sid [] e @ [newline])
    \<and> ship_session W c M sid (Some limit) (start_state (crash 1 0 effs empty_dir)) = Some (Inr Done, s1, False)
    \<and> st_sent s1 = []"
proof -
  let ?l = "next_frame H js bj sid [] e"
  let ?d = "crash 1 0 (append_writes ?l) empty_dir"
  have "recoverable H sid [] empty_dir" by (simp add: settled_recoverable)
  from append_frame_recoverable [OF assms(1-4) this]
  have eff: "append_frame H js bj sid empty_dir e = Some (Inr (append_writes ?l))" .
  have d: "sd_events ?d = Some (?l @ [newline])" "sd_head ?d = None" "sd_shipped ?d = None"
    by (simp_all add: crash_def append_writes_def apply_effects_def empty_dir_def)
  have "chain_ok H sid None [?l]"
    using chain_ok_next [OF assms(1-4), of sid "[]"] by (simp add: chain_ok_def)
  then have "recoverable H sid [?l] ?d" using d by (simp add: recoverable_def log_is_def)
  moreover have "frame_ts ?l = Some (ev_ts e)" using next_frame_members(2) [OF assms(1), of H bj sid "[]" e "[]"] by simp
  ultimately obtain s1 where "ship_session W c M sid (Some limit) (start_state ?d) = Some (Inr Done, s1, False)" "st_sent s1 = []"
    using session_prunes_unshipped [OF assms(5) _ _ d(2,3), of H sid "[?l]" "ev_ts e" limit c M] assms(6) by auto
  with eff d(1) show ?thesis by blast
qed

theorem crash_then_prune_at:
  "\<exists>effs s1. append_frame H0 js0 bj0 ''abc'' empty_dir event0 = Some (Inr effs)
    \<and> sd_events (crash 1 0 effs empty_dir) = Some (next_frame H0 js0 bj0 ''abc'' [] event0 @ [newline])
    \<and> ship_session world0 c0 machine0 ''abc'' (Some 60) (start_state (crash 1 0 effs empty_dir)) = Some (Inr Done, s1, False)
    \<and> st_sent s1 = []"
  by (rule crash_then_prune [OF samples_log event0_unsealed])
    (simp_all add: clamp_nanos_def saturating_sub_def event0_def)

text \<open>
  A chain that was closed sends nothing more: once something was shipped and the key is gone,
  whatever is appended later stays on the machine.
\<close>
theorem closed_chain_silent:
  assumes "\<forall>k d. sd_shipped (meanwhile W k d) = sd_shipped d \<and> sd_chain_key (meanwhile W k d) = sd_chain_key d"
    and "sd_shipped d = Some t" "sd_chain_key d = None"
    and "ship_session W c M sid prune_after (start_state d) = Some (r, s1, kept)"
  shows "st_sent s1 = []"
proof -
  obtain r1 s2 where loop: "session_loop W c M sid True (start_state d) = Some (r1, s2)"
    using assms(4) by (cases "session_loop W c M sid True (start_state d)") (auto simp: ship_session_def)
  have "st_sent s2 = []"
    using closed_chain_sends_nothing(1) [OF assms(1) _ _ loop] assms(2,3) by (simp add: start_state_def)
  with assms(4) loop show ?thesis
    by (auto simp: ship_session_def relock_def Let_def split: sum.splits outcome.splits option.splits)
qed

theorem closed_chain_silent_at:
  "\<exists>s1. ship_session world0 c0 machine0 ''abc'' None (start_state (dir0\<lparr>sd_shipped := sd_head dir0\<rparr>)) = Some (Inr Done, s1, True)
    \<and> st_sent s1 = []"
proof -
  let ?d = "dir0\<lparr>sd_shipped := sd_head dir0\<rparr>"
  have h: "sd_head dir0 = Some (head_line frame0)" using settled0 by (simp add: settled_def)
  have k: "sd_chain_key dir0 = None" by (simp add: dir0_def empty_dir_def)
  have rh: "read_head (Some (head_line frame0)) = Inr (Some (head_of frame0))"
    using chain_last [OF chain0] by (simp add: read_head_line)
  have s: "settled H0 ''abc'' [frame0] ?d" using settled0 by (simp add: settled_def log_is_def)
  have kind: "frame_member frame0 ''kind'' = Some ''turn_end''"
    using next_frame_members(1) [OF serde_str_js0, of H0 bj0 "''abc''" "[]" event0 "[]"]
    by (simp add: frame0_def event0_def)
  have fin: "finish 1000 None ?d = Some (Inr (Some ?d))"
    using finish_shipped [OF s] kind by simp
  have "session_loop world0 c0 machine0 ''abc'' True (start_state ?d) = Some (Inr Done, (start_state ?d)\<lparr>st_clock := 1\<rparr>)"
    using h rh by (simp add: session_loop.simps relock_def start_state_def read_pending_def)
  then obtain s1 where s1: "ship_session world0 c0 machine0 ''abc'' None (start_state ?d) = Some (Inr Done, s1, True)"
    using fin by (auto simp: ship_session_def relock_def start_state_def)
  from closed_chain_silent [OF _ _ _ this] h k s1 show ?thesis by auto
qed

section \<open>Servers, recipients and enrolment\<close>

text \<open>
  Plain HTTP is for this machine: a server that is accepted is \<^verbatim>\<open>https://\<close>, or its host after
  RFC 3986 is \<^verbatim>\<open>localhost\<close> or \<^verbatim>\<open>127.0.0.1\<close>, when the URL has no \<^verbatim>\<open>@\<close>.
\<close>
theorem plain_http_only_here:
  assumes "check_server url = Inr ()" "\<not> prefix ''https://'' url" "CHR ''@'' \<notin> set url"
  shows "\<exists>rest. url = ''http://'' @ rest \<and> uri_host rest \<in> {''localhost'', ''127.0.0.1''}"
proof -
  obtain rest where rest: "url = ''http://'' @ rest" "loopback rest"
    using assms(1,2) by (auto simp: check_server_cases)
  have "CHR ''@'' \<notin> set (uri_authority rest)"
    using assms(3) rest(1) by (auto simp: uri_authority_def dest: set_takeWhileD)
  from loopback_host [OF rest(2) this] rest(1) show ?thesis by blast
qed

theorem plain_http_only_here_at:
  "\<exists>rest. ''http://localhost:8080/x'' = ''http://'' @ rest \<and> uri_host rest \<in> {''localhost'', ''127.0.0.1''}"
  by (rule plain_http_only_here)
    (simp_all add: check_server_def loopback_def rsplit_once_def split_once_def Let_def)

text \<open>
  User information gets past the check: this URL is accepted as plain HTTP to this machine, and
  its host is another.
\<close>
theorem userinfo_accepted:
  "check_server ''http://localhost:x@evil.example'' = Inr () \<and> uri_host ''localhost:x@evil.example'' = ''evil.example''"
  by (simp add: check_server_def loopback_def uri_host_def uri_authority_def rsplit_once_def split_once_def Let_def)

text \<open>
  Recipients nobody pinned has signed stop the run: nothing is written, to the pinned set or to
  any session, and nothing is sent.
\<close>
theorem unsigned_recipients_stop:
  assumes "load_machine parse_set vd = Inr M" "fetch_recipients c now answer parse_set M = Some rs"
    and "\<not> verify_against c rs (srs_set (m_recipients M))"
  shows "run_once Ws c now answer parse_set set_json prune_after code root names vd ss
    = Some (Inl Unsigned_Recipients, vd, ss)"
  using assms by (rule run_once_unsigned)

definition vault0 :: vault_dir where
  "vault0 = \<lparr>vd_machine_key = Some seed0, vd_machine_id = Some ''m1'', vd_server = Some ''https://vault.example'',
     vd_recipients = Some ''r''\<rparr>"

lemma load0: assumes "parse ''r'' = Some signed0" shows "load_machine parse vault0 = Inr machine0"
proof -
  have t: "trim ''https://vault.example'' = ''https://vault.example''" "trim ''m1'' = ''m1''"
    by (rule trim_printable; simp add: byte_in_def)+
  have u: "utf8_valid ''https://vault.example''" "utf8_valid ''m1''"
    by (rule utf8_valid_ascii; simp add: byte_in_def)+
  have r: "read_text (Some ''https://vault.example'') = Inr ''https://vault.example''" "read_text (Some ''m1'') = Inr ''m1''"
    by (simp_all only: read_text_def option.case u if_True t)
  have s: "check_server ''https://vault.example'' = Inr ()" using server0 by simp
  show ?thesis
    unfolding load_machine_def vault0_def vault_dir.select_convs option.case r sum.case s machine0_def bind.bind_lunit assms
    by simp
qed
lemma fetch0: "fetch_recipients c0 7 (\<lambda>r. Some (200, b)) p machine0 = p b"
  using server0 by (simp add: fetch_recipients_def build_request_def)

theorem unsigned_recipients_stop_at:
  "run_once (\<lambda>n. world0) c0 7 (\<lambda>r. Some (200, ''forged'')) (\<lambda>b. Some (if b = ''r'' then signed0 else signed0\<lparr>srs_signature := ''x''\<rparr>))
      (\<lambda>s. ''r'') None 0 ''/state'' [''abc''] vault0 [''abc'' \<mapsto> dir0]
    = Some (Inl Unsigned_Recipients, vault0, [''abc'' \<mapsto> dir0])"
proof (rule unsigned_recipients_stop)
  let ?p = "\<lambda>b. Some (if b = ''r'' then signed0 else signed0\<lparr>srs_signature := ''x''\<rparr>)"
  show "load_machine ?p vault0 = Inr machine0" by (simp add: load0)
  show "fetch_recipients c0 7 (\<lambda>r. Some (200, ''forged'')) ?p machine0 = Some (signed0\<lparr>srs_signature := ''x''\<rparr>)"
    by (simp add: fetch0)
  show "\<not> verify_against c0 (signed0\<lparr>srs_signature := ''x''\<rparr>) (srs_set (m_recipients machine0))"
    by (auto simp: verify_against_def verify_ed25519_def decode_array_def c0_def split: option.splits)
qed

text \<open>
  C37. Enrolment pins what the token names: what is written is the server, once acceptable, and a
  recipient set with the token's fingerprint; an enrolled machine is not enrolled again unless
  asked to; and a first enrolment that is interrupted, after any of its writes but the last, leaves
  a machine that does not count as enrolled.
\<close>
theorem enroll_pins:
  assumes "enroll c answer req_json parse_response set_json now host seed server token re_enroll d = Inr (ws, machine_id)"
  shows "\<exists>rs secret. split_once CHR ''.'' token = Some (set_fingerprint c (srs_set rs), secret)
    \<and> check_server (trim_slashes server) = Inr () \<and> (vd_machine_key d = None \<or> re_enroll)
    \<and> ws = [Write_Machine_Id machine_id, Write_Server (trim_slashes server), Write_Recipients (set_json rs),
         Write_Machine_Key seed]
    \<and> (vd_machine_key d = None \<longrightarrow> (\<forall>n < 4. \<exists>e. load_machine parse_set (apply_vault_writes (take n ws) d) = Inl e))"
proof -
  obtain enrolled :: enroll_response and secret where e:
    "split_once CHR ''.'' token = Some (set_fingerprint c (srs_set (en_recipients enrolled)), secret)"
    "check_server (trim_slashes server) = Inr ()" "vd_machine_key d = None \<or> re_enroll"
    "machine_id = en_machine_id enrolled"
    "ws = [Write_Machine_Id machine_id, Write_Server (trim_slashes server),
       Write_Recipients (set_json (en_recipients enrolled)), Write_Machine_Key seed]"
    using assms by (rule enroll_Inr)
  have "\<exists>e. load_machine parse_set (apply_vault_writes (take n ws) d) = Inl e"
    if "vd_machine_key d = None" "n < 4" for n
    using enroll_interrupted [OF assms that(1), of n parse_set] that(2) e(5) by simp
  with e show ?thesis by blast
qed

definition no_vault :: vault_dir where
  "no_vault = \<lparr>vd_machine_key = None, vd_machine_id = None, vd_server = None, vd_recipients = None\<rparr>"

definition token0 :: bytes where
  "token0 = set_fingerprint c0 recipients0 @ ''.secret''"

lemma token0_split: "split_once CHR ''.'' token0 = Some (set_fingerprint c0 recipients0, ''secret'')"
proof -
  have "CHR ''.'' \<notin> set (set_fingerprint c0 recipients0)"
    by (simp add: set_fingerprint_def H0_def)
  then have "split_once CHR ''.'' (set_fingerprint c0 recipients0 @ CHR ''.'' # ''secret'')
      = Some (set_fingerprint c0 recipients0, ''secret'')"
    by (rule split_once_append)
  then show ?thesis by (simp add: token0_def)
qed

theorem enroll_pins_at:
  "\<exists>ws. enroll c0 (\<lambda>r. Some (201, [])) (\<lambda>r. []) (\<lambda>b. Some \<lparr>en_machine_id = ''m1'', en_recipients = signed0\<rparr>) (\<lambda>s. ''r'')
      7 ''box'' seed0 ''https://vault.example/'' token0 False no_vault = Inr (ws, ''m1'')
    \<and> Write_Recipients ''r'' \<in> set ws
    \<and> (\<exists>e. load_machine (\<lambda>b. Some signed0) (apply_vault_writes (take 3 ws) no_vault) = Inl e)"
proof -
  let ?ws = "[Write_Machine_Id ''m1'', Write_Server ''https://vault.example'', Write_Recipients ''r'', Write_Machine_Key seed0]"
  have e: "enroll c0 (\<lambda>r. Some (201, [])) (\<lambda>r. []) (\<lambda>b. Some \<lparr>en_machine_id = ''m1'', en_recipients = signed0\<rparr>) (\<lambda>s. ''r'')
      7 ''box'' seed0 ''https://vault.example/'' token0 False no_vault = Inr (?ws, ''m1'')"
    by (simp add: enroll_def token0_split no_vault_def trim_slashes_def build_request_def check_server_def
        signed0_def sign_set_def Let_def)
  have "vd_machine_key no_vault = None" "(3 :: nat) < 4" by (simp_all add: no_vault_def)
  with enroll_pins [OF e, of "\<lambda>b. Some signed0"]
  have "\<exists>x. load_machine (\<lambda>b. Some signed0) (apply_vault_writes (take 3 ?ws) no_vault) = Inl x" by blast
  with e show ?thesis by (intro exI [of _ ?ws]) simp
qed

section \<open>A run over every session\<close>

lemma run_sessions0:
  "\<exists>ss'. run_sessions (\<lambda>n. world0) c0 machine0 None ''/state'' [''abc''] [''abc'' \<mapsto> dir0] (False, False)
    = Some (Inr (False, False), ss')"
proof -
  obtain s1 where "ship_session world0 c0 machine0 ''abc'' None (start_state dir0) = Some (Inr Done, s1, True)"
    using delivers0 by blast
  then show ?thesis by (simp add: open_in_def check_session_id_def create_dir_def)
qed

lemma run_once0:
  "\<exists>ss'. run_once (\<lambda>n. world0) c0 7 (\<lambda>r. Some (200, ''r'')) (\<lambda>b. Some signed0) (\<lambda>s. ''r'') None 0 ''/state'' [''abc'']
      vault0 [''abc'' \<mapsto> dir0] = Some (Inr 0, vault0, ss')"
proof -
  have "verify_against c0 signed0 (srs_set (m_recipients machine0))"
    unfolding signed0_def
    by (rule verify_against_signed [OF crypto0(1,2)])
      (simp_all add: machine0_def signed0_def sign_set_def recipients0_def admin0_def admin_from_seed_def)
  moreover have "machine0\<lparr>m_recipients := signed0\<rparr> = machine0" "vault0\<lparr>vd_recipients := Some ''r''\<rparr> = vault0"
    by (simp_all add: machine0_def vault0_def)
  ultimately show ?thesis
    using run_sessions0 by (auto simp: run_once_def load0 fetch0 exit_code_def)
qed

text \<open>
  C7. A run keeps every log: whatever the vaults answer and whoever appends in between, each
  session that is still there holds its frames, in order, at most followed by new ones, its
  \<^verbatim>\<open>shipped\<close> names one of them, and a session that was not visited is as it was.
\<close>
theorem run_keeps_logs:
  assumes "\<forall>sid. appends_only (blake3_hex c) sid (Ws sid)"
    and "run_once Ws c now answer parse_set set_json prune_after code root names vd ss = Some (r, vd', ss')"
    and "fleet_ok (blake3_hex c) logs ss" "\<forall>name \<in> set names. ss name \<noteq> None" "distinct names"
  shows "fleet_ok (blake3_hex c) logs ss' \<and> (\<forall>sid. sid \<notin> set names \<longrightarrow> ss' sid = ss sid)"
  using assms by (rule run_once_ok)

theorem run_keeps_logs_at:
  "\<exists>ss'. run_once (\<lambda>n. world0) c0 7 (\<lambda>r. Some (200, ''r'')) (\<lambda>b. Some signed0) (\<lambda>s. ''r'') None 0 ''/state'' [''abc'']
      vault0 [''abc'' \<mapsto> dir0] = Some (Inr 0, vault0, ss')
    \<and> fleet_ok H0 (\<lambda>n. [frame0]) ss' \<and> ss' ''xyz'' = None"
proof -
  obtain ss' where run: "run_once (\<lambda>n. world0) c0 7 (\<lambda>r. Some (200, ''r'')) (\<lambda>b. Some signed0) (\<lambda>s. ''r'') None 0 ''/state'' [''abc'']
      vault0 [''abc'' \<mapsto> dir0] = Some (Inr 0, vault0, ss')" using run_once0 by blast
  have "kept_log H0 ''abc'' [frame0] dir0"
    using settled0 by (simp add: kept_log_def settled_recoverable)
  moreover have "shipped_ok [frame0] dir0" using shipped0 by (simp add: shipped_ok_def shipped_upto_def)
  ultimately have "ship_ok H0 ''abc'' [frame0] dir0" unfolding ship_ok_def by (intro exI [of _ "[]"]) simp
  then have fleet: "fleet_ok H0 (\<lambda>n. [frame0]) [''abc'' \<mapsto> dir0]" by (simp add: fleet_ok_def)
  from run_keeps_logs [OF _ run, of "\<lambda>n. [frame0]"] fleet appends_only0
  have "fleet_ok H0 (\<lambda>n. [frame0]) ss' \<and> (\<forall>sid. sid \<notin> set [''abc''] \<longrightarrow> ss' sid = [''abc'' \<mapsto> dir0] sid)" by simp
  with run show ?thesis by auto
qed

text \<open>
  The exit code of a run: 1 exactly when some session stopped, on a divergence or a local
  failure; otherwise what the caller asked for when some session could not reach the vault;
  otherwise 0.
\<close>
theorem exit_code_meaning:
  assumes "run_sessions Ws c M prune_after root names ss (False, False) = Some (Inr r, ss')" "distinct names"
  shows "exit_code unreachable r =
    (if \<exists>n \<in> set names. session_outcome Ws c M prune_after ss n = Some Stopped then 1
     else if \<exists>n \<in> set names. session_outcome Ws c M prune_after ss n = Some Unreachable then unreachable
     else 0)"
proof -
  obtain st un where r: "r = (st, un)" by (cases r)
  from run_sessions_outcomes [OF assms(1) [unfolded r] assms(2)] show ?thesis by (simp add: exit_code_def r)
qed

theorem exit_code_meaning_at:
  "\<exists>ss'. run_sessions (\<lambda>n. world0) c0 machine0 None ''/state'' [''abc''] [''abc'' \<mapsto> dir0] (False, False)
      = Some (Inr (False, False), ss')
    \<and> exit_code 1 (False, False) =
      (if \<exists>n \<in> set [''abc'']. session_outcome (\<lambda>n. world0) c0 machine0 None [''abc'' \<mapsto> dir0] n = Some Stopped then 1
       else if \<exists>n \<in> set [''abc'']. session_outcome (\<lambda>n. world0) c0 machine0 None [''abc'' \<mapsto> dir0] n = Some Unreachable then 1
       else 0)"
proof -
  obtain ss' where ss': "run_sessions (\<lambda>n. world0) c0 machine0 None ''/state'' [''abc''] [''abc'' \<mapsto> dir0] (False, False)
      = Some (Inr (False, False), ss')" using run_sessions0 by blast
  from exit_code_meaning [OF this, of 1] ss' show ?thesis by auto
qed

end
