(* ===== verification/Disk.thy ===== *)
theory Disk
  imports Paths
begin

text \<open>
  \<^verbatim>\<open>write_atomic\<close> of \<^verbatim>\<open>src/src/session.rs\<close> as the system calls it makes, on a disk with names and
  inodes: a file that is opened keeps its inode when its name is renamed or opened again by another
  process, which is what makes two writers of one file interfere. A \<^verbatim>\<open>write\<close> may write any
  part of what it is given, a writer may be killed between any two calls, and several writers
  interleave call by call. Permissions and the creation of the parent directory are left out.
\<close>

section \<open>Names and inodes\<close>

record disk =
  names :: "bytes \<rightharpoonup> nat"
  content :: "nat \<Rightarrow> bytes"
  next_inode :: nat

definition read_file :: "disk \<Rightarrow> bytes \<Rightarrow> bytes option" where
  "read_file d p = map_option (content d) (names d p)"

text \<open>A write at an offset, zero bytes filling a hole before it.\<close>

definition overwrite :: "nat \<Rightarrow> bytes \<Rightarrow> bytes \<Rightarrow> bytes" where
  "overwrite off s c =
     take off c @ replicate (off - length c) (CHR 0x00) @ s @ drop (off + length s) c"

lemma overwrite_end [simp]: "overwrite (length c) s c = c @ s"
  by (simp add: overwrite_def)

section \<open>Writers\<close>

datatype call = Open bytes | Put bytes | Rename bytes bytes

text \<open>The calls a process has still to make, and the inode and offset of its open file.\<close>

type_synonym writer = "call list \<times> (nat \<times> nat) option"

definition write_atomic :: "bytes \<Rightarrow> bytes \<Rightarrow> call list" where
  "write_atomic path s = [Open (path @ ''.tmp''), Put s, Rename (path @ ''.tmp'') path]"

definition do_open :: "disk \<Rightarrow> bytes \<Rightarrow> disk \<times> nat" where
  "do_open d p =
     (case names d p of
        Some i \<Rightarrow> (d\<lparr>content := (content d)(i := [])\<rparr>, i)
      | None \<Rightarrow>
          (d\<lparr>names := (names d)(p \<mapsto> next_inode d), content := (content d)(next_inode d := []),
             next_inode := Suc (next_inode d)\<rparr>, next_inode d))"

definition do_write :: "disk \<Rightarrow> nat \<Rightarrow> nat \<Rightarrow> bytes \<Rightarrow> disk" where
  "do_write d i off s = d\<lparr>content := (content d)(i := overwrite off s (content d i))\<rparr>"

definition do_rename :: "disk \<Rightarrow> bytes \<Rightarrow> bytes \<Rightarrow> disk option" where
  "do_rename d p q =
     (case names d p of
        None \<Rightarrow> None
      | Some i \<Rightarrow> Some (d\<lparr>names := (names d)(p := None, q \<mapsto> i)\<rparr>))"

text \<open>One call, or part of a write; an error ends the writer, and so does a kill.\<close>

inductive call_step :: "disk \<Rightarrow> writer \<Rightarrow> disk \<Rightarrow> writer \<Rightarrow> bool" where
  open_call: "do_open d p = (d', i) \<Longrightarrow> call_step d (Open p # cs, fd) d' (cs, Some (i, 0))"
| put_some: "s = a @ b \<Longrightarrow> b \<noteq> [] \<Longrightarrow>
    call_step d (Put s # cs, Some (i, off)) (do_write d i off a) (Put b # cs, Some (i, off + length a))"
| put_all: "call_step d (Put s # cs, Some (i, off)) (do_write d i off s) (cs, Some (i, off + length s))"
| rename_ok: "do_rename d p q = Some d' \<Longrightarrow> call_step d (Rename p q # cs, fd) d' (cs, fd)"
| rename_error: "do_rename d p q = None \<Longrightarrow> call_step d (Rename p q # cs, fd) d ([], None)"
| killed: "call_step d w d ([], None)"

text \<open>Several processes on one disk: one of them takes a step.\<close>

inductive disk_step :: "disk \<times> writer list \<Rightarrow> disk \<times> writer list \<Rightarrow> bool" where
  some_writer: "k < length ws \<Longrightarrow> call_step d (ws ! k) d' w' \<Longrightarrow> disk_step (d, ws) (d', ws[k := w'])"

text \<open>The calls of one writer without interruption: the disk and the open file they leave.\<close>

fun perform :: "disk \<Rightarrow> (nat \<times> nat) option \<Rightarrow> call list \<Rightarrow> (disk \<times> (nat \<times> nat) option) option" where
  "perform d fd [] = Some (d, fd)"
| "perform d fd (Open p # cs) = perform (fst (do_open d p)) (Some (snd (do_open d p), 0)) cs"
| "perform d None (Put s # cs) = None"
| "perform d (Some (i, off)) (Put s # cs) = perform (do_write d i off s) (Some (i, off + length s)) cs"
| "perform d fd (Rename p q # cs) = Option.bind (do_rename d p q) (\<lambda>d'. perform d' fd cs)"

lemma perform_steps:
  "perform d fd cs = Some (d', fd') \<Longrightarrow> k < length ws \<Longrightarrow> ws ! k = (cs @ rest, fd) \<Longrightarrow>
   disk_step\<^sup>*\<^sup>* (d, ws) (d', ws[k := (rest, fd')])"
proof (induction d fd cs arbitrary: ws rule: perform.induct)
  case (1 d fd)
  then show ?case using list_update_id [of ws k] by simp
next
  case (2 d fd p cs)
  let ?w = "(cs @ rest, Some (snd (do_open d p), 0))"
  have "disk_step (d, ws) (fst (do_open d p), ws[k := ?w])"
    using 2 by (intro some_writer) (simp_all add: open_call)
  with 2 show ?case
    using "2.IH" [of "ws[k := ?w]"] by (simp add: converse_rtranclp_into_rtranclp)
next
  case (3 d s cs)
  then show ?case by simp
next
  case (4 d i off s cs)
  let ?w = "(cs @ rest, Some (i, off + length s))"
  have "disk_step (d, ws) (do_write d i off s, ws[k := ?w])"
    using 4 by (intro some_writer) (simp_all add: put_all)
  with 4 show ?case
    using "4.IH" [of "ws[k := ?w]"] by (simp add: converse_rtranclp_into_rtranclp)
next
  case (5 d fd p q cs)
  let ?w = "(cs @ rest, fd)"
  from 5 obtain d1 where r: "do_rename d p q = Some d1" "perform d1 fd cs = Some (d', fd')"
    by (auto split: bind_splits)
  have "disk_step (d, ws) (d1, ws[k := ?w])"
    using 5 r by (intro some_writer) (simp_all add: rename_ok)
  with 5 r show ?case
    using "5.IH" [of d1 "ws[k := ?w]"] by (simp add: converse_rtranclp_into_rtranclp)
qed

section \<open>A disk in order\<close>

text \<open>No two names share an inode, and the inodes in use are below the next one.\<close>

definition sound_disk :: "disk \<Rightarrow> bool" where
  "sound_disk d \<longleftrightarrow>
     (\<forall>p q i. names d p = Some i \<longrightarrow> names d q = Some i \<longrightarrow> p = q)
     \<and> (\<forall>p i. names d p = Some i \<longrightarrow> i < next_inode d)"

lemma sound_fresh: "sound_disk d \<Longrightarrow> names d q \<noteq> Some (next_inode d)"
  by (auto simp: sound_disk_def)

lemma sound_open:
  assumes "sound_disk d" "do_open d p = (d', i)"
  shows "sound_disk d'" "names d' p = Some i" "content d' i = []"
    and "q \<noteq> p \<Longrightarrow> read_file d' q = read_file d q"
proof -
  show "sound_disk d'"
    using assms by (cases "names d p")
      (auto simp: do_open_def sound_disk_def less_Suc_eq split: if_splits, fastforce+)
  show "names d' p = Some i" "content d' i = []"
    using assms by (auto simp: do_open_def split: option.splits)
  show "q \<noteq> p \<Longrightarrow> read_file d' q = read_file d q"
    using assms sound_fresh [OF assms(1), of q]
    by (cases "names d p"; cases "names d q") (auto simp: do_open_def sound_disk_def read_file_def)
qed

lemma sound_write: "sound_disk d \<Longrightarrow> names d p = Some i \<Longrightarrow>
  sound_disk (do_write d i off s) \<and> names (do_write d i off s) = names d
  \<and> content (do_write d i off s) i = overwrite off s (content d i)
  \<and> (\<forall>q. q \<noteq> p \<longrightarrow> read_file (do_write d i off s) q = read_file d q)"
  by (auto simp: do_write_def sound_disk_def read_file_def map_option_case split: option.splits)

lemma sound_rename: "sound_disk d \<Longrightarrow> do_rename d p q = Some d' \<Longrightarrow> p \<noteq> q \<Longrightarrow>
  sound_disk d' \<and> read_file d' q = read_file d p \<and> read_file d' p = None
  \<and> (\<forall>r. r \<noteq> p \<longrightarrow> r \<noteq> q \<longrightarrow> read_file d' r = read_file d r)"
  by (auto simp: do_rename_def sound_disk_def read_file_def split: option.splits if_splits)


section \<open>One writer at a time\<close>

text \<open>
  \<open>G q s\<close>: the file \<open>q\<close> may hold \<open>s\<close>. A list of calls is tidy when it is a sequence of atomic
  writes of contents that are allowed, through temporary files on which nothing is asked.
\<close>

fun tidy :: "(bytes \<Rightarrow> bytes \<Rightarrow> bool) \<Rightarrow> call list \<Rightarrow> bool" where
  "tidy G [] = True"
| "tidy G (Open t # Put s # Rename t' q # cs) \<longleftrightarrow>
     t' = t \<and> t \<noteq> q \<and> (\<forall>x. G t x) \<and> G q s \<and> tidy G cs"
| "tidy G _ = False"

definition allowed :: "(bytes \<Rightarrow> bytes \<Rightarrow> bool) \<Rightarrow> disk \<Rightarrow> bool" where
  "allowed G d \<longleftrightarrow> sound_disk d \<and> (\<forall>q s. read_file d q = Some s \<longrightarrow> G q s)"

text \<open>Where a tidy writer may be: between two atomic writes, in the middle of one, before its
  rename.\<close>

inductive in_order :: "(bytes \<Rightarrow> bytes \<Rightarrow> bool) \<Rightarrow> disk \<Rightarrow> writer \<Rightarrow> bool" for G where
  at_rest: "tidy G cs \<Longrightarrow> in_order G d (cs, fd)"
| writing: "names d t = Some i \<Longrightarrow> off = length (content d i) \<Longrightarrow> t \<noteq> q \<Longrightarrow> \<forall>x. G t x \<Longrightarrow>
    G q (content d i @ s) \<Longrightarrow> tidy G cs \<Longrightarrow>
    in_order G d (Put s # Rename t q # cs, Some (i, off))"
| written: "read_file d t = Some s \<Longrightarrow> t \<noteq> q \<Longrightarrow> \<forall>x. G t x \<Longrightarrow> G q s \<Longrightarrow> tidy G cs \<Longrightarrow>
    in_order G d (Rename t q # cs, fd)"

inductive_cases in_order_cases: "in_order G d (cs, fd)"

lemma tidy_Open: "tidy G (Open p # cs) \<Longrightarrow>
  \<exists>s q cs'. cs = Put s # Rename p q # cs' \<and> p \<noteq> q \<and> (\<forall>x. G p x) \<and> G q s \<and> tidy G cs'"
  by (cases "(G, Open p # cs)" rule: tidy.cases) auto

lemma tidy_not_head [simp]: "\<not> tidy G (Put s # cs)" "\<not> tidy G (Rename p q # cs)"
  by simp_all

lemma call_step_keeps:
  assumes "call_step d w d' w'" "in_order G d w" "allowed G d"
  shows "in_order G d' w' \<and> allowed G d'"
  using assms
proof (induction rule: call_step.induct)
  case (open_call d p d' i cs fd)
  then have "tidy G (Open p # cs)" by (auto elim: in_order.cases)
  then obtain s q cs' where cs: "cs = Put s # Rename p q # cs'" "p \<noteq> q" "\<forall>x. G p x" "G q s" "tidy G cs'"
    using tidy_Open by blast
  have sd: "sound_disk d" using open_call by (simp add: allowed_def)
  note o = sound_open [OF sd open_call.hyps]
  have "in_order G d' (cs, Some (i, 0))" using cs o by (auto intro!: writing)
  moreover have "allowed G d'"
    using open_call.prems(2) cs(3) o(1,4) unfolding allowed_def by metis
  ultimately show ?case by simp
next
  case (put_some s a b d cs i off)
  from put_some.prems(1) obtain t q cs' where w: "cs = Rename t q # cs'" "names d t = Some i"
    "off = length (content d i)" "t \<noteq> q" "\<forall>x. G t x" "G q (content d i @ s)" "tidy G cs'"
    by (auto elim: in_order.cases)
  have sd: "sound_disk d" using put_some by (simp add: allowed_def)
  note o = sound_write [OF sd w(2), of off a]
  have "in_order G (do_write d i off a) (Put b # cs, Some (i, off + length a))"
    using w o put_some.hyps(1) by (auto intro!: writing)
  moreover have "allowed G (do_write d i off a)"
    using put_some.prems(2) w(5) o unfolding allowed_def by metis
  ultimately show ?case by simp
next
  case (put_all d s cs i off)
  from put_all.prems(1) obtain t q cs' where w: "cs = Rename t q # cs'" "names d t = Some i"
    "off = length (content d i)" "t \<noteq> q" "\<forall>x. G t x" "G q (content d i @ s)" "tidy G cs'"
    by (auto elim: in_order.cases)
  have sd: "sound_disk d" using put_all by (simp add: allowed_def)
  note o = sound_write [OF sd w(2), of off s]
  have "in_order G (do_write d i off s) (cs, Some (i, off + length s))"
    using w o by (auto intro!: written simp: read_file_def)
  moreover have "allowed G (do_write d i off s)"
    using put_all.prems(2) w(5) o unfolding allowed_def by metis
  ultimately show ?case by simp
next
  case (rename_ok d p q d' cs fd)
  from rename_ok.prems(1) obtain s where w: "read_file d p = Some s" "p \<noteq> q" "G q s" "tidy G cs"
    by (auto elim: in_order.cases)
  have sd: "sound_disk d" using rename_ok by (simp add: allowed_def)
  note o = sound_rename [OF sd rename_ok.hyps w(2)]
  have "allowed G d'"
    using rename_ok.prems(2) w o unfolding allowed_def by (metis option.discI option.inject)
  with w show ?case by (simp add: at_rest)
next
  case (rename_error d p q cs fd)
  then show ?case by (simp add: at_rest)
next
  case (killed d w)
  then show ?case by (simp add: at_rest)
qed

end
