(* ===== verification/Sessions.thy ===== *)
theory Sessions
  imports Disk Policy
begin

text \<open>
  \<^verbatim>\<open>src/src/session.rs\<close>: the directory of a run, the two files in it and how they are replaced, and
  the sweep of directories whose process is gone. The JSON of a policy (\<open>ser\<close>, \<open>de\<close>), which
  processes are gone and which directories can be removed are arguments.
\<close>

section \<open>The policy on disk\<close>

definition record_file :: "bytes \<Rightarrow> bytes" where
  "record_file dir = path_join dir ''record.json''"

definition policy_file :: "bytes \<Rightarrow> bytes" where
  "policy_file dir = path_join dir ''policy.sb''"

text \<open>A policy that cannot be written as JSON (a path that is not UTF-8) writes nothing.\<close>

definition write_policy_at :: "(policy \<Rightarrow> bytes option) \<Rightarrow> bytes \<Rightarrow> policy \<Rightarrow> call list option" where
  "write_policy_at ser dir p =
     map_option (\<lambda>json.
       write_atomic (record_file dir) json @ write_atomic (policy_file dir) (render_policy p)) (ser p)"

definition session_dir_of :: "bytes \<Rightarrow> nat \<Rightarrow> bytes" where
  "session_dir_of root pid = path_join root (show_nat pid)"

definition load :: "(bytes \<Rightarrow> policy option) \<Rightarrow> disk \<Rightarrow> bytes \<Rightarrow> nat \<Rightarrow> policy option" where
  "load de d root pid =
     Option.bind (read_file d (record_file (session_dir_of root pid)))
       (\<lambda>s. Option.bind (from_utf8 s) de)"

text \<open>
  The programs that write a policy, one after another: \<^verbatim>\<open>nd7 run\<close>, \<^verbatim>\<open>nd7 allow\<close> and \<^verbatim>\<open>nd7 deny\<close>,
  each of which may be killed anywhere.
\<close>

inductive policy_step :: "(policy \<Rightarrow> bytes option) \<Rightarrow> disk \<times> writer \<Rightarrow> disk \<times> writer \<Rightarrow> bool" for ser where
  start: "write_policy_at ser dir p = Some cs \<Longrightarrow> policy_step ser (d, ([], fd)) (d, (cs, None))"
| call: "call_step d w d' w' \<Longrightarrow> policy_step ser (d, w) (d', w')"

text \<open>What the files named like a session's may hold.\<close>

definition whole :: "(policy \<Rightarrow> bytes option) \<Rightarrow> bytes \<Rightarrow> bytes \<Rightarrow> bool" where
  "whole ser q s \<longleftrightarrow>
     (suffix ''policy.sb'' q \<longrightarrow> (\<exists>p. s = render_policy p))
     \<and> (suffix ''record.json'' q \<longrightarrow> (\<exists>p. ser p = Some s))"

lemma suffix_path_join: "\<not> prefix ''/'' x \<Longrightarrow> suffix x (path_join dir x)"
  by (auto simp: path_join_def suffix_def)

lemma file_names:
  "suffix ''policy.sb'' (policy_file dir)" "\<not> suffix ''record.json'' (policy_file dir)"
  "suffix ''record.json'' (record_file dir)" "\<not> suffix ''policy.sb'' (record_file dir)"
  by (auto simp: policy_file_def record_file_def path_join_def suffix_def append_eq_append_conv2
      Cons_eq_append_conv)

lemma whole_tmp: "whole ser (q @ ''.tmp'') s"
proof -
  have "\<not> suffix ''policy.sb'' (q @ ''.tmp'')" "\<not> suffix ''record.json'' (q @ ''.tmp'')"
    by (auto simp: suffix_def append_eq_append_conv2 Cons_eq_append_conv)
  then show ?thesis by (simp add: whole_def)
qed

lemma write_policy_tidy:
  assumes "write_policy_at ser dir p = Some cs"
  shows "tidy (whole ser) cs"
proof -
  obtain json where ser: "ser p = Some json"
    and cs: "cs = write_atomic (record_file dir) json @ write_atomic (policy_file dir) (render_policy p)"
    using assms by (auto simp: write_policy_at_def)
  have "whole ser (record_file dir) json" "whole ser (policy_file dir) (render_policy p)"
    using ser file_names by (auto simp: whole_def)
  then show ?thesis by (auto simp: cs write_atomic_def whole_tmp)
qed

lemma policy_step_keeps:
  assumes "policy_step ser c c'" "in_order (whole ser) (fst c) (snd c)" "allowed (whole ser) (fst c)"
  shows "in_order (whole ser) (fst c') (snd c') \<and> allowed (whole ser) (fst c')"
  using assms
proof (induction rule: policy_step.induct)
  case (start dir p cs d fd)
  then show ?case by (auto intro: at_rest write_policy_tidy)
next
  case (call d w d' w')
  then show ?case using call_step_keeps by simp
qed

lemma policy_steps_keep:
  assumes "(policy_step ser)\<^sup>*\<^sup>* c c'" "in_order (whole ser) (fst c) (snd c)" "allowed (whole ser) (fst c)"
  shows "in_order (whole ser) (fst c') (snd c') \<and> allowed (whole ser) (fst c')"
  using assms by induction (auto dest: policy_step_keeps)

section \<open>What a finished write leaves\<close>

lemma tmp_not_target: "path @ ''.tmp'' \<noteq> path"
  by simp

lemma perform_append:
  "perform d fd (cs @ cs') = Option.bind (perform d fd cs) (\<lambda>(d', fd'). perform d' fd' cs')"
  by (induction d fd cs rule: perform.induct) (auto split: bind_splits)

lemma perform_atomic:
  assumes "sound_disk d"
  obtains d' fd' where "perform d fd (write_atomic path s) = Some (d', fd')" "sound_disk d'"
    "read_file d' path = Some s"
    "\<And>q. q \<noteq> path \<Longrightarrow> q \<noteq> path @ ''.tmp'' \<Longrightarrow> read_file d' q = read_file d q"
proof -
  let ?t = "path @ ''.tmp''"
  obtain d1 i where o: "do_open d ?t = (d1, i)" by (cases "do_open d ?t")
  note o1 = sound_open [OF assms o]
  let ?d2 = "do_write d1 i 0 s"
  have w: "sound_disk ?d2" "names ?d2 = names d1" "content ?d2 i = s"
    "\<And>q. q \<noteq> ?t \<Longrightarrow> read_file ?d2 q = read_file d1 q"
    using sound_write [OF o1(1,2), of 0 s] o1(3) by (simp_all add: overwrite_def)
  then obtain d3 where r: "do_rename ?d2 ?t path = Some d3"
    using o1(2) by (simp add: do_rename_def)
  note r1 = sound_rename [OF w(1) r tmp_not_target]
  have "perform d fd (write_atomic path s) = Some (d3, Some (i, length s))"
    by (simp add: write_atomic_def o r)
  moreover have "read_file d3 path = Some s"
    using r1 w o1(2) by (simp add: read_file_def)
  moreover have "read_file d3 q = read_file d q" if "q \<noteq> path" "q \<noteq> ?t" for q
    using that r1 w(4) o1(4) by simp
  ultimately show thesis using that r1 by blast
qed

text \<open>The files of a session directory are four different names.\<close>

lemma session_files_distinct:
  "record_file dir \<noteq> policy_file dir" "record_file dir \<noteq> policy_file dir @ ''.tmp''"
  "policy_file dir \<noteq> record_file dir @ ''.tmp''"
proof -
  show "record_file dir \<noteq> policy_file dir" using file_names by metis
  have tmp: "suffix ''.tmp'' (x @ ''.tmp'')" for x by (simp add: suffix_def)
  have "\<not> suffix ''.tmp'' (record_file dir)" "\<not> suffix ''.tmp'' (policy_file dir)"
    by (auto simp: record_file_def policy_file_def path_join_def suffix_def append_eq_append_conv2
        Cons_eq_append_conv)
  with tmp show "record_file dir \<noteq> policy_file dir @ ''.tmp''"
    "policy_file dir \<noteq> record_file dir @ ''.tmp''" by metis+
qed

lemma perform_write_policy:
  assumes "sound_disk d" "write_policy_at ser dir p = Some cs"
  obtains d' fd' json where "perform d None cs = Some (d', fd')" "sound_disk d'" "ser p = Some json"
    "read_file d' (record_file dir) = Some json"
    "read_file d' (policy_file dir) = Some (render_policy p)"
proof -
  obtain json where ser: "ser p = Some json"
    and cs: "cs = write_atomic (record_file dir) json @ write_atomic (policy_file dir) (render_policy p)"
    using assms(2) by (auto simp: write_policy_at_def)
  obtain d1 fd1 where a: "perform d None (write_atomic (record_file dir) json) = Some (d1, fd1)"
    "sound_disk d1" "read_file d1 (record_file dir) = Some json"
    using perform_atomic [OF assms(1)] by metis
  obtain d2 fd2 where b: "perform d1 fd1 (write_atomic (policy_file dir) (render_policy p)) = Some (d2, fd2)"
    "sound_disk d2" "read_file d2 (policy_file dir) = Some (render_policy p)"
    "\<And>q. q \<noteq> policy_file dir \<Longrightarrow> q \<noteq> policy_file dir @ ''.tmp'' \<Longrightarrow> read_file d2 q = read_file d1 q"
    using perform_atomic [OF a(2)] by metis
  have "perform d None cs = Some (d2, fd2)" by (simp add: cs perform_append a b)
  with a b ser session_files_distinct show thesis using that by metis
qed

section \<open>Two writers of one session\<close>

text \<open>
  Two processes that replace the policy of one session at once: both have written the record, and
  are about to write the policy file.
\<close>

lemma writers_meet:
  assumes d: "sound_disk d"
    and w: "write_policy_at ser dir p1 = Some cs1" "write_policy_at ser dir p2 = Some cs2"
  obtains d' fd1 fd2 where "sound_disk d'"
    "disk_step\<^sup>*\<^sup>* (d, [(cs1, None), (cs2, None)])
       (d', [(write_atomic (policy_file dir) (render_policy p1), fd1),
             (write_atomic (policy_file dir) (render_policy p2), fd2)])"
proof -
  let ?w1 = "write_atomic (policy_file dir) (render_policy p1)"
  let ?w2 = "write_atomic (policy_file dir) (render_policy p2)"
  obtain j1 j2 where cs: "cs1 = write_atomic (record_file dir) j1 @ ?w1"
    "cs2 = write_atomic (record_file dir) j2 @ ?w2"
    using w by (auto simp: write_policy_at_def)
  obtain d1 fd1 where a: "perform d None (write_atomic (record_file dir) j1) = Some (d1, fd1)" "sound_disk d1"
    using perform_atomic [OF d] by metis
  obtain d2 fd2 where b: "perform d1 None (write_atomic (record_file dir) j2) = Some (d2, fd2)" "sound_disk d2"
    using perform_atomic [OF a(2)] by metis
  have c1: "disk_step\<^sup>*\<^sup>* (d, [(cs1, None), (cs2, None)]) (d1, [(?w1, fd1), (cs2, None)])"
    using perform_steps [OF a(1), of 0 "[(cs1, None), (cs2, None)]"] by (simp add: cs(1))
  have c2: "disk_step\<^sup>*\<^sup>* (d1, [(?w1, fd1), (cs2, None)]) (d2, [(?w1, fd1), (?w2, fd2)])"
    using perform_steps [OF b(1), of 1 "[(?w1, fd1), (cs2, None)]"] by (simp add: cs(2))
  show thesis using that [OF b(2) rtranclp_trans [OF c1 c2]] .
qed

text \<open>
  The second truncates the temporary file the first has written; the first renames it into place,
  and the second goes on writing into it.
\<close>

lemma renamed_while_open:
  assumes "sound_disk d"
  obtains d' fd1 i where "sound_disk d'" "names d' q = Some i" "content d' i = []"
    "disk_step\<^sup>*\<^sup>* (d, [(write_atomic q s1, fda), (write_atomic q s2, fdb)])
       (d', [([], fd1), ([Put s2, Rename (q @ ''.tmp'') q], Some (i, 0))])"
proof -
  let ?t = "q @ ''.tmp''" and ?w2 = "[Open (q @ ''.tmp'')] @ [Put s2, Rename (q @ ''.tmp'') q]"
  obtain d1 i where o: "do_open d ?t = (d1, i)" by (cases "do_open d ?t")
  note o1 = sound_open [OF assms o]
  let ?d2 = "do_write d1 i 0 s1" and ?fd = "Some (i, length s1)"
  have w2: "sound_disk ?d2" "names ?d2 ?t = Some i"
    using sound_write [OF o1(1,2), of 0 s1] o1(2) by simp_all
  obtain d3 j where "do_open ?d2 ?t = (d3, j)" by (cases "do_open ?d2 ?t")
  with w2(2) have o3: "do_open ?d2 ?t = (d3, i)" by (auto simp: do_open_def)
  note s3 = sound_open [OF w2(1) o3]
  obtain d4 where r: "do_rename d3 ?t q = Some d4" using s3(2) by (simp add: do_rename_def)
  have c1: "disk_step\<^sup>*\<^sup>* (d, [(write_atomic q s1, fda), (?w2, fdb)]) (?d2, [([Rename ?t q], ?fd), (?w2, fdb)])"
    using perform_steps [of d fda "[Open ?t, Put s1]" ?d2 ?fd 0 "[(write_atomic q s1, fda), (?w2, fdb)]"] o
    by (simp add: write_atomic_def)
  have c2: "disk_step\<^sup>*\<^sup>* (?d2, [([Rename ?t q], ?fd), (?w2, fdb)]) (d3, [([Rename ?t q], ?fd), ([Put s2, Rename ?t q], Some (i, 0))])"
    using perform_steps [of ?d2 fdb "[Open ?t]" d3 "Some (i, 0)" 1 "[([Rename ?t q], ?fd), (?w2, fdb)]"] o3 by simp
  have c3: "disk_step\<^sup>*\<^sup>* (d3, [([Rename ?t q], ?fd), ([Put s2, Rename ?t q], Some (i, 0))]) (d4, [([], ?fd), ([Put s2, Rename ?t q], Some (i, 0))])"
    using perform_steps [of d3 ?fd "[Rename ?t q]" d4 ?fd 0
      "[([Rename ?t q], ?fd), ([Put s2, Rename ?t q], Some (i, 0))]"] r by simp
  have "sound_disk d4" "names d4 q = Some i" "content d4 i = []"
    using sound_rename [OF s3(1) r] s3(2,3) r by (auto simp: do_rename_def)
  moreover have "write_atomic q s2 = ?w2" by (simp add: write_atomic_def)
  ultimately show thesis using that rtranclp_trans [OF rtranclp_trans [OF c1 c2] c3] by metis
qed

lemma two_writers:
  assumes "sound_disk d" "write_policy_at ser dir p1 = Some cs1" "write_policy_at ser dir p2 = Some cs2"
    and n: "n < length (render_policy p2)"
  shows "\<exists>d' ws. disk_step\<^sup>*\<^sup>* (d, [(cs1, None), (cs2, None)]) (d', ws)
    \<and> read_file d' (policy_file dir) = Some (take n (render_policy p2))"
proof -
  let ?q = "policy_file dir" and ?s2 = "render_policy p2"
  obtain d1 fda fdb where a: "sound_disk d1" "disk_step\<^sup>*\<^sup>* (d, [(cs1, None), (cs2, None)])
      (d1, [(write_atomic ?q (render_policy p1), fda), (write_atomic ?q ?s2, fdb)])"
    using writers_meet [OF assms(1-3)] by blast
  obtain d2 fd1 i where b: "sound_disk d2" "names d2 ?q = Some i" "content d2 i = []"
    "disk_step\<^sup>*\<^sup>* (d1, [(write_atomic ?q (render_policy p1), fda), (write_atomic ?q ?s2, fdb)])
       (d2, [([], fd1), ([Put ?s2, Rename (?q @ ''.tmp'') ?q], Some (i, 0))])"
    using renamed_while_open [OF a(1)] by blast
  let ?d3 = "do_write d2 i 0 (take n ?s2)"
  have "call_step d2 ([Put ?s2, Rename (?q @ ''.tmp'') ?q], Some (i, 0)) ?d3
      ([Put (drop n ?s2), Rename (?q @ ''.tmp'') ?q], Some (i, 0 + length (take n ?s2)))"
    using n by (intro put_some) simp_all
  then have "\<exists>ws. disk_step (d2, [([], fd1), ([Put ?s2, Rename (?q @ ''.tmp'') ?q], Some (i, 0))]) (?d3, ws)"
    using some_writer [of 1 "[([], fd1), ([Put ?s2, Rename (?q @ ''.tmp'') ?q], Some (i, 0))]" d2] by fastforce
  moreover have "read_file ?d3 ?q = Some (take n ?s2)"
    using sound_write [OF b(1,2), of 0 "take n ?s2"] b(2,3) by (simp add: read_file_def overwrite_def)
  ultimately show ?thesis
    using rtranclp.rtrancl_into_rtrancl [OF rtranclp_trans [OF a(2) b(4)]] by blast
qed

section \<open>The sweep\<close>

text \<open>\<^verbatim>\<open>name.to_str()\<close>, all digits, \<^verbatim>\<open>parse::<pid_t>()\<close>.\<close>

definition session_pid :: "bytes \<Rightarrow> nat option" where
  "session_pid name =
     (if utf8_valid name \<and> list_all is_ascii_digit name
      then Option.bind (parse_digits name) (\<lambda>n. if n < 2 ^ 31 then Some n else None)
      else None)"

text \<open>What was removed, and whether the sweep got to its end: an entry that cannot be removed stops
  it.\<close>

fun sweep :: "(nat \<Rightarrow> bool) \<Rightarrow> (bytes \<Rightarrow> bool) \<Rightarrow> bytes list \<Rightarrow> bytes list \<times> bool" where
  "sweep gone removable [] = ([], True)"
| "sweep gone removable (name # entries) =
     (case session_pid name of
        None \<Rightarrow> sweep gone removable entries
      | Some pid \<Rightarrow>
          if gone pid then
            (if removable name then
               (let (removed, done) = sweep gone removable entries in (name # removed, done))
             else ([], False))
          else sweep gone removable entries)"

text \<open>\<^verbatim>\<open>Session::create\<close>: the entries of the root afterwards, or the error of the sweep.\<close>

definition create_session ::
  "(nat \<Rightarrow> bool) \<Rightarrow> (bytes \<Rightarrow> bool) \<Rightarrow> nat \<Rightarrow> bytes list \<Rightarrow> bytes list option" where
  "create_session gone removable pid entries =
     (case sweep gone removable entries of
        (removed, False) \<Rightarrow> None
      | (removed, True) \<Rightarrow>
          Some (filter (\<lambda>n. n \<notin> set removed) entries
            @ (if show_nat pid \<in> set entries - set removed then [] else [show_nat pid])))"

definition stale :: "(nat \<Rightarrow> bool) \<Rightarrow> bytes \<Rightarrow> bool" where
  "stale gone name \<longleftrightarrow> (\<exists>pid. session_pid name = Some pid \<and> gone pid)"

lemma sweep_all:
  "\<forall>n \<in> set entries. stale gone n \<longrightarrow> removable n \<Longrightarrow>
   sweep gone removable entries = (filter (stale gone) entries, True)"
  by (induction entries) (auto simp: stale_def split: option.split)

lemma sweep_only_stale:
  "set (fst (sweep gone removable entries)) \<subseteq> {n \<in> set entries. stale gone n}"
  by (induction entries) (auto simp: stale_def split: option.splits prod.splits)

lemma session_pid_show: "pid < 2 ^ 31 \<Longrightarrow> session_pid (show_nat pid) = Some pid"
  by (simp add: session_pid_def show_nat_digits utf8_valid_digits)

end
