(* ===== verification/Exec.thy ===== *)
theory Exec
  imports Sessions PolicyRules
begin

text \<open>
  \<^verbatim>\<open>src/src/bin/nd7-exec.rs\<close>: the one program the floor lets out. What the system answers (is this
  process confined, who is its parent, which directories exist, does a profile apply, does the
  shell start) is a record of arguments; the outcome is what becomes of the process.
\<close>

section \<open>Applying a profile\<close>

text \<open>
  \<^verbatim>\<open>src/src/sandbox.rs\<close>. \<open>init\<close> is \<^verbatim>\<open>sandbox_init_with_parameters\<close>: its return code and the error it
  left, if any. The parameters of a profile are handed over as a C array of names and values, in
  turn, that ends in null pointers; the array has a fixed size.
\<close>

definition apply_profile :: "(bytes \<Rightarrow> int \<times> bytes option) \<Rightarrow> bytes \<Rightarrow> bytes option" where
  "apply_profile init profile =
     (case init profile of
        (rc, err) \<Rightarrow>
          if rc = 0 then None
          else (case err of
                  Some msg \<Rightarrow> Some (from_utf8_lossy msg)
                | None \<Rightarrow> Some ''failed to init sandbox. Sandbox failed silently''))"

definition apply_to_self :: "(bytes \<Rightarrow> int \<times> bytes option) \<Rightarrow> bytes \<Rightarrow> bytes option" where
  "apply_to_self init profile =
     (case position_byte (CHR 0x00) profile of
        Some i \<Rightarrow> Some (''nul byte found in provided data at position: '' @ show_nat i)
      | None \<Rightarrow> apply_profile init profile)"

definition MAX_PARAMS :: nat where "MAX_PARAMS = 8"

text \<open>\<^const>\<open>None\<close> is the panic on too many parameters; an inner \<^const>\<open>None\<close> is a null pointer.\<close>

definition profile_params :: "(bytes \<times> bytes) list \<Rightarrow> bytes option list option" where
  "profile_params params =
     (if length params \<le> MAX_PARAMS then
        (let owned = concat (map (\<lambda>(k, v). [k, v]) params);
             size = 2 * MAX_PARAMS + 1
         in Some (take size (map Some owned) @ replicate (size - length owned) None))
      else None)"

lemma profile_params_terminated:
  assumes "profile_params params = Some ptrs"
  shows "length ptrs = 17 \<and> last ptrs = None
    \<and> takeWhile (\<lambda>p. p \<noteq> None) ptrs = map Some (concat (map (\<lambda>(k, v). [k, v]) params))"
proof -
  have len: "length (concat (map (\<lambda>(k, v). [k, v]) params)) = 2 * length params"
    by (induction params) auto
  have "takeWhile (\<lambda>p. p \<noteq> None) (map Some xs @ replicate (Suc n) None) = map Some xs" for xs :: "bytes list" and n
    by (induction xs) simp_all
  moreover obtain n where "17 - 2 * length params = Suc n" "length params \<le> 8"
    using assms by (cases "17 - 2 * length params") (auto simp: profile_params_def MAX_PARAMS_def split: if_splits)
  ultimately show ?thesis
    using assms len by (auto simp: profile_params_def MAX_PARAMS_def Let_def split: if_splits)
qed

section \<open>The program\<close>

record exec_world =
  x_confined :: bool
  x_root :: "bytes + bytes"                    \<comment> \<open>\<^verbatim>\<open>sessions_root()\<close>\<close>
  x_ppid :: int
  x_parent :: "int \<Rightarrow> int option"
  x_is_dir :: "bytes \<Rightarrow> bool"
  x_disk :: disk
  x_read_error :: bytes                        \<comment> \<open>why a file could not be read\<close>
  x_init :: "bytes \<Rightarrow> int \<times> bytes option"      \<comment> \<open>\<^verbatim>\<open>sandbox_init_with_parameters\<close>\<close>
  x_exec_error :: "bytes option"               \<comment> \<open>why the shell could not be executed\<close>

text \<open>The process became the shell, under the profile it applied to itself before, if any; or it
  ended without running the command.\<close>

datatype exec_outcome = Shell "bytes option" bytes | Refused bytes | Usage_shown

fun exec_exit_code :: "exec_outcome \<Rightarrow> nat option" where
  "exec_exit_code (Shell _ _) = None"
| "exec_exit_code (Refused _) = Some 126"
| "exec_exit_code Usage_shown = Some 2"

fun parse_args :: "bytes list \<Rightarrow> bytes option" where
  "parse_args [flag, cmd] = (if flag = ''-c'' then Some cmd else None)"
| "parse_args _ = None"

definition exec_shell :: "exec_world \<Rightarrow> bytes option \<Rightarrow> bytes \<Rightarrow> exec_outcome" where
  "exec_shell w applied cmd =
     (case x_exec_error w of
        None \<Rightarrow> Shell applied cmd
      | Some err \<Rightarrow> Refused (''exec /bin/zsh: '' @ err))"

text \<open>\<^verbatim>\<open>find_session\<close>: up the ancestry from the parent, until a pid names a session directory; the
  loop ends when the chain of parents does.\<close>

definition session_at :: "bytes \<Rightarrow> int \<Rightarrow> bytes" where
  "session_at root pid = path_join root (show_nat (nat pid))"

partial_function (option) find_session ::
  "(int \<Rightarrow> int option) \<Rightarrow> (bytes \<Rightarrow> bool) \<Rightarrow> bytes \<Rightarrow> int \<Rightarrow> bytes option option" where
  "find_session parent is_dir root pid =
     (if pid > 1 then
        (if is_dir (session_at root pid) then Some (Some (session_at root pid))
         else (case parent pid of
                 None \<Rightarrow> Some None
               | Some q \<Rightarrow> find_session parent is_dir root q))
      else Some None)"

definition policy_of :: "disk \<Rightarrow> bytes \<Rightarrow> bytes option" where
  "policy_of d session =
     (if read_file d (policy_file session) = None then None else Some (policy_file session))"

definition exec_with_policy :: "exec_world \<Rightarrow> bytes \<Rightarrow> bytes \<Rightarrow> exec_outcome" where
  "exec_with_policy w policy cmd =
     (case Option.bind (read_file (x_disk w) policy) from_utf8 of
        None \<Rightarrow> Refused (''read '' @ from_utf8_lossy policy @ '': '' @ x_read_error w)
      | Some profile \<Rightarrow>
          (case apply_to_self (x_init w) profile of
             None \<Rightarrow> exec_shell w (Some profile) cmd
           | Some e \<Rightarrow> Refused (''apply session policy: '' @ e)))"

definition exec_run :: "exec_world \<Rightarrow> bytes \<Rightarrow> exec_outcome option" where
  "exec_run w cmd =
     (if x_confined w then Some (exec_shell w None cmd)
      else (case x_root w of
              Inl e \<Rightarrow> Some (Refused e)
            | Inr root \<Rightarrow>
                Option.bind (find_session (x_parent w) (x_is_dir w) root (x_ppid w))
                  (\<lambda>found. Some (case found of
                     None \<Rightarrow> Refused ''no nd7 session in this process's ancestry''
                   | Some session \<Rightarrow>
                       (case policy_of (x_disk w) session of
                          None \<Rightarrow> Refused ''session has no policy.sb''
                        | Some policy \<Rightarrow> exec_with_policy w policy cmd)))))"

definition exec_main :: "exec_world \<Rightarrow> bytes list \<Rightarrow> exec_outcome option" where
  "exec_main w args =
     (case parse_args args of
        None \<Rightarrow> Some Usage_shown
      | Some cmd \<Rightarrow> exec_run w cmd)"

section \<open>The session that is found\<close>

text \<open>\<open>reaches parent is_dir root p q\<close>: up from \<open>p\<close>, the first ancestor with a session is \<open>q\<close>.\<close>

inductive reaches :: "(int \<Rightarrow> int option) \<Rightarrow> (bytes \<Rightarrow> bool) \<Rightarrow> bytes \<Rightarrow> int \<Rightarrow> int \<Rightarrow> bool"
  for parent is_dir root where
  here: "pid > 1 \<Longrightarrow> is_dir (session_at root pid) \<Longrightarrow> reaches parent is_dir root pid pid"
| up: "pid > 1 \<Longrightarrow> \<not> is_dir (session_at root pid) \<Longrightarrow> parent pid = Some q \<Longrightarrow>
    reaches parent is_dir root q r \<Longrightarrow> reaches parent is_dir root pid r"

inductive_cases reachesE: "reaches parent is_dir root pid q"

lemma find_session_finds:
  assumes "find_session parent is_dir root pid = Some found"
  shows "\<forall>dir. found = Some dir \<longrightarrow>
    (\<exists>q. reaches parent is_dir root pid q \<and> dir = session_at root q)"
proof (rule find_session.raw_induct [where P = "\<lambda>parent is_dir root pid found.
    \<forall>dir. found = Some dir \<longrightarrow> (\<exists>q. reaches parent is_dir root pid q \<and> dir = session_at root q)", OF _ assms])
  fix find parent is_dir root pid found
  assume ih: "\<And>parent is_dir root pid found. find parent is_dir root pid = Some found \<Longrightarrow>
      \<forall>dir. found = Some dir \<longrightarrow> (\<exists>q. reaches parent is_dir root pid q \<and> dir = session_at root q)"
    and eq: "(if 1 < pid
      then if is_dir (session_at root pid) then Some (Some (session_at root pid))
           else (case parent pid of None \<Rightarrow> Some None | Some q \<Rightarrow> find parent is_dir root q)
      else Some None) = Some found"
  show "\<forall>dir. found = Some dir \<longrightarrow> (\<exists>q. reaches parent is_dir root pid q \<and> dir = session_at root q)"
    using eq ih [of parent is_dir root _ found]
    by (auto split: if_splits option.splits intro: here) (meson up)
qed

lemmas find_session_reaches = find_session_finds [rule_format]

lemma reaches_find_session:
  "reaches parent is_dir root pid q \<Longrightarrow>
   find_session parent is_dir root pid = Some (Some (session_at root q))"
  by (induction rule: reaches.induct) (simp_all add: find_session.simps)

text \<open>Up a chain of parents that ends, the search ends.\<close>

lemma find_session_returns:
  assumes "\<forall>p q. parent p = Some q \<longrightarrow> (depth q :: nat) < depth p"
  shows "\<exists>found. find_session parent is_dir root pid = Some found"
  using assms
proof (induction "depth pid" arbitrary: pid rule: less_induct)
  case less
  then show ?case
    by (cases "parent pid") (subst find_session.simps; auto)+
qed

text \<open>Every way to a shell.\<close>

lemma parse_args_Some [simp]: "parse_args args = Some c \<longleftrightarrow> args = [''-c'', c]"
  by (cases args rule: parse_args.cases) auto

lemma exec_shell_Shell [simp]:
  "exec_shell w a c = Shell applied cmd \<longleftrightarrow> a = applied \<and> c = cmd \<and> x_exec_error w = None"
  by (auto simp: exec_shell_def split: option.splits)

lemma exec_with_policy_Shell:
  "exec_with_policy w policy c = Shell applied cmd \<longleftrightarrow>
     (\<exists>profile. read_file (x_disk w) policy = Some profile \<and> utf8_valid profile
        \<and> apply_to_self (x_init w) profile = None \<and> applied = Some profile \<and> c = cmd \<and> x_exec_error w = None)"
  by (auto simp: exec_with_policy_def from_utf8_def bind_eq_Some_conv split: option.splits if_splits)

definition session_profile :: "exec_world \<Rightarrow> bytes \<Rightarrow> bool" where
  "session_profile w profile \<longleftrightarrow>
     (\<exists>root q. x_root w = Inr root \<and> reaches (x_parent w) (x_is_dir w) root (x_ppid w) q
        \<and> read_file (x_disk w) (policy_file (session_at root q)) = Some profile)"

lemma exec_run_Shell:
  assumes "exec_run w c = Some (Shell applied cmd)"
  shows "c = cmd \<and> x_exec_error w = None
    \<and> (if x_confined w then applied = None
       else \<exists>profile. session_profile w profile \<and> apply_to_self (x_init w) profile = None \<and> applied = Some profile)"
proof (cases "x_confined w")
  case False
  with assms obtain root session policy where r: "x_root w = Inr root"
    "find_session (x_parent w) (x_is_dir w) root (x_ppid w) = Some (Some session)"
    "policy_of (x_disk w) session = Some policy" "exec_with_policy w policy c = Shell applied cmd"
    by (auto simp: exec_run_def bind_eq_Some_conv split: sum.splits option.splits)
  from r(3) have "policy = policy_file session" by (auto simp: policy_of_def split: if_splits)
  with r False find_session_reaches [OF r(2)] show ?thesis
    by (auto simp: exec_with_policy_Shell session_profile_def)
qed (use assms in \<open>simp add: exec_run_def\<close>)

lemma exec_main_Shell:
  assumes "exec_main w args = Some (Shell applied cmd)"
  shows "args = [''-c'', cmd]
    \<and> (if x_confined w then applied = None
       else \<exists>profile. session_profile w profile \<and> apply_to_self (x_init w) profile = None \<and> applied = Some profile)"
  using assms exec_run_Shell by (auto simp: exec_main_def split: option.splits if_splits)

text \<open>And a shell there is whenever nothing refuses.\<close>

lemma exec_main_runs:
  assumes "\<not> x_confined w" "session_profile w profile" "utf8_valid profile" "apply_to_self (x_init w) profile = None"
    "x_exec_error w = None"
  shows "exec_main w [''-c'', cmd] = Some (Shell (Some profile) cmd)"
proof -
  obtain root q where "x_root w = Inr root" "reaches (x_parent w) (x_is_dir w) root (x_ppid w) q"
    "read_file (x_disk w) (policy_file (session_at root q)) = Some profile"
    using assms(2) by (auto simp: session_profile_def)
  with assms show ?thesis
    by (simp add: exec_main_def exec_run_def reaches_find_session policy_of_def exec_with_policy_def
        exec_shell_def from_utf8_def)
qed

end
