(* ===== verification/Grant.thy ===== *)
theory Grant
  imports Exec
begin

text \<open>
  \<^verbatim>\<open>nd7 allow\<close>, \<^verbatim>\<open>nd7 deny\<close> and the policy that \<^verbatim>\<open>nd7 run\<close> starts with, from \<^verbatim>\<open>src/src/bin/nd7.rs\<close>.
  What the system resolves a path to (\<open>canon\<close>), the directories the environment names and the JSON
  of a policy are arguments.
\<close>

section \<open>Arguments\<close>

text \<open>\<^verbatim>\<open>str::parse::<u32>\<close>.\<close>

definition parse_u32 :: "bytes \<Rightarrow> nat option" where
  "parse_u32 s =
     (case parse_digits (case s of c # r \<Rightarrow> if c = CHR ''+'' then r else s | [] \<Rightarrow> s) of
        None \<Rightarrow> None
      | Some n \<Rightarrow> if n < 2 ^ 32 then Some n else None)"

datatype verb = Allow | Deny

datatype grant_error =
  Needs_pid | Bad_pid bytes | Unexpected_argument bytes | No_path | Not_found bytes | Own_records
| No_root | No_session | Several_sessions "nat list" | Not_loaded nat | Not_written

fun grant_args :: "nat option \<Rightarrow> bytes option \<Rightarrow> bytes list \<Rightarrow> grant_error + nat option \<times> bytes option"
where
  "grant_args session path [] = Inr (session, path)"
| "grant_args session path (arg # args) =
     (if arg = ''--session'' then
        (case args of
           [] \<Rightarrow> Inl Needs_pid
         | pid # rest \<Rightarrow>
             (case parse_u32 pid of
                None \<Rightarrow> Inl (Bad_pid pid)
              | Some n \<Rightarrow> grant_args (Some n) path rest))
      else if path = None then grant_args session (Some arg) args
      else Inl (Unexpected_argument arg))"

section \<open>The command\<close>

record grant_world =
  g_canon :: "bytes \<Rightarrow> bytes option"           \<comment> \<open>\<^verbatim>\<open>fs::canonicalize\<close>\<close>
  g_root :: bytes                              \<comment> \<open>\<^verbatim>\<open>session::sessions_root()\<close>\<close>
  g_state :: bytes                             \<comment> \<open>\<^verbatim>\<open>session_log::state_root()\<close>\<close>
  g_entries :: "bytes list option"             \<comment> \<open>the names under the root\<close>
  g_disk :: disk

text \<open>\<^verbatim>\<open>Path::parent\<close> of a path of the program's own making.\<close>

definition path_parent :: "bytes \<Rightarrow> bytes option" where
  "path_parent p = map_option (\<lambda>(d, _). if d = [] then ''/'' else d) (rsplit_once CHR ''/'' p)"

definition resolve_grant :: "grant_world \<Rightarrow> verb \<Rightarrow> bytes \<Rightarrow> grant_error + bytes" where
  "resolve_grant w verb path =
     (case g_canon w path of
        Some p \<Rightarrow> Inr p
      | None \<Rightarrow> if verb = Deny then Inr path else Inl (Not_found path))"

definition own_records :: "grant_world \<Rightarrow> bytes \<Rightarrow> bool" where
  "own_records w path \<longleftrightarrow>
     path_starts_with path (case path_parent (g_root w) of Some d \<Rightarrow> d | None \<Rightarrow> g_root w)
     \<or> path_starts_with path (g_state w)"

definition pick_session :: "grant_world \<Rightarrow> nat option \<Rightarrow> grant_error + nat" where
  "pick_session w session =
     (case session of
        Some pid \<Rightarrow> Inr pid
      | None \<Rightarrow>
          (case g_entries w of
             None \<Rightarrow> Inl No_root
           | Some entries \<Rightarrow>
               (case sort (List.map_filter (\<lambda>n. Option.bind (from_utf8 n) parse_u32) entries) of
                  [] \<Rightarrow> Inl No_session
                | [one] \<Rightarrow> Inr one
                | many \<Rightarrow> Inl (Several_sessions many))))"

text \<open>The policy with the grant added or taken back, and whether that changed it.\<close>

definition change_grants :: "verb \<Rightarrow> bytes \<Rightarrow> policy \<Rightarrow> policy \<times> bool" where
  "change_grants verb path p =
     (let held = (\<exists>g \<in> set (po_grants p). path_eq g path) in
      case verb of
        Allow \<Rightarrow> if \<not> held then (p\<lparr>po_grants := po_grants p @ [path]\<rparr>, True) else (p, False)
      | Deny \<Rightarrow>
          if held then (p\<lparr>po_grants := filter (\<lambda>g. \<not> path_eq g path) (po_grants p)\<rparr>, True)
          else (p, False))"

definition grant_message :: "verb \<Rightarrow> bool \<Rightarrow> nat \<Rightarrow> bytes \<Rightarrow> bytes" where
  "grant_message verb changed pid path =
     ''session '' @ show_nat pid @ '': ''
     @ (case (verb, changed) of
          (Allow, True) \<Rightarrow> ''writes under '' @ from_utf8_lossy path @ '' allowed from the next command''
        | (Allow, False) \<Rightarrow> from_utf8_lossy path @ '' was already allowed''
        | (Deny, True) \<Rightarrow> ''writes under '' @ from_utf8_lossy path @ '' denied from the next command''
        | (Deny, False) \<Rightarrow> from_utf8_lossy path @ '' was not a grant'')"

text \<open>What \<^verbatim>\<open>grant\<close> writes, call by call, and what it says when that is done.\<close>

definition grant ::
  "(policy \<Rightarrow> bytes option) \<Rightarrow> (bytes \<Rightarrow> policy option) \<Rightarrow> grant_world \<Rightarrow> verb \<Rightarrow> bytes list
   \<Rightarrow> grant_error + call list \<times> bytes" where
  "grant ser de w verb args =
     (case grant_args None None args of
        Inl e \<Rightarrow> Inl e
      | Inr (session, arg) \<Rightarrow>
     (case arg of
        None \<Rightarrow> Inl No_path
      | Some path \<Rightarrow>
     (case resolve_grant w verb path of
        Inl e \<Rightarrow> Inl e
      | Inr path \<Rightarrow>
          if own_records w path then Inl Own_records
          else
     (case pick_session w session of
        Inl e \<Rightarrow> Inl e
      | Inr pid \<Rightarrow>
     (case load de (g_disk w) (g_root w) pid of
        None \<Rightarrow> Inl (Not_loaded pid)
      | Some old \<Rightarrow>
          (let (new, changed) = change_grants verb path old in
           if changed then
             (case write_policy_at ser (session_dir_of (g_root w) pid) new of
                None \<Rightarrow> Inl Not_written
              | Some cs \<Rightarrow> Inr (cs, grant_message verb changed pid path))
           else Inr ([], grant_message verb changed pid path)))))))"

section \<open>The policy of a run\<close>

record run_env =
  r_cwd :: bytes
  r_state :: bytes
  r_tmp :: bytes
  r_home :: bytes
  r_exe :: bytes
  r_session :: bytes                           \<comment> \<open>the session directory\<close>
  r_ssh_auth_sock :: "bytes option"

definition with_file_name :: "bytes \<Rightarrow> bytes \<Rightarrow> bytes" where
  "with_file_name p name =
     (case rsplit_once CHR ''/'' p of
        Some (d, _) \<Rightarrow> d @ ''/'' @ name
      | None \<Rightarrow> name)"

definition exit_path :: "(bytes \<Rightarrow> bytes option) \<Rightarrow> bytes \<Rightarrow> bytes option" where
  "exit_path canon exe = map_option (\<lambda>p. with_file_name p ''nd7-exec'') (canon exe)"

text \<open>The policy \<^verbatim>\<open>spawn\<close> builds; \<^const>\<open>None\<close> when a path cannot be resolved.\<close>

definition run_policy :: "(bytes \<Rightarrow> bytes option) \<Rightarrow> run_env \<Rightarrow> policy option" where
  "run_policy canon e =
     (case (canon (r_cwd e), canon (r_state e), canon (r_tmp e), exit_path canon (r_exe e)) of
        (Some project, Some state, Some tmp, Some exit) \<Rightarrow>
          Some \<lparr>po_project = project, po_home = r_home e, po_state = state, po_tmp = tmp,
                po_exit = exit, po_grants = [],
                po_ssh_agent = map_option (\<lambda>_. path_join (r_session e) ''ssh.sock'') (r_ssh_auth_sock e),
                po_open_sock = path_join (r_session e) ''open.sock''\<rparr>
      | _ \<Rightarrow> None)"

text \<open>
  The file that leaves the sandbox must be a file, and neither it nor its directory writable by
  others (\<open>18\<close> is \<^verbatim>\<open>0o022\<close>). \<open>meta\<close> is what \<^verbatim>\<open>fs::metadata\<close> says: whether it is a file, and its mode.
\<close>

datatype trust_error = Exit_missing bytes | Not_a_file bytes | No_metadata bytes | Writable bytes "32 word"

definition not_writable :: "(bytes \<Rightarrow> (bool \<times> 32 word) option) \<Rightarrow> bytes \<Rightarrow> trust_error + unit" where
  "not_writable meta path =
     (case meta path of
        None \<Rightarrow> Inl (No_metadata path)
      | Some (_, mode) \<Rightarrow> if and mode 18 \<noteq> 0 then Inl (Writable path mode) else Inr ())"

definition trusted :: "(bytes \<Rightarrow> (bool \<times> 32 word) option) \<Rightarrow> bytes \<Rightarrow> trust_error + unit" where
  "trusted meta exit =
     (case meta exit of
        None \<Rightarrow> Inl (Exit_missing exit)
      | Some (is_file, _) \<Rightarrow>
          if \<not> is_file then Inl (Not_a_file exit)
          else (case not_writable meta exit of
                  Inl e \<Rightarrow> Inl e
                | Inr _ \<Rightarrow> not_writable meta (case path_parent exit of Some d \<Rightarrow> d | None \<Rightarrow> exit)))"

section \<open>What a grant leaves\<close>

text \<open>The JSON of a policy is text, and reads back as the policy.\<close>

definition json_round_trip :: "(policy \<Rightarrow> bytes option) \<Rightarrow> (bytes \<Rightarrow> policy option) \<Rightarrow> bool" where
  "json_round_trip ser de \<longleftrightarrow> (\<forall>p s. ser p = Some s \<longrightarrow> utf8_valid s \<and> de s = Some p)"

text \<open>A session directory in step: the record is that of the policy, and the profile its rendering.\<close>

definition session_holds :: "(policy \<Rightarrow> bytes option) \<Rightarrow> disk \<Rightarrow> bytes \<Rightarrow> policy \<Rightarrow> bool" where
  "session_holds ser d dir p \<longleftrightarrow>
     ser p \<noteq> None \<and> read_file d (record_file dir) = ser p
     \<and> read_file d (policy_file dir) = Some (render_policy p)"

lemma load_holds:
  assumes "json_round_trip ser de" "ser p \<noteq> None"
    "read_file d (record_file (session_dir_of root pid)) = ser p"
  shows "load de d root pid = Some p"
  using assms by (auto simp: load_def json_round_trip_def from_utf8_def)

lemma grant_Inr:
  assumes "grant ser de w verb args = Inr (cs, msg)" "grant_args None None args = Inr (Some pid, Some arg)"
    "resolve_grant w verb arg = Inr path" "load de (g_disk w) (g_root w) pid = Some old"
  shows "msg = grant_message verb (snd (change_grants verb path old)) pid path \<and> \<not> own_records w path
    \<and> (if snd (change_grants verb path old)
       then write_policy_at ser (session_dir_of (g_root w) pid) (fst (change_grants verb path old)) = Some cs
       else cs = [] \<and> fst (change_grants verb path old) = old)"
proof -
  have "\<not> snd (change_grants verb path old) \<Longrightarrow> fst (change_grants verb path old) = old"
    by (auto simp: change_grants_def Let_def split: verb.splits if_splits)
  with assms show ?thesis
    by (auto simp: grant_def pick_session_def Let_def split: if_splits option.splits prod.splits)
qed

lemma grant_settles:
  assumes "json_round_trip ser de" "sound_disk (g_disk w)"
    "session_holds ser (g_disk w) (session_dir_of (g_root w) pid) old"
    "grant ser de w verb args = Inr (cs, msg)" "grant_args None None args = Inr (Some pid, Some arg)"
    "resolve_grant w verb arg = Inr path"
  shows "\<exists>d' fd. perform (g_disk w) None cs = Some (d', fd) \<and> sound_disk d'
    \<and> session_holds ser d' (session_dir_of (g_root w) pid) (fst (change_grants verb path old))"
proof -
  let ?dir = "session_dir_of (g_root w) pid" and ?new = "fst (change_grants verb path old)"
  have "load de (g_disk w) (g_root w) pid = Some old"
    using assms(1,3) load_holds by (auto simp: session_holds_def)
  note g = grant_Inr [OF assms(4-6) this]
  show ?thesis
  proof (cases "snd (change_grants verb path old)")
    case True
    with g have "write_policy_at ser ?dir ?new = Some cs" by simp
    from perform_write_policy [OF assms(2) this] show ?thesis
      by (metis option.discI session_holds_def)
  next
    case False
    with g assms(2,3) show ?thesis by simp
  qed
qed

lemma grant_world_disk [simp]:
  "own_records (w\<lparr>g_disk := d\<rparr>) = own_records w"
  "resolve_grant (w\<lparr>g_disk := d\<rparr>) = resolve_grant w"
  by (auto simp: own_records_def resolve_grant_def fun_eq_iff split: option.split)

text \<open>
  A kill between the two renames leaves the record without the grant and the profile with it, and
  the next \<^verbatim>\<open>deny\<close> sees nothing to do.
\<close>

lemma deny_interrupted:
  assumes "json_round_trip ser de" "sound_disk (g_disk w)"
    "session_holds ser (g_disk w) (session_dir_of (g_root w) pid) old"
    "grant ser de w Deny args = Inr (cs, msg)" "grant_args None None args = Inr (Some pid, Some arg)"
    "resolve_grant w Deny arg = Inr path" "path \<in> set (po_grants old)"
  shows "\<exists>d'. disk_step\<^sup>*\<^sup>* (g_disk w, [(cs, None)]) (d', [([], None)])
    \<and> read_file d' (policy_file (session_dir_of (g_root w) pid)) = Some (render_policy old)
    \<and> grant ser de (w\<lparr>g_disk := d'\<rparr>) Deny args = Inr ([], grant_message Deny False pid path)"
proof -
  let ?dir = "session_dir_of (g_root w) pid" and ?new = "fst (change_grants Deny path old)"
  have "\<exists>g \<in> set (po_grants old). path_eq g path" using assms(7) path_eq_refl by blast
  then have ch: "snd (change_grants Deny path old)" "change_grants Deny path ?new = (?new, False)"
    by (simp_all add: change_grants_def Let_def)
  have "load de (g_disk w) (g_root w) pid = Some old"
    using assms(1,3) load_holds by (auto simp: session_holds_def)
  note g = grant_Inr [OF assms(4-6) this]
  with ch obtain json where j: "ser ?new = Some json"
    "cs = write_atomic (record_file ?dir) json @ write_atomic (policy_file ?dir) (render_policy ?new)"
    by (auto simp: write_policy_at_def)
  obtain d1 fd1 where a: "perform (g_disk w) None (write_atomic (record_file ?dir) json) = Some (d1, fd1)"
    "read_file d1 (record_file ?dir) = Some json"
    "\<And>q. q \<noteq> record_file ?dir \<Longrightarrow> q \<noteq> record_file ?dir @ ''.tmp'' \<Longrightarrow> read_file d1 q = read_file (g_disk w) q"
    using perform_atomic [OF assms(2)] by metis
  let ?w = "(write_atomic (policy_file ?dir) (render_policy ?new), fd1)"
  have "disk_step\<^sup>*\<^sup>* (g_disk w, [(cs, None)]) (d1, [?w])"
    using perform_steps [OF a(1), of 0 "[(cs, None)]"] j(2) by simp
  moreover have "disk_step (d1, [?w]) (d1, [([], None)])"
    using some_writer [of 0 "[?w]" d1] killed by fastforce
  ultimately have "disk_step\<^sup>*\<^sup>* (g_disk w, [(cs, None)]) (d1, [([], None)])" by simp
  moreover have "read_file d1 (policy_file ?dir) = Some (render_policy old)"
    using a(3) assms(3) session_files_distinct [of ?dir] by (metis session_holds_def)
  moreover have "load de d1 (g_root w) pid = Some ?new"
    using load_holds [OF assms(1)] j(1) a(2) by simp
  then have "grant ser de (w\<lparr>g_disk := d1\<rparr>) Deny args = Inr ([], grant_message Deny False pid path)"
    using assms(5,6) g ch(2)
    by (simp add: grant_def pick_session_def)
  ultimately show ?thesis by blast
qed

text \<open>Two grants that were both worked out on the same record: the second to be written wins.\<close>

lemma grants_race:
  assumes "sound_disk d" "write_policy_at ser dir (p\<lparr>po_grants := po_grants p @ [a]\<rparr>) = Some cs1"
    "write_policy_at ser dir (p\<lparr>po_grants := po_grants p @ [b]\<rparr>) = Some cs2"
  shows "\<exists>d' fd. Option.bind (perform d None cs1) (\<lambda>(d1, _). perform d1 None cs2) = Some (d', fd)
    \<and> session_holds ser d' dir (p\<lparr>po_grants := po_grants p @ [b]\<rparr>)"
proof -
  obtain d1 fd1 where a: "perform d None cs1 = Some (d1, fd1)" "sound_disk d1"
    using perform_write_policy [OF assms(1,2)] by metis
  obtain d2 fd2 json where b: "perform d1 None cs2 = Some (d2, fd2)" "read_file d2 (record_file dir) = Some json"
    "ser (p\<lparr>po_grants := po_grants p @ [b]\<rparr>) = Some json"
    "read_file d2 (policy_file dir) = Some (render_policy (p\<lparr>po_grants := po_grants p @ [b]\<rparr>))"
    using perform_write_policy [OF a(2) assms(3)] by metis
  with a show ?thesis by (auto simp: session_holds_def)
qed

end
