(* ===== verification/SessionProperties.thy ===== *)
theory SessionProperties
  imports Grant
begin

text \<open>
  The properties of a session's policy from the command line to the shell: what is on disk while it
  is rewritten, what a grant changes, and under what a command runs.
\<close>

section \<open>The policy on disk\<close>

text \<open>
  C12. However many programs have written policies one after another, and wherever each of them was
  killed, the policy file of a session is a complete rendering of some policy: a command never runs
  under half a profile.
\<close>
theorem policy_file_whole:
  assumes "(policy_step ser)\<^sup>*\<^sup>* (before, ([], None)) (d, w)" "allowed (whole ser) before"
    "read_file d (policy_file dir) = Some profile"
  shows "\<exists>p. profile = render_policy p"
proof -
  have "in_order (whole ser) before ([], None)" by (simp add: at_rest)
  with policy_steps_keep [OF assms(1)] assms(2) have "allowed (whole ser) d" by simp
  with assms(3) have "whole ser (policy_file dir) profile" by (simp add: allowed_def)
  then show ?thesis by (simp add: whole_def file_names)
qed

definition pa :: policy where
  "pa = \<lparr>po_project = ''/h/p'', po_home = ''/h'', po_state = ''/h/s'', po_tmp = ''/t'',
     po_exit = ''/b/nd7-exec'', po_grants = [], po_ssh_agent = None, po_open_sock = ''/h/o''\<rparr>"

definition pb :: policy where "pb = pa\<lparr>po_grants := [''/g'']\<rparr>"

definition ser0 :: "policy \<Rightarrow> bytes option" where
  "ser0 p = (if p = pa then Some ''a'' else if p = pb then Some ''b'' else None)"

definition de0 :: "bytes \<Rightarrow> policy option" where
  "de0 s = (if s = ''a'' then Some pa else if s = ''b'' then Some pb else None)"

lemma json_round_trip0: "json_round_trip ser0 de0"
  by (auto simp: json_round_trip_def ser0_def de0_def utf8_valid_ascii byte_in_def split: if_splits)

text \<open>A disk with the session of process 7, whose policy is the one given.\<close>

definition disk0 :: "bytes \<Rightarrow> policy \<Rightarrow> disk" where
  "disk0 json p =
     \<lparr>names = [record_file (session_dir_of ''/h/r'' 7) \<mapsto> 0, policy_file (session_dir_of ''/h/r'' 7) \<mapsto> 1],
      content = (\<lambda>i. if i = 0 then json else render_policy p), next_inode = 2\<rparr>"

lemma disk0_files:
  "sound_disk (disk0 json p)"
  "read_file (disk0 json p) (record_file (session_dir_of ''/h/r'' 7)) = Some json"
  "read_file (disk0 json p) (policy_file (session_dir_of ''/h/r'' 7)) = Some (render_policy p)"
  using session_files_distinct(1) [of "session_dir_of ''/h/r'' 7"]
  by (auto simp: disk0_def sound_disk_def read_file_def split: if_splits)

lemma disk0_holds:
  "session_holds ser0 (disk0 ''a'' pa) (session_dir_of ''/h/r'' 7) pa"
  "session_holds ser0 (disk0 ''b'' pb) (session_dir_of ''/h/r'' 7) pb"
proof -
  have "pb \<noteq> pa" by (simp add: pa_def pb_def)
  then show "session_holds ser0 (disk0 ''a'' pa) (session_dir_of ''/h/r'' 7) pa"
    "session_holds ser0 (disk0 ''b'' pb) (session_dir_of ''/h/r'' 7) pb"
    by (simp_all add: session_holds_def disk0_files ser0_def)
qed

lemma disk0_allowed: "allowed (whole ser0) (disk0 ''a'' pa)"
proof -
  have "q = record_file (session_dir_of ''/h/r'' 7) \<and> s = ''a''
      \<or> q = policy_file (session_dir_of ''/h/r'' 7) \<and> s = render_policy pa"
    if "read_file (disk0 ''a'' pa) q = Some s" for q s
    using that by (auto simp: disk0_def read_file_def split: if_splits)
  moreover have "ser0 pa = Some ''a''" by (simp add: ser0_def)
  ultimately show ?thesis
    using disk0_files(1) by (fastforce simp: allowed_def whole_def file_names)
qed

definition calls0 :: "bytes \<Rightarrow> policy \<Rightarrow> call list" where
  "calls0 json p = write_atomic (record_file (session_dir_of ''/h/r'' 7)) json
     @ write_atomic (policy_file (session_dir_of ''/h/r'' 7)) (render_policy p)"

lemma calls0:
  "write_policy_at ser0 (session_dir_of ''/h/r'' 7) pa = Some (calls0 ''a'' pa)"
  "write_policy_at ser0 (session_dir_of ''/h/r'' 7) pb = Some (calls0 ''b'' pb)"
proof -
  have "pb \<noteq> pa" by (simp add: pa_def pb_def)
  then show "write_policy_at ser0 (session_dir_of ''/h/r'' 7) pa = Some (calls0 ''a'' pa)"
    "write_policy_at ser0 (session_dir_of ''/h/r'' 7) pb = Some (calls0 ''b'' pb)"
    by (simp_all add: write_policy_at_def calls0_def ser0_def)
qed

text \<open>One program by itself is a case of several.\<close>

lemma steps_alone:
  assumes "disk_step\<^sup>*\<^sup>* (d, [w]) (d', ws)"
  shows "\<exists>w'. ws = [w'] \<and> (policy_step ser)\<^sup>*\<^sup>* (d, w) (d', w')"
  using assms
proof (induction "(d', ws)" arbitrary: d' ws rule: rtranclp_induct)
  case (step x)
  obtain d1 ws1 where x: "x = (d1, ws1)" by (cases x)
  then obtain w1 where w1: "ws1 = [w1]" "(policy_step ser)\<^sup>*\<^sup>* (d, w) (d1, w1)" using step.hyps(3) by blast
  from step.hyps(2) obtain w' where w': "ws = [w']" "call_step d1 w1 d' w'"
    unfolding x w1(1) by (auto elim: disk_step.cases)
  have "policy_step ser (d1, w1) (d', w')" by (rule policy_step.call [OF w'(2)])
  with w1(2) have "(policy_step ser)\<^sup>*\<^sup>* (d, w) (d', w')" by (rule rtranclp.rtrancl_into_rtrancl)
  with w'(1) show ?case by blast
qed simp

text \<open>
  A grant killed in the middle: the record is the new one, one byte of the new profile is in the
  temporary file, and the policy file is whole.
\<close>

theorem policy_file_whole_at:
  "\<exists>d profile. (policy_step ser0)\<^sup>*\<^sup>* (disk0 ''a'' pa, ([], None)) (d, ([], None))
    \<and> read_file d (record_file (session_dir_of ''/h/r'' 7)) = Some ''b''
    \<and> read_file d (policy_file (session_dir_of ''/h/r'' 7) @ ''.tmp'') = Some (take 1 (render_policy pb))
    \<and> read_file d (policy_file (session_dir_of ''/h/r'' 7)) = Some profile \<and> (\<exists>p. profile = render_policy p)"
proof -
  let ?r = "record_file (session_dir_of ''/h/r'' 7)" and ?p = "policy_file (session_dir_of ''/h/r'' 7)"
  let ?t = "?p @ ''.tmp''" and ?new = "render_policy pb"
  note files = session_files_distinct [of "session_dir_of ''/h/r'' 7"]
  obtain d1 fd1 where d1: "perform (disk0 ''a'' pa) None (write_atomic ?r ''b'') = Some (d1, fd1)" "sound_disk d1"
    "read_file d1 ?r = Some ''b''"
    "\<And>q. q \<noteq> ?r \<Longrightarrow> q \<noteq> ?r @ ''.tmp'' \<Longrightarrow> read_file d1 q = read_file (disk0 ''a'' pa) q"
    by (rule perform_atomic [OF disk0_files(1) [of "''a''" pa], of None ?r "''b''"]) blast
  have start: "(policy_step ser0) (disk0 ''a'' pa, ([], None)) (disk0 ''a'' pa, (calls0 ''b'' pb, None))"
    by (rule policy_step.start [OF calls0(2)])
  have "disk_step\<^sup>*\<^sup>* (disk0 ''a'' pa, [(calls0 ''b'' pb, None)]) (d1, [(write_atomic ?p ?new, fd1)])"
    using perform_steps [OF d1(1), of 0 "[(calls0 ''b'' pb, None)]"] by (simp add: calls0_def)
  from steps_alone [OF this] have "(policy_step ser0)\<^sup>*\<^sup>* (disk0 ''a'' pa, (calls0 ''b'' pb, None)) (d1, (write_atomic ?p ?new, fd1))"
    by auto
  with start have 1: "(policy_step ser0)\<^sup>*\<^sup>* (disk0 ''a'' pa, ([], None)) (d1, (write_atomic ?p ?new, fd1))"
    by (rule converse_rtranclp_into_rtranclp)
  obtain d2 i where o2: "do_open d1 ?t = (d2, i)" by fastforce
  note s2 = sound_open [OF d1(2) o2]
  have "Suc 0 < length ?new" by (simp add: render_policy_def body_def)
  then have new: "?new = take 1 ?new @ drop 1 ?new" "drop 1 ?new \<noteq> []" "length (take 1 ?new) = 1" by simp_all
  have 2: "policy_step ser0 (d1, (write_atomic ?p ?new, fd1)) (d2, ([Put ?new, Rename ?t ?p], Some (i, 0)))"
    unfolding write_atomic_def by (rule policy_step.call [OF open_call [OF o2]])
  let ?d3 = "do_write d2 i 0 (take 1 ?new)"
  have 3: "policy_step ser0 (d2, ([Put ?new, Rename ?t ?p], Some (i, 0))) (?d3, ([Put (drop 1 ?new), Rename ?t ?p], Some (i, 0 + length (take 1 ?new))))"
    by (rule policy_step.call [OF put_some [OF new(1,2)]])
  have 4: "policy_step ser0 (?d3, ([Put (drop 1 ?new), Rename ?t ?p], Some (i, 0 + length (take 1 ?new)))) (?d3, ([], None))"
    by (rule policy_step.call [OF killed])
  note more = rtranclp.rtrancl_into_rtrancl [where r = "policy_step ser0" and a = "(disk0 ''a'' pa, ([], None))"]
  have steps: "(policy_step ser0)\<^sup>*\<^sup>* (disk0 ''a'' pa, ([], None)) (?d3, ([], None))"
    using more [OF more [OF more [OF 1 2] 3] 4] .
  note s3 = sound_write [OF s2(1,2), of 0 "take 1 ?new"]
  have tmp: "read_file ?d3 ?t = Some (take 1 ?new)"
    using s3 s2(2,3) by (simp add: read_file_def overwrite_def)
  have "?r \<noteq> ?t" "?p \<noteq> ?t" "?p \<noteq> ?r" "?p \<noteq> ?r @ ''.tmp''" using files by auto
  then have "read_file ?d3 ?r = Some ''b''" "read_file ?d3 ?p = Some (render_policy pa)"
    using s3 s2(4) d1(3,4) disk0_files(3) by simp_all
  then show ?thesis
    using steps tmp policy_file_whole [OF steps disk0_allowed, of "session_dir_of ''/h/r'' 7" "render_policy pa"]
    by (intro exI [of _ ?d3] exI [of _ "render_policy pa"]) simp
qed

text \<open>
  C28. The temporary file has a fixed name, so two programs that write at once undo this: any
  beginning of a profile, the empty one included, can be what the policy file holds.
\<close>
theorem half_profile_seen:
  assumes "sound_disk d" "write_policy_at ser dir p1 = Some cs1" "write_policy_at ser dir p2 = Some cs2"
    "n < length (render_policy p2)"
  shows "\<exists>d' ws. disk_step\<^sup>*\<^sup>* (d, [(cs1, None), (cs2, None)]) (d', ws)
    \<and> read_file d' (policy_file dir) = Some (take n (render_policy p2))"
  using assms by (rule two_writers)

theorem half_profile_seen_at:
  "\<exists>d' ws. disk_step\<^sup>*\<^sup>* (disk0 ''a'' pa, [(calls0 ''a'' pa, None), (calls0 ''b'' pb, None)]) (d', ws)
    \<and> read_file d' (policy_file (session_dir_of ''/h/r'' 7)) = Some (take 0 (render_policy pb))"
  by (rule half_profile_seen [OF disk0_files(1) calls0]) (simp add: render_policy_def body_def)

section \<open>The command\<close>

text \<open>
  C11. The program the floor lets out becomes a shell only with the arguments \<^verbatim>\<open>-c\<close> and a command,
  and outside the floor only after it has applied the profile of the nearest ancestor's session to
  itself. When the policy files come from nd7's programs one at a time, that profile is a complete
  rendering of a policy, so nothing protected by that policy can be written by the command.
\<close>
theorem command_runs_under_policy:
  assumes "exec_main w args = Some (Shell applied cmd)"
    "(policy_step ser)\<^sup>*\<^sup>* (before, ([], None)) (x_disk w, writer)" "allowed (whole ser) before"
  shows "args = [''-c'', cmd]
    \<and> (if x_confined w then applied = None
       else \<exists>p. applied = Some (render_policy p) \<and> session_profile w (render_policy p)
         \<and> apply_to_self (x_init w) (render_policy p) = None
         \<and> (\<forall>lib rx op classes f. \<not> (op \<in> set WRITE_OP_NAMES \<and> protected p f
              \<and> permits lib rx (render_policy p) op classes f)))"
proof -
  have "in_order (whole ser) before ([], None)" by (simp add: at_rest)
  with policy_steps_keep [OF assms(2)] assms(3) have ok: "allowed (whole ser) (x_disk w)" by simp
  have "\<exists>p. profile = render_policy p" if prof: "session_profile w profile" for profile
  proof -
    obtain root q where "read_file (x_disk w) (policy_file (session_at root q)) = Some profile"
      using prof by (auto simp: session_profile_def)
    with ok have "whole ser (policy_file (session_at root q)) profile" by (simp add: allowed_def)
    then show ?thesis by (simp add: whole_def file_names)
  qed
  with exec_main_Shell [OF assms(1)] show ?thesis
    by (auto simp: permits_rendered write_verdict split: if_splits)
qed

definition exec0 :: exec_world where
  "exec0 = \<lparr>x_confined = False, x_root = Inr ''/h/r'', x_ppid = 9,
     x_parent = (\<lambda>p. if p = 9 then Some 7 else None), x_is_dir = (\<lambda>d. d = session_at ''/h/r'' 7),
     x_disk = disk0 ''a'' pa, x_read_error = [], x_init = (\<lambda>p. (0, None)), x_exec_error = None\<rparr>"

text \<open>With plain paths the profile is plain text.\<close>

lemma render_pa: "list_all (byte_in (Suc 0) 0x7F) (render_policy pa)"
proof -
  have plain: "list_all (byte_in (Suc 0) 0x7F) (sbpl_string p)" if "list_all (byte_in (Suc 0) 0x7F) p" for p
  proof -
    have "from_utf8_lossy p = p"
      using that by (intro from_utf8_lossy_ascii) (auto simp: list_all_iff byte_in_def)
    then show ?thesis using that
      by (auto simp: sbpl_string_def list_all_iff byte_in_def split: if_splits)
  qed
  have paths: "list_all (byte_in (Suc 0) 0x7F) (path_join b x)"
    if "list_all (byte_in (Suc 0) 0x7F) b" "list_all (byte_in (Suc 0) 0x7F) x" for b x
    using that by (simp add: path_join_def byte_in_def)
  show ?thesis
    by (simp add: render_policy_def body_def deny_records_def deny_agent_config_def pa_def plain paths
        WRITE_OPS_def byte_in_def)
qed

lemma exec0_reaches: "reaches (x_parent exec0) (x_is_dir exec0) ''/h/r'' 9 7"
proof -
  have dirs: "session_at ''/h/r'' 9 \<noteq> session_at ''/h/r'' 7" by (simp add: session_at_def path_join_def show_nat.simps)
  show ?thesis by (rule up [where q = 7]) (simp_all add: exec0_def dirs here)
qed

lemma exec0_applies: "apply_to_self (x_init exec0) (render_policy pa) = None" "utf8_valid (render_policy pa)"
  using render_pa position_byte_None [of "CHR 0x00" "render_policy pa"]
  by (auto simp: apply_to_self_def apply_profile_def exec0_def list_all_iff byte_in_def
      intro!: utf8_valid_ascii split: option.split)

lemma exec0_runs: "exec_main exec0 [''-c'', ''ls''] = Some (Shell (Some (render_policy pa)) ''ls'')"
proof (rule exec_main_runs)
  note exec0_reaches
  moreover have "read_file (x_disk exec0) (policy_file (session_at ''/h/r'' 7)) = Some (render_policy pa)"
    using disk0_files(3) by (simp add: exec0_def session_at_def session_dir_of_def)
  ultimately show "session_profile exec0 (render_policy pa)"
    by (auto simp: session_profile_def exec0_def)
qed (use exec0_applies in \<open>simp_all add: exec0_def\<close>)

theorem command_runs_under_policy_at:
  "\<exists>p. render_policy pa = render_policy p
     \<and> \<not> (''file-write-data'' \<in> set WRITE_OP_NAMES \<and> protected p ''/h/.nd7/x''
         \<and> permits (\<lambda>n. []) (\<lambda>r f. False) (render_policy p) ''file-write-data'' [] ''/h/.nd7/x'')"
  using command_runs_under_policy [where ser = ser0 and before = "disk0 ''a'' pa" and writer = "([], None)",
      OF exec0_runs _ disk0_allowed]
  by (auto simp: exec0_def)

section \<open>Grants\<close>

lemma change_grants_rest: "fst (change_grants verb path p) = p\<lparr>po_grants := po_grants (fst (change_grants verb path p))\<rparr>"
  by (simp add: change_grants_def Let_def split: verb.split)

lemma change_grants_allow:
  "let gs = po_grants (fst (change_grants Allow path p)) in
    set (po_grants p) \<subseteq> set gs \<and> set gs \<subseteq> insert path (set (po_grants p)) \<and> (\<exists>g \<in> set gs. path_eq g path)"
  by (auto simp: change_grants_def Let_def)

lemma change_grants_deny:
  "set (po_grants (fst (change_grants Deny path p))) = {g \<in> set (po_grants p). \<not> path_eq g path}"
  by (auto simp: change_grants_def Let_def)

text \<open>
  C20. What a grant does. Written to its end, it leaves record and profile in step, with a policy that
  differs in the grants alone and so protects what it protected. After \<^verbatim>\<open>allow\<close> the grants are those
  there were and the path, and every file under it can be written unless it is protected; after
  \<^verbatim>\<open>deny\<close> they are those there were without the path, and a file that only the path opened cannot be
  written any more (both where the system's own profile says nothing of writing that file). And no
  path under nd7's own records gets that far.
\<close>
theorem grant_takes_effect:
  assumes "json_round_trip ser de" "sound_disk (g_disk w)"
    "session_holds ser (g_disk w) (session_dir_of (g_root w) pid) old"
    "grant ser de w verb args = Inr (cs, msg)" "grant_args None None args = Inr (Some pid, Some arg)"
    "resolve_grant w verb arg = Inr path"
  shows "\<exists>d fd new. perform (g_disk w) None cs = Some (d, fd)
    \<and> session_holds ser d (session_dir_of (g_root w) pid) new
    \<and> \<not> own_records w path \<and> new = old\<lparr>po_grants := po_grants new\<rparr> \<and> (\<forall>f. protected new f = protected old f)
    \<and> (case verb of
         Allow \<Rightarrow>
           set (po_grants old) \<subseteq> set (po_grants new) \<and> set (po_grants new) \<subseteq> insert path (set (po_grants old))
           \<and> (\<exists>g \<in> set (po_grants new). path_eq g path \<and> (\<forall>lib rx f. under f g
               \<longrightarrow> last_verdict rx ''file-write-data'' f (lib ''system.sb'') = None
               \<longrightarrow> permits lib rx (render_policy new) ''file-write-data'' [''file-write*''] f = (\<not> protected old f)))
       | Deny \<Rightarrow>
           set (po_grants new) = {g \<in> set (po_grants old). \<not> path_eq g path}
           \<and> (\<forall>lib rx f. \<not> session_path rx old f \<longrightarrow> (\<forall>g \<in> set (po_grants old). under f g \<longrightarrow> path_eq g path)
               \<longrightarrow> last_verdict rx ''file-write-data'' f (lib ''system.sb'') = None
               \<longrightarrow> last_verdict rx ''file-write*'' f (lib ''system.sb'') = None
               \<longrightarrow> \<not> permits lib rx (render_policy new) ''file-write-data'' [''file-write*''] f))"
proof -
  define new where "new = fst (change_grants verb path old)"
  have only: "new = old\<lparr>po_grants := po_grants new\<rparr>" unfolding new_def by (rule change_grants_rest)
  have prot: "protected new f = protected old f" "session_path rx new f = session_path rx old f" for f rx
    by (subst only, simp add: protected_def record_path_def agent_config_path_def session_path_def)+
  have op: "''file-write-data'' \<in> set WRITE_OP_NAMES" "''file-write*'' \<in> set WRITE_OP_NAMES"
    by (simp_all add: WRITE_OP_NAMES_def)
  have allow: "permits lib rx (render_policy new) ''file-write-data'' [''file-write*''] f = (\<not> protected old f)"
    if "g \<in> set (po_grants new)" "under f g" "last_verdict rx ''file-write-data'' f (lib ''system.sb'') = None" for lib rx f g
    using that op prot(1) [of f] by (auto simp: permits_rendered write_verdict)
  have deny: "\<not> permits lib rx (render_policy new) ''file-write-data'' [''file-write*''] f"
    if "\<not> session_path rx old f" "\<forall>g \<in> set (po_grants new). \<not> under f g"
      "last_verdict rx ''file-write-data'' f (lib ''system.sb'') = None"
      "last_verdict rx ''file-write*'' f (lib ''system.sb'') = None" for lib rx f
    using that op prot(2) [of rx f] by (auto simp: permits_rendered write_verdict)
  have "load de (g_disk w) (g_root w) pid = Some old"
    using assms(1,3) load_holds by (auto simp: session_holds_def)
  then have own: "\<not> own_records w path" using grant_Inr [OF assms(4-6)] by blast
  obtain d fd where d: "perform (g_disk w) None cs = Some (d, fd)" "session_holds ser d (session_dir_of (g_root w) pid) new"
    using grant_settles [OF assms] unfolding new_def by blast
  show ?thesis
  proof (intro exI conjI allI)
    show "case verb of
         Allow \<Rightarrow>
           set (po_grants old) \<subseteq> set (po_grants new) \<and> set (po_grants new) \<subseteq> insert path (set (po_grants old))
           \<and> (\<exists>g \<in> set (po_grants new). path_eq g path \<and> (\<forall>lib rx f. under f g
               \<longrightarrow> last_verdict rx ''file-write-data'' f (lib ''system.sb'') = None
               \<longrightarrow> permits lib rx (render_policy new) ''file-write-data'' [''file-write*''] f = (\<not> protected old f)))
       | Deny \<Rightarrow>
           set (po_grants new) = {g \<in> set (po_grants old). \<not> path_eq g path}
           \<and> (\<forall>lib rx f. \<not> session_path rx old f \<longrightarrow> (\<forall>g \<in> set (po_grants old). under f g \<longrightarrow> path_eq g path)
               \<longrightarrow> last_verdict rx ''file-write-data'' f (lib ''system.sb'') = None
               \<longrightarrow> last_verdict rx ''file-write*'' f (lib ''system.sb'') = None
               \<longrightarrow> \<not> permits lib rx (render_policy new) ''file-write-data'' [''file-write*''] f)"
    proof (cases verb)
      case Allow
      with change_grants_allow [of path old] allow show ?thesis by (auto simp: new_def Let_def)
    next
      case Deny
      have gs: "set (po_grants new) = {g \<in> set (po_grants old). \<not> path_eq g path}"
        using change_grants_deny [of path old] Deny by (simp add: new_def)
      then have "\<forall>g \<in> set (po_grants new). \<not> under f g"
        if "\<forall>g \<in> set (po_grants old). under f g \<longrightarrow> path_eq g path" for f
        using that by blast
      with deny gs Deny show ?thesis by simp
    qed
  qed (use d own only prot in auto)
qed

definition world0 :: "bytes \<Rightarrow> policy \<Rightarrow> grant_world" where
  "world0 json p = \<lparr>g_canon = Some, g_root = ''/h/r'', g_state = ''/h/s'', g_entries = None, g_disk = disk0 json p\<rparr>"

definition args0 :: "bytes list" where "args0 = [''--session'', ''7'', ''/g'']"

lemma args0: "grant_args None None args0 = Inr (Some 7, Some ''/g'')"
  by (simp add: args0_def parse_u32_def parse_digits_def is_ascii_digit_def digit_val_def)

lemma own_records0: "\<not> own_records (world0 json p) ''/g''"
  by (simp add: own_records_def world0_def path_starts_with_def components_def path_parent_def
      rsplit_once_def split_once_def)


text \<open>The two grants of the examples.\<close>

lemma grants0:
  "change_grants Allow ''/g'' pa = (pb, True)" "change_grants Deny ''/g'' pb = (pa, True)"
  by (simp_all add: change_grants_def pa_def pb_def)

lemma grant0:
  "grant ser0 de0 (world0 ''a'' pa) Allow args0 = Inr (calls0 ''b'' pb, grant_message Allow True 7 ''/g'')"
  "grant ser0 de0 (world0 ''b'' pb) Deny args0 = Inr (calls0 ''a'' pa, grant_message Deny True 7 ''/g'')"
proof -
  have load: "load de0 (disk0 ''a'' pa) ''/h/r'' 7 = Some pa" "load de0 (disk0 ''b'' pb) ''/h/r'' 7 = Some pb"
    using load_holds [OF json_round_trip0] disk0_holds by (auto simp: session_holds_def)
  have root: "g_root (world0 j p) = ''/h/r''" "g_disk (world0 j p) = disk0 j p"
    "resolve_grant (world0 j p) v ''/g'' = Inr ''/g''" for j p v
    by (simp_all add: world0_def resolve_grant_def)
  show "grant ser0 de0 (world0 ''a'' pa) Allow args0 = Inr (calls0 ''b'' pb, grant_message Allow True 7 ''/g'')"
    "grant ser0 de0 (world0 ''b'' pb) Deny args0 = Inr (calls0 ''a'' pa, grant_message Deny True 7 ''/g'')"
    by (simp_all add: grant_def args0 root own_records0 pick_session_def load grants0 calls0)
qed

lemma world0_holds:
  "session_holds ser0 (g_disk (world0 ''a'' pa)) (session_dir_of (g_root (world0 ''a'' pa)) 7) pa"
  "session_holds ser0 (g_disk (world0 ''b'' pb)) (session_dir_of (g_root (world0 ''b'' pb)) 7) pb"
  "sound_disk (g_disk (world0 json p))" "resolve_grant (world0 json p) v ''/g'' = Inr ''/g''"
  using disk0_holds disk0_files(1) by (simp_all add: world0_def resolve_grant_def)

text \<open>The first grant opens a file, and taking it back closes it.\<close>

theorem grant_takes_effect_at:
  "(\<exists>d fd new. perform (disk0 ''a'' pa) None (calls0 ''b'' pb) = Some (d, fd)
      \<and> session_holds ser0 d (session_dir_of ''/h/r'' 7) new \<and> set (po_grants new) = {''/g''}
      \<and> permits (\<lambda>n. []) (\<lambda>r f. False) (render_policy new) ''file-write-data'' [''file-write*''] ''/g/x'')
    \<and> (\<exists>d fd new. perform (disk0 ''b'' pb) None (calls0 ''a'' pa) = Some (d, fd)
      \<and> session_holds ser0 d (session_dir_of ''/h/r'' 7) new \<and> set (po_grants new) = {}
      \<and> \<not> permits (\<lambda>n. []) (\<lambda>r f. False) (render_policy new) ''file-write-data'' [''file-write*''] ''/g/x'')"
proof -
  let ?lib = "\<lambda>n. []" and ?rx = "\<lambda>r f. False"
  have lossy: "from_utf8_lossy ''/g'' = ''/g''" "from_utf8_lossy ''/h/p'' = ''/h/p''" "from_utf8_lossy ''/h'' = ''/h''"
    "from_utf8_lossy ''/h/s'' = ''/h/s''" "from_utf8_lossy ''/t'' = ''/t''" "from_utf8_lossy ''/h/.nd7'' = ''/h/.nd7''"
    "from_utf8_lossy ''/h/.codex/config.toml'' = ''/h/.codex/config.toml''"
    "from_utf8_lossy ''/h/.codex/hooks.json'' = ''/h/.codex/hooks.json''"
    "from_utf8_lossy ''/h/.claude/settings.json'' = ''/h/.claude/settings.json''"
    by (rule from_utf8_lossy_ascii; simp add: byte_in_def)+
  note paths = path_defs path_starts_with_def path_eq_def components_def path_join_def lossy
  have g: "path_eq g ''/g'' \<Longrightarrow> g \<in> {''/g''} \<Longrightarrow> under ''/g/x'' g" for g
    by (auto simp: paths)
  have free: "\<not> protected pa ''/g/x''" "\<not> protected pb ''/g/x''" "\<not> session_path ?rx pb ''/g/x''"
    by (simp_all add: protected_def pa_def pb_def paths)
  obtain d fd new where a: "perform (disk0 ''a'' pa) None (calls0 ''b'' pb) = Some (d, fd)"
    "session_holds ser0 d (session_dir_of ''/h/r'' 7) new" "set (po_grants new) \<subseteq> {''/g''}"
    "\<exists>g \<in> set (po_grants new). path_eq g ''/g'' \<and> (\<forall>lib rx f. under f g
      \<longrightarrow> last_verdict rx ''file-write-data'' f (lib ''system.sb'') = None
      \<longrightarrow> permits lib rx (render_policy new) ''file-write-data'' [''file-write*''] f = (\<not> protected pa f))"
    using grant_takes_effect [OF json_round_trip0 world0_holds(3,1) grant0(1) args0 world0_holds(4)]
    by (auto simp: world0_def pa_def)
  then have "set (po_grants new) = {''/g''}"
    "permits ?lib ?rx (render_policy new) ''file-write-data'' [''file-write*''] ''/g/x''"
    using g free(1) by (blast, fastforce)
  obtain d' fd' new' where b: "perform (disk0 ''b'' pb) None (calls0 ''a'' pa) = Some (d', fd')"
    "session_holds ser0 d' (session_dir_of ''/h/r'' 7) new'" "set (po_grants new') = {g \<in> set (po_grants pb). \<not> path_eq g ''/g''}"
    "\<forall>lib rx f. \<not> session_path rx pb f \<longrightarrow> (\<forall>g \<in> set (po_grants pb). under f g \<longrightarrow> path_eq g ''/g'')
      \<longrightarrow> last_verdict rx ''file-write-data'' f (lib ''system.sb'') = None
      \<longrightarrow> last_verdict rx ''file-write*'' f (lib ''system.sb'') = None
      \<longrightarrow> \<not> permits lib rx (render_policy new') ''file-write-data'' [''file-write*''] f"
    using grant_takes_effect [OF json_round_trip0 world0_holds(3,2) grant0(2) args0 world0_holds(4)]
    by (auto simp: world0_def)
  have "set (po_grants new') = {}" unfolding b(3) by (simp add: pb_def)
  moreover have "\<not> permits ?lib ?rx (render_policy new') ''file-write-data'' [''file-write*''] ''/g/x''"
    using b(4) [rule_format, of ?rx "''/g/x''" ?lib] free(3) by (simp add: pb_def)
  ultimately show ?thesis using a b(1,2) \<open>set (po_grants new) = {''/g''}\<close>
      \<open>permits ?lib ?rx (render_policy new) ''file-write-data'' [''file-write*''] ''/g/x''\<close> by blast
qed

text \<open>
  C29. An interrupted \<^verbatim>\<open>nd7 deny\<close> cannot be repeated: killed between its two files, it leaves the
  profile with the grant still in force and a record without it, and the same command then says
  that the path was not a grant and writes nothing.
\<close>
theorem interrupted_deny_stays:
  assumes "json_round_trip ser de" "sound_disk (g_disk w)"
    "session_holds ser (g_disk w) (session_dir_of (g_root w) pid) old"
    "grant ser de w Deny args = Inr (cs, msg)" "grant_args None None args = Inr (Some pid, Some arg)"
    "resolve_grant w Deny arg = Inr path" "path \<in> set (po_grants old)"
  shows "\<exists>d. disk_step\<^sup>*\<^sup>* (g_disk w, [(cs, None)]) (d, [([], None)])
    \<and> read_file d (policy_file (session_dir_of (g_root w) pid)) = Some (render_policy old)
    \<and> grant ser de (w\<lparr>g_disk := d\<rparr>) Deny args = Inr ([], grant_message Deny False pid path)"
  using assms by (rule deny_interrupted)

theorem interrupted_deny_stays_at:
  "\<exists>d. disk_step\<^sup>*\<^sup>* (disk0 ''b'' pb, [(calls0 ''a'' pa, None)]) (d, [([], None)])
    \<and> read_file d (policy_file (session_dir_of ''/h/r'' 7)) = Some (render_policy pb)
    \<and> grant ser0 de0 ((world0 ''b'' pb)\<lparr>g_disk := d\<rparr>) Deny args0
      = Inr ([], grant_message Deny False 7 ''/g'')"
  using interrupted_deny_stays [OF json_round_trip0 world0_holds(3,2) grant0(2) args0 world0_holds(4)]
  by (auto simp: world0_def pb_def)

text \<open>
  The home directory goes into the policy as the password database has it, while the project is
  resolved: where the home is reached through a link, a session started in it may write nd7's own
  session directory.
\<close>
theorem records_open_through_link:
  assumes "run_policy canon e = Some p" "canon (r_cwd e) = Some real" "under f real" "\<not> protected p f"
    "op \<in> set (tl WRITE_OP_NAMES)" "last_verdict rx op f (lib ''system.sb'') = None"
  shows "permits lib rx (render_policy p) op [''file-write*''] f"
proof -
  have "po_project p = real" using assms(1,2) by (auto simp: run_policy_def split: option.splits)
  then have "session_path rx p f" using assms(3) by (simp add: session_path_def)
  moreover have "op \<in> set WRITE_OP_NAMES" "op \<noteq> ''file-write*''"
    using assms(5) by (auto simp: WRITE_OP_NAMES_def)
  ultimately show ?thesis using assms(4,6) by (simp add: permits_rendered write_verdict)
qed

end
