(* ===== verification/Toml.thy ===== *)
theory Toml
  imports Numerals
begin

text \<open>
  The TOML of \<^verbatim>\<open>src/src/agent_config.rs\<close>: how a string is written and read back line by line. What a
  TOML parser makes of a basic string is specified here, so that the written form can be said to
  mean the string.
\<close>

section \<open>Pieces of a line\<close>

text \<open>\<^verbatim>\<open>trim_matches(['[', ']'])\<close>.\<close>

definition bracket :: "char \<Rightarrow> bool" where
  "bracket c \<longleftrightarrow> c = CHR ''['' \<or> c = CHR '']''"

definition trim_brackets :: "bytes \<Rightarrow> bytes" where
  "trim_brackets s = rev (dropWhile bracket (rev (dropWhile bracket s)))"

definition toml_value :: "bytes \<Rightarrow> bytes \<Rightarrow> bytes option" where
  "toml_value line key =
     Option.bind (strip_prefix key line)
       (\<lambda>rest. map_option trim_start (strip_prefix ''='' (trim_start rest)))"

definition toml_unquote :: "bytes \<Rightarrow> bytes option" where
  "toml_unquote value =
     Option.bind (strip_prefix [quote] value)
       (\<lambda>v. map_option (\<lambda>i. take i v) (position_byte quote v))"

section \<open>Strings\<close>

definition hex_upper :: "nat \<Rightarrow> char" where
  "hex_upper n = ''0123456789ABCDEF'' ! n"

text \<open>\<^verbatim>\<open>{:04X}\<close> of a character below 256.\<close>

definition unicode_escape :: "nat \<Rightarrow> bytes" where
  "unicode_escape n = backslash # ''u00'' @ [hex_upper (n div 16), hex_upper (n mod 16)]"

text \<open>
  The escapes of one character: the control characters are those up to 0x1F, 0x7F, and the two-byte
  characters \<^verbatim>\<open>U+0080\<close> to \<^verbatim>\<open>U+009F\<close>.
\<close>

definition toml_char :: "char \<Rightarrow> bytes" where
  "toml_char c =
     (if c = backslash then [backslash, backslash]
      else if c = quote then [backslash, quote]
      else if c = newline then backslash # ''n''
      else if c = CHR 0x0D then backslash # ''r''
      else if c = CHR 0x09 then backslash # ''t''
      else if c = CHR 0x08 then backslash # ''b''
      else if c = CHR 0x0C then backslash # ''f''
      else if byte_in 0 0x1F c \<or> c = CHR 0x7F then unicode_escape (of_char c)
      else [c])"

fun toml_chars :: "bytes \<Rightarrow> bytes" where
  "toml_chars [] = []"
| "toml_chars [c] = toml_char c"
| "toml_chars (c # d # s) =
     (if c = CHR 0xC2 \<and> byte_in 0x80 0x9F d then unicode_escape (of_char d) @ toml_chars s
      else toml_char c @ toml_chars (d # s))"

definition toml_string :: "bytes \<Rightarrow> bytes" where
  "toml_string s = quote # toml_chars s @ [quote]"

section \<open>What a basic string means\<close>

text \<open>
  TOML 1.0, basic strings: between double quotes, every character but a quote, a backslash and the
  control characters stands for itself; a backslash starts one of the escapes. The result is the
  string and what follows it.
\<close>

definition hex_value :: "char \<Rightarrow> nat option" where
  "hex_value c = position_byte c ''0123456789ABCDEF''"

text \<open>The UTF-8 bytes of a character below \<^verbatim>\<open>U+0800\<close>, all that the escapes of the program name.\<close>

definition utf8_bytes :: "nat \<Rightarrow> bytes option" where
  "utf8_bytes n =
     (if n < 0x80 then Some [char_of n]
      else if n < 0x800 then Some [char_of (0xC0 + n div 64), char_of (0x80 + n mod 64)]
      else None)"

definition read_unicode :: "bytes \<Rightarrow> (bytes \<times> bytes) option" where
  "read_unicode s =
     (case s of
        a # b # c # d # rest \<Rightarrow>
          (case (hex_value a, hex_value b, hex_value c, hex_value d) of
             (Some i, Some j, Some k, Some l) \<Rightarrow>
               map_option (\<lambda>u. (u, rest)) (utf8_bytes (((i * 16 + j) * 16 + k) * 16 + l))
           | _ \<Rightarrow> None)
      | _ \<Rightarrow> None)"

definition simple_escape :: "char \<Rightarrow> char option" where
  "simple_escape c =
     (if c = backslash \<or> c = quote then Some c
      else if c = CHR ''n'' then Some newline
      else if c = CHR ''r'' then Some (CHR 0x0D)
      else if c = CHR ''t'' then Some (CHR 0x09)
      else if c = CHR ''b'' then Some (CHR 0x08)
      else if c = CHR ''f'' then Some (CHR 0x0C)
      else None)"

definition prepend :: "bytes \<Rightarrow> (bytes \<times> bytes) option \<Rightarrow> (bytes \<times> bytes) option" where
  "prepend p r = map_option (\<lambda>(s, rest). (p @ s, rest)) r"

function read_basic :: "bytes \<Rightarrow> (bytes \<times> bytes) option" where
  "read_basic [] = None"
| "read_basic (c # s) =
     (if c = quote then Some ([], s)
      else if c = backslash then
        (case s of
           [] \<Rightarrow> None
         | e # t \<Rightarrow>
             if e = CHR ''u'' then
               (case read_unicode t of
                  None \<Rightarrow> None
                | Some (u, rest) \<Rightarrow> if length rest < length t then prepend u (read_basic rest) else None)
             else (case simple_escape e of None \<Rightarrow> None | Some x \<Rightarrow> prepend [x] (read_basic t)))
      else if byte_in 0 0x1F c \<and> c \<noteq> CHR 0x09 \<or> c = CHR 0x7F then None
      else prepend [c] (read_basic s))"
  by pat_completeness auto
termination
  by (relation "measure length") (auto split: option.splits)

declare read_basic.simps(2) [simp del]

lemma prepend_simps [simp]:
  "prepend p None = None" "prepend p (Some (s, r)) = Some (p @ s, r)"
  "prepend p (prepend q x) = prepend (p @ q) x" "prepend [] x = x"
  by (cases x; auto simp: prepend_def)+

lemma hex_digits [simp]: "n < 16 \<Longrightarrow> hex_value (hex_upper n) = Some n"
  by (auto simp: hex_value_def hex_upper_def numeral_eq_Suc less_Suc_eq)

text \<open>One step of the reader, form by form.\<close>

lemma read_basic_steps:
  "read_basic (quote # s) = Some ([], s)"
  "simple_escape e = Some x \<Longrightarrow> read_basic (backslash # e # s) = prepend [x] (read_basic s)"
  "c \<noteq> quote \<Longrightarrow> c \<noteq> backslash \<Longrightarrow> \<not> byte_in 0 0x1F c \<Longrightarrow> c \<noteq> CHR 0x7F \<Longrightarrow>
     read_basic (c # s) = prepend [c] (read_basic s)"
  by (subst read_basic.simps(2), auto simp: simple_escape_def)+

lemma read_unicode_escape:
  assumes "n < 256"
  shows "read_basic (unicode_escape n @ s) = Option.bind (utf8_bytes n) (\<lambda>u. prepend u (read_basic s))"
proof -
  have "hex_value CHR ''0'' = Some 0" by (simp add: hex_value_def)
  then have "read_unicode (''00'' @ hex_upper (n div 16) # hex_upper (n mod 16) # s)
      = map_option (\<lambda>u. (u, s)) (utf8_bytes n)"
    using assms by (simp add: read_unicode_def)
  then show ?thesis
    by (simp add: unicode_escape_def) (subst read_basic.simps(2), cases "utf8_bytes n"; simp)
qed

lemma of_char_chars: "of_char c < (256 :: nat)"
  by (metis nat_of_char_less_256)

definition escaped_chars :: "char set" where
  "escaped_chars = {backslash, quote, newline, CHR 0x0D, CHR 0x09, CHR 0x08, CHR 0x0C}"

lemma toml_char_escaped: "c \<in> escaped_chars \<Longrightarrow> \<exists>e. toml_char c = [backslash, e] \<and> simple_escape e = Some c"
  by (auto simp: escaped_chars_def toml_char_def simple_escape_def)

lemma toml_char_other:
  "c \<notin> escaped_chars \<Longrightarrow>
     toml_char c = (if byte_in 0 0x1F c \<or> c = CHR 0x7F then unicode_escape (of_char c) else [c])"
  by (simp add: escaped_chars_def toml_char_def)

lemma read_toml_char: "read_basic (toml_char c @ s) = prepend [c] (read_basic s)"
proof (cases "c \<in> escaped_chars")
  case True
  then show ?thesis using toml_char_escaped read_basic_steps(2) by fastforce
next
  case False
  show ?thesis
  proof (cases "byte_in 0 0x1F c \<or> c = CHR 0x7F")
    case True
    then have "of_char c < (128 :: nat)" by (auto simp: byte_in_def)
    then have "utf8_bytes (of_char c) = Some [c]" by (simp add: utf8_bytes_def)
    with True False show ?thesis
      using read_unicode_escape [OF of_char_chars, of c s] by (simp add: toml_char_other)
  next
    case plain: False
    with False show ?thesis by (simp add: toml_char_other read_basic_steps escaped_chars_def)
  qed
qed

text \<open>A string written this way is read back as itself, whatever bytes it has.\<close>

lemma read_toml_chars: "read_basic (toml_chars s @ quote # rest) = Some (s, rest)"
proof (induction s rule: toml_chars.induct)
  case 1
  then show ?case by (simp add: read_basic_steps)
next
  case (2 c)
  then show ?case by (simp add: read_toml_char read_basic_steps)
next
  case (3 c d s)
  show ?case
  proof (cases "c = CHR 0xC2 \<and> byte_in 0x80 0x9F d")
    case True
    then have d: "(of_char d :: nat) \<ge> 128" "(of_char d :: nat) < 160" by (auto simp: byte_in_def)
    have two: "n div 64 = 2 \<and> 128 + n mod 64 = n" if "128 \<le> n" "n < 160" for n :: nat
    proof -
      have q: "n div 64 = 2" using that by (intro div_nat_eqI) simp_all
      show ?thesis using q div_mult_mod_eq [of n 64] by simp
    qed
    from two [OF d] d have "utf8_bytes (of_char d) = Some [char_of (194 :: nat), d]"
      by (simp add: utf8_bytes_def)
    moreover have "char_of (194 :: nat) = CHR 0xC2" by (simp add: char_of_eq_iff)
    ultimately show ?thesis
      using 3 True read_unicode_escape [OF of_char_chars, of d "toml_chars s @ quote # rest"] by simp
  next
    case False
    then have "toml_chars (c # d # s) = toml_char c @ toml_chars (d # s)" by auto
    with 3(2) [OF False] show ?thesis by (simp only: append_assoc read_toml_char prepend_simps append.simps)
  qed
qed

end
