(* ===== verification/CodexConfig.thy ===== *)
theory CodexConfig
  imports Toml Paths
begin

text \<open>
  nd7's hooks in a Codex configuration, from \<^verbatim>\<open>src/src/agent_config.rs\<close>: the line reader that finds the
  hooks a file already has, the tables that are appended, and the approvals written with them. The
  JSON text of a string (\<open>js\<close>) and the hex SHA-256 of a text (\<open>sha\<close>) are arguments. A path is what
  \<^verbatim>\<open>display()\<close> prints of it.
\<close>

section \<open>Constants\<close>

definition CODEX_RECORD_EVENTS :: "bytes list" where
  "CODEX_RECORD_EVENTS =
     [''SessionStart'', ''UserPromptSubmit'', ''PreToolUse'', ''PostToolUse'', ''Stop'', ''SessionEnd'']"

definition CODEX_EVENTS :: "bytes list" where
  "CODEX_EVENTS =
     [''PreToolUse'', ''PermissionRequest'', ''PostToolUse'', ''PreCompact'', ''PostCompact'',
      ''SessionStart'', ''SessionEnd'', ''UserPromptSubmit'', ''SubagentStart'', ''SubagentStop'',
      ''Stop'', ''Interrupt'']"

definition RECORD_TIMEOUT :: u64 where "RECORD_TIMEOUT = 5"
definition CODEX_SESSION_END_TIMEOUT :: u64 where "CODEX_SESSION_END_TIMEOUT = 3"
definition CODEX_PREFIX_TIMEOUT :: u64 where "CODEX_PREFIX_TIMEOUT = 30"
definition CODEX_DEFAULT_TIMEOUT :: u64 where "CODEX_DEFAULT_TIMEOUT = 600"
definition PREFIX_TAIL :: bytes where "PREFIX_TAIL = '' hook-prefix''"
definition RECORD_TAIL :: bytes where "RECORD_TAIL = ''nd7 record''"

definition prefix_hook_command :: "bytes \<Rightarrow> bytes" where
  "prefix_hook_command nd7 = nd7 @ PREFIX_TAIL"

section \<open>The hooks a file has\<close>

record codex_hook =
  ch_event :: bytes
  ch_group :: nat
  ch_handler :: nat
  ch_matcher :: "bytes option"
  ch_command :: bytes
  ch_timeout :: u64

text \<open>The variables of the loop.\<close>

record table_state =
  ts_tables :: "codex_hook list"
  ts_seen :: "bytes \<rightharpoonup> nat"
  ts_group :: "(bytes \<times> nat \<times> bytes option) option"
  ts_open :: "nat option"
  ts_handlers :: nat
  ts_command :: "bytes option"
  ts_timeout :: "u64 option"
  ts_is_command :: bool

definition table_start :: table_state where
  "table_start = \<lparr>ts_tables = [], ts_seen = Map.empty, ts_group = None, ts_open = None,
     ts_handlers = 0, ts_command = None, ts_timeout = None, ts_is_command = False\<rparr>"

text \<open>A line that is no header: a field of the handler that is open, or the matcher of the group.\<close>

definition field_line :: "table_state \<Rightarrow> bytes \<Rightarrow> table_state" where
  "field_line s line =
     (if ts_open s \<noteq> None then
        (case toml_value line ''command'' of
           Some v \<Rightarrow> s\<lparr>ts_command := toml_unquote v\<rparr>
         | None \<Rightarrow>
        (case toml_value line ''timeout'' of
           Some v \<Rightarrow> s\<lparr>ts_timeout := parse_u64 v\<rparr>
         | None \<Rightarrow>
        (case toml_value line ''type'' of
           Some v \<Rightarrow> s\<lparr>ts_is_command := (toml_unquote v = Some ''command'')\<rparr>
         | None \<Rightarrow> s)))
      else
        (case (ts_group s, toml_value line ''matcher'') of
           (Some (event, index, _), Some v) \<Rightarrow> s\<lparr>ts_group := Some (event, index, toml_unquote v)\<rparr>
         | _ \<Rightarrow> s))"

text \<open>A header closes the handler that is open, if it is complete.\<close>

definition close_table :: "table_state \<Rightarrow> table_state" where
  "close_table s =
     s\<lparr>ts_tables := ts_tables s @
          (case (ts_open s, ts_command s, ts_group s) of
             (Some handler, Some command, Some (event, index, matcher)) \<Rightarrow>
               if ts_is_command s \<and> event \<in> set CODEX_EVENTS then
                 [\<lparr>ch_event = event, ch_group = index, ch_handler = handler, ch_matcher = matcher,
                   ch_command = command,
                   ch_timeout = (case ts_timeout s of Some t \<Rightarrow> t | None \<Rightarrow> CODEX_DEFAULT_TIMEOUT)\<rparr>]
               else []
           | _ \<Rightarrow> []),
       ts_open := None, ts_command := None, ts_timeout := None, ts_is_command := False\<rparr>"

definition open_table :: "table_state \<Rightarrow> bytes \<Rightarrow> table_state" where
  "open_table s header =
     (case strip_prefix ''hooks.'' header of
        None \<Rightarrow> s\<lparr>ts_group := None\<rparr>
      | Some event \<Rightarrow>
          (case strip_suffix ''.hooks'' event of
             Some inner \<Rightarrow>
               if (case ts_group s of Some (open_event, _, _) \<Rightarrow> open_event = inner | None \<Rightarrow> False)
               then s\<lparr>ts_open := Some (ts_handlers s), ts_handlers := Suc (ts_handlers s)\<rparr>
               else s\<lparr>ts_group := None\<rparr>
           | None \<Rightarrow>
               (let count = (case ts_seen s event of Some n \<Rightarrow> n | None \<Rightarrow> 0) in
                s\<lparr>ts_group := Some (event, count, None), ts_seen := (ts_seen s)(event \<mapsto> Suc count),
                  ts_handlers := 0\<rparr>)))"

definition table_line :: "table_state \<Rightarrow> bytes \<Rightarrow> table_state" where
  "table_line s line =
     (let l = trim line in
      case strip_prefix ''['' l of
        None \<Rightarrow> field_line s l
      | Some header \<Rightarrow> open_table (close_table s) (trim (trim_brackets header)))"

definition codex_hook_tables :: "bytes \<Rightarrow> codex_hook list" where
  "codex_hook_tables text = ts_tables (foldl table_line table_start (text_lines text @ [''['']))"

section \<open>Approvals\<close>

text \<open>\<^verbatim>\<open>codex_event_label\<close>: an underscore before every capital letter but the first character's.\<close>

definition is_ascii_uppercase :: "char \<Rightarrow> bool" where
  "is_ascii_uppercase c \<longleftrightarrow> byte_in 0x41 0x5A c"

definition to_ascii_lowercase :: "char \<Rightarrow> char" where
  "to_ascii_lowercase c = (if is_ascii_uppercase c then char_of (of_char c + 32 :: nat) else c)"

definition label_char :: "char \<Rightarrow> bytes" where
  "label_char c = (if is_ascii_uppercase c then [CHR ''_'', to_ascii_lowercase c] else [c])"

definition codex_event_label :: "bytes \<Rightarrow> bytes" where
  "codex_event_label event =
     (case event of
        [] \<Rightarrow> []
      | c # s \<Rightarrow> to_ascii_lowercase c # concat (map label_char s))"

definition codex_trust_key :: "bytes \<Rightarrow> codex_hook \<Rightarrow> bytes" where
  "codex_trust_key config h =
     config @ '':'' @ codex_event_label (ch_event h) @ '':'' @ show_nat (ch_group h) @ '':''
     @ show_nat (ch_handler h)"

text \<open>The canonical JSON is printed with sorted keys, so \<^verbatim>\<open>matcher\<close> comes last.\<close>

definition codex_trust_hash ::
  "(bytes \<Rightarrow> bytes) \<Rightarrow> (bytes \<Rightarrow> bytes) \<Rightarrow> bytes \<Rightarrow> bytes option \<Rightarrow> bytes \<Rightarrow> u64 \<Rightarrow> bytes" where
  "codex_trust_hash js sha event matcher command timeout =
     ''sha256:'' @ sha (''{\"event_name\":'' @ js (codex_event_label event)
       @ '',\"hooks\":[{\"async\":false,\"command\":'' @ js command @ '',\"timeout\":'' @ show_u64 timeout
       @ '',\"type\":\"command\"}]''
       @ (case matcher of None \<Rightarrow> [] | Some m \<Rightarrow> '',\"matcher\":'' @ js m) @ ''}'')"

text \<open>The keys that carry a hash, and the key of the table that is open.\<close>

definition key_line :: "bytes list \<times> bytes option \<Rightarrow> bytes \<Rightarrow> bytes list \<times> bytes option" where
  "key_line s line =
     (let l = trim line in
      case strip_prefix ''['' l of
        Some header \<Rightarrow>
          (fst s, Option.bind (strip_prefix ''hooks.state.'' (trim (trim_brackets header))) toml_unquote)
      | None \<Rightarrow>
          (case snd s of
             Some key \<Rightarrow> if prefix ''trusted_hash'' l then (fst s @ [key], Some key) else s
           | None \<Rightarrow> s))"

definition codex_trust_keys_present :: "bytes \<Rightarrow> bytes list" where
  "codex_trust_keys_present text = fst (foldl key_line ([], None) (text_lines text))"

definition codex_trust_entries ::
  "(bytes \<Rightarrow> bytes) \<Rightarrow> (bytes \<Rightarrow> bytes) \<Rightarrow> bytes \<Rightarrow> bytes \<Rightarrow> bytes \<Rightarrow> bytes" where
  "codex_trust_entries js sha config ours text =
     (let trusted = codex_trust_keys_present text in
      concat (map (\<lambda>h.
        if \<not> prefix ours (ch_command h) then []
        else (let key = codex_trust_key config h in
          if key \<in> set trusted then []
          else unlines [
            '''',
            ''# nd7: approval Codex would otherwise ask for on first start. Installed by `nd7 init`.'',
            ''[hooks.state.'' @ toml_string key @ '']'',
            ''trusted_hash = \"'' @ codex_trust_hash js sha (ch_event h) (ch_matcher h) (ch_command h) (ch_timeout h)
              @ ''\"'']))
        (codex_hook_tables text)))"

section \<open>The install\<close>

definition installed_for :: "codex_hook list \<Rightarrow> bytes \<Rightarrow> bytes \<Rightarrow> bool" where
  "installed_for there event tail \<longleftrightarrow>
     (\<exists>h \<in> set there. ch_event h = event \<and> suffix tail (ch_command h))"

definition prefix_block :: "bytes \<Rightarrow> bytes" where
  "prefix_block command =
     unlines [
      '''',
      ''# nd7: routes every Bash command through nd7-exec. Installed by `nd7 init`.'',
      ''[[hooks.PreToolUse]]'',
      ''matcher = \"\"'',
      '''',
      ''[[hooks.PreToolUse.hooks]]'',
      ''type = \"command\"'',
      ''command = '' @ toml_string command,
      ''timeout = '' @ show_u64 CODEX_PREFIX_TIMEOUT]"

definition record_block :: "bytes \<Rightarrow> bytes \<Rightarrow> bytes" where
  "record_block command event =
     unlines [
      '''',
      ''# nd7: records this event in the session log. Installed by `nd7 init`.'',
      ''[[hooks.'' @ event @ '']]'',
      '''',
      ''[[hooks.'' @ event @ ''.hooks]]'',
      ''type = \"command\"'',
      ''command = '' @ toml_string command,
      ''timeout = '' @ show_u64 (if event = ''SessionEnd'' then CODEX_SESSION_END_TIMEOUT else RECORD_TIMEOUT)]"

definition hook_blocks :: "bytes \<Rightarrow> bytes \<Rightarrow> bytes" where
  "hook_blocks nd7 text =
     (let there = codex_hook_tables text in
      (if installed_for there ''PreToolUse'' PREFIX_TAIL then []
       else prefix_block (prefix_hook_command nd7))
      @ concat (map (\<lambda>event.
          if installed_for there event RECORD_TAIL then []
          else record_block (nd7 @ '' record'') event) CODEX_RECORD_EVENTS))"

definition newline_pad :: "bytes \<Rightarrow> bytes" where
  "newline_pad text = (if text = [] \<or> ends_with_newline text then [] else [newline])"

text \<open>What is appended to the file; \<^const>\<open>None\<close> is \<^verbatim>\<open>AlreadyInstalled\<close>.\<close>

definition install_codex ::
  "(bytes \<Rightarrow> bytes) \<Rightarrow> (bytes \<Rightarrow> bytes) \<Rightarrow> bytes \<Rightarrow> bytes \<Rightarrow> bytes \<Rightarrow> bytes option" where
  "install_codex js sha config nd7 text =
     (let pad = newline_pad text;
          blocks = hook_blocks nd7 text;
          add = blocks @ codex_trust_entries js sha config (nd7 @ '' '') (text @ pad @ blocks)
      in if add = [] then None else Some (pad @ add))"

definition codex_has_hook :: "bytes \<Rightarrow> bytes \<Rightarrow> bool" where
  "codex_has_hook nd7 text \<longleftrightarrow>
     (\<exists>h \<in> set (codex_hook_tables text).
        ch_event h = ''PreToolUse'' \<and> ch_command h = prefix_hook_command nd7)"

definition own_hooks :: "bytes \<Rightarrow> bytes \<Rightarrow> codex_hook list" where
  "own_hooks nd7 text = filter (\<lambda>h. prefix (nd7 @ '' '') (ch_command h)) (codex_hook_tables text)"

definition codex_hooks_trusted :: "bytes \<Rightarrow> bytes \<Rightarrow> bytes \<Rightarrow> bool" where
  "codex_hooks_trusted config nd7 text \<longleftrightarrow>
     own_hooks nd7 text \<noteq> []
     \<and> (\<forall>h \<in> set (own_hooks nd7 text).
          codex_trust_key config h \<in> set (codex_trust_keys_present text))"

end
