(* ===== verification/ClaudeConfig.thy ===== *)
theory ClaudeConfig
  imports CodexConfig
begin

text \<open>
  nd7's hooks in a Claude Code settings file, and the shell aliases, from
  \<^verbatim>\<open>src/src/agent_config.rs\<close>. A settings file is the JSON value it holds; \<^verbatim>\<open>serde_json\<close>'s parser and
  pretty printer are arguments. A number is kept as its text.
\<close>

datatype agent = Claude | Codex

definition agent_name :: "agent \<Rightarrow> bytes" where
  "agent_name a = (case a of Claude \<Rightarrow> ''claude'' | Codex \<Rightarrow> ''codex'')"

definition config_path :: "agent \<Rightarrow> bytes \<Rightarrow> bytes" where
  "config_path a root =
     (case a of
        Claude \<Rightarrow> path_join root ''.claude/settings.json''
      | Codex \<Rightarrow> path_join root ''.codex/config.toml'')"

section \<open>JSON values\<close>

datatype json =
    JNull
  | JBool bool
  | JNumber bytes
  | JString bytes
  | JArray "json list"
  | JObject "bytes \<rightharpoonup> json"

fun json_get :: "json \<Rightarrow> bytes \<Rightarrow> json option" where
  "json_get (JObject m) k = m k"
| "json_get _ k = None"

fun as_array :: "json \<Rightarrow> json list option" where
  "as_array (JArray vs) = Some vs"
| "as_array _ = None"

fun as_str :: "json \<Rightarrow> bytes option" where
  "as_str (JString s) = Some s"
| "as_str _ = None"

section \<open>The hooks of an entry\<close>

definition RECORD_EVENTS :: "bytes list" where
  "RECORD_EVENTS =
     [''SessionStart'', ''UserPromptSubmit'', ''PreToolUse'', ''PostToolUse'', ''PostToolUseFailure'',
      ''Stop'', ''SessionEnd'']"

definition CLAUDE_SESSION_END_TIMEOUT :: u64 where "CLAUDE_SESSION_END_TIMEOUT = 1"

definition hooks_of :: "json \<Rightarrow> json list" where
  "hooks_of entry =
     (case Option.bind (json_get entry ''hooks'') as_array of None \<Rightarrow> [] | Some hs \<Rightarrow> hs)"

definition command_of :: "json \<Rightarrow> bytes option" where
  "command_of hook = Option.bind (json_get hook ''command'') as_str"

definition command_ends :: "bytes \<Rightarrow> json \<Rightarrow> bool" where
  "command_ends tail hook = (case command_of hook of None \<Rightarrow> False | Some c \<Rightarrow> suffix tail c)"

definition has_record_hook :: "json \<Rightarrow> bool" where
  "has_record_hook entry \<longleftrightarrow>
     (\<exists>hook \<in> set (hooks_of entry).
        command_ends ''nd7'' hook
        \<and> Option.bind (json_get hook ''args'') as_array = Some [JString ''record''])"

definition has_prefix_hook :: "json \<Rightarrow> bool" where
  "has_prefix_hook entry \<longleftrightarrow> (\<exists>hook \<in> set (hooks_of entry). command_ends PREFIX_TAIL hook)"

definition claude_prefix_hook :: "bytes \<Rightarrow> json" where
  "claude_prefix_hook nd7 =
     JObject [''matcher'' \<mapsto> JString ''Bash'',
       ''hooks'' \<mapsto> JArray [JObject [''type'' \<mapsto> JString ''command'',
          ''command'' \<mapsto> JString (prefix_hook_command nd7)]]]"

definition claude_record_hook :: "bytes \<Rightarrow> bytes \<Rightarrow> json" where
  "claude_record_hook nd7 event =
     JObject [''hooks'' \<mapsto> JArray [JObject [''type'' \<mapsto> JString ''command'', ''command'' \<mapsto> JString nd7,
       ''args'' \<mapsto> JArray [JString ''record''],
       ''timeout'' \<mapsto> JNumber (show_u64
         (if event = ''SessionEnd'' then CLAUDE_SESSION_END_TIMEOUT else RECORD_TIMEOUT))]]]"

section \<open>The install\<close>

datatype config_error =
    Not_Read bytes
  | Not_Json
  | Root_Not_Object json
  | Hooks_Not_Object json
  | Event_Not_Array bytes json

definition read_json :: "(bytes \<Rightarrow> json option) \<Rightarrow> bytes \<Rightarrow> config_error + json" where
  "read_json parse text =
     (if trim text = [] then Inr (JObject Map.empty)
      else case parse text of None \<Rightarrow> Inl Not_Json | Some v \<Rightarrow> Inr v)"

definition entries_of :: "(bytes \<rightharpoonup> json) \<Rightarrow> bytes \<Rightarrow> config_error + json list" where
  "entries_of hooks event =
     (case hooks event of
        None \<Rightarrow> Inr []
      | Some (JArray entries) \<Rightarrow> Inr entries
      | Some other \<Rightarrow> Inl (Event_Not_Array event other))"

text \<open>One \<^verbatim>\<open>entries_of\<close>, guard and push; the state is the hooks and \<^verbatim>\<open>changed\<close>.\<close>

definition add_entry ::
  "(json \<Rightarrow> bool) \<Rightarrow> bytes \<Rightarrow> json \<Rightarrow> (bytes \<rightharpoonup> json) \<times> bool \<Rightarrow> config_error + (bytes \<rightharpoonup> json) \<times> bool" where
  "add_entry there event new s =
     (case entries_of (fst s) event of
        Inl e \<Rightarrow> Inl e
      | Inr entries \<Rightarrow>
          if \<exists>entry \<in> set entries. there entry then Inr s
          else Inr ((fst s)(event \<mapsto> JArray (entries @ [new])), True))"

fun add_records ::
  "bytes \<Rightarrow> bytes list \<Rightarrow> (bytes \<rightharpoonup> json) \<times> bool \<Rightarrow> config_error + (bytes \<rightharpoonup> json) \<times> bool" where
  "add_records nd7 [] s = Inr s"
| "add_records nd7 (event # events) s =
     (case add_entry has_record_hook event (claude_record_hook nd7 event) s of
        Inl e \<Rightarrow> Inl e
      | Inr s' \<Rightarrow> add_records nd7 events s')"

text \<open>The value that is written; \<^const>\<open>None\<close> is \<^verbatim>\<open>AlreadyInstalled\<close>.\<close>

definition install_claude :: "bytes \<Rightarrow> json \<Rightarrow> config_error + json option" where
  "install_claude nd7 v =
     (case v of
        JObject root \<Rightarrow>
          (case (case root ''hooks'' of None \<Rightarrow> JObject Map.empty | Some h \<Rightarrow> h) of
             JObject hooks \<Rightarrow>
               (case add_records nd7 RECORD_EVENTS (hooks, False) of
                  Inl e \<Rightarrow> Inl e
                | Inr s \<Rightarrow>
                    (case add_entry has_prefix_hook ''PreToolUse'' (claude_prefix_hook nd7) s of
                       Inl e \<Rightarrow> Inl e
                     | Inr (hooks', changed) \<Rightarrow>
                         Inr (if changed then Some (JObject (root(''hooks'' \<mapsto> JObject hooks'))) else None)))
           | other \<Rightarrow> Inl (Hooks_Not_Object other))
      | other \<Rightarrow> Inl (Root_Not_Object other))"

text \<open>On the file: the text that replaces it, if any.\<close>

definition install_claude_file ::
  "(bytes \<Rightarrow> json option) \<Rightarrow> (json \<Rightarrow> bytes) \<Rightarrow> bytes \<Rightarrow> bytes \<Rightarrow> config_error + bytes option" where
  "install_claude_file parse pretty nd7 text =
     (case read_json parse text of
        Inl e \<Rightarrow> Inl e
      | Inr v \<Rightarrow>
          (case install_claude nd7 v of
             Inl e \<Rightarrow> Inl e
           | Inr w \<Rightarrow> Inr (map_option (\<lambda>w. pretty w @ [newline]) w)))"

definition claude_has_hook_in :: "bytes \<Rightarrow> json \<Rightarrow> bool" where
  "claude_has_hook_in nd7 v \<longleftrightarrow>
     (case v of
        JObject root \<Rightarrow>
          (case Option.bind (Option.bind (root ''hooks'') (\<lambda>h. json_get h ''PreToolUse'')) as_array of
             None \<Rightarrow> False
           | Some entries \<Rightarrow>
               \<exists>hook \<in> set (concat (map hooks_of entries)). command_of hook = Some (prefix_hook_command nd7))
      | _ \<Rightarrow> False)"

definition claude_has_hook :: "(bytes \<Rightarrow> json option) \<Rightarrow> bytes \<Rightarrow> bytes \<Rightarrow> bool" where
  "claude_has_hook parse nd7 text =
     (case read_json parse text of Inl _ \<Rightarrow> False | Inr v \<Rightarrow> claude_has_hook_in nd7 v)"

section \<open>Aliases\<close>

definition alias_line :: "agent \<Rightarrow> bytes" where
  "alias_line a = ''alias '' @ agent_name a @ CHR ''='' # CHR 0x27 # ''nd7 run '' @ agent_name a @ [CHR 0x27]"

definition aliases_text :: "agent list \<Rightarrow> bytes" where
  "aliases_text agents =
     unlines ((''# Written by `nd7 init`. Each agent starts under nd7'' @ CHR 0x27
       # ''s sandbox. Remove the `source` line from your shell rc to disable.'') # map alias_line agents)"

definition SOURCE_LINE :: bytes where
  "SOURCE_LINE = ''[ -f \"$HOME/.nd7/aliases.sh\" ] && source \"$HOME/.nd7/aliases.sh\"  # nd7''"

text \<open>What is appended to the rc; \<^const>\<open>None\<close> when a line there mentions the aliases file.\<close>

definition source_aliases :: "bytes \<Rightarrow> bytes option" where
  "source_aliases text =
     (if \<exists>line \<in> set (text_lines text). sublist ''.nd7/aliases.sh'' line then None
      else Some (newline_pad text @ unlines [SOURCE_LINE]))"

end
