(* ===== verification/CodexProofs.thy ===== *)
theory CodexProofs
  imports CodexConfig
begin

text \<open>
  Facts about the Codex install: the lines a text has once more are appended, what the line reader
  makes of the tables and approvals that are written, and the file after an install.
\<close>

section \<open>Lines of a text that grows\<close>

definition plain_line :: "bytes \<Rightarrow> bool" where
  "plain_line l \<longleftrightarrow> newline \<notin> set l \<and> CHR 0x0D \<notin> set l"

lemma strip_suffix_None: "strip_suffix p s = None \<longleftrightarrow> \<not> suffix p s"
  by (simp add: strip_suffix_def strip_prefix_None suffix_to_prefix)

lemma text_line_newline: "l = [] \<or> last l \<noteq> CHR 0x0D \<Longrightarrow> text_line (l @ [newline]) = l"
  by (cases "strip_suffix [CHR 0x0D] l") (auto simp: text_line_def strip_suffix_Some)

lemma text_line_partial: "newline \<notin> set l \<Longrightarrow> text_line l = l"
  by (cases "strip_suffix [newline] l") (auto simp: text_line_def strip_suffix_Some)

lemma split_inclusive_unlines_append:
  "list_all one_line ls \<Longrightarrow>
   split_inclusive newline (unlines ls @ s) = map (\<lambda>l. l @ [newline]) ls @ split_inclusive newline s"
  by (induction ls) (simp_all add: one_line_def split_inclusive_append)

lemma text_lines_unlines:
  assumes "list_all one_line ms" "list_all plain_line ls"
  shows "text_lines (unlines ms @ unlines ls) = map (\<lambda>l. text_line (l @ [newline])) ms @ ls"
proof -
  have "map (\<lambda>l. text_line (l @ [newline])) ls = ls"
    using assms(2) by (intro map_idI text_line_newline) (auto simp: list_all_iff plain_line_def dest: last_in_set)
  moreover have "list_all one_line ls" using assms(2) by (auto simp: list_all_iff plain_line_def one_line_def)
  ultimately show ?thesis
    using assms(1) by (simp add: text_lines_def split_inclusive_unlines_append split_inclusive_unlines comp_def)
qed

lemma split_inclusive_line: "l \<noteq> [] \<Longrightarrow> newline \<notin> set l \<Longrightarrow> split_inclusive newline l = [l]"
proof (induction l)
  case (Cons a l)
  then show ?case by (cases "l = []") auto
qed simp

text \<open>Lines added to a text come after the lines it had, the last of which is ended first.\<close>

lemma text_pieces:
  obtains ms l where "text = unlines ms @ l" "list_all one_line ms" "newline \<notin> set l"
proof -
  have "list_all one_line (split_byte newline text)"
    using split_byte_pieces by (fastforce simp: list_all_iff one_line_def)
  moreover obtain ms l where p: "split_byte newline text = ms @ [l]"
    by (metis append_butlast_last_id split_byte_not_Nil)
  moreover have "(unlines ms @ l) @ [newline] = text @ [newline]"
    using unlines_split_byte [of "text"] p by simp
  ultimately show thesis using that [of ms l] by (simp add: one_line_def)
qed

lemma text_lines_grow:
  assumes "list_all plain_line ls" "text = [] \<or> last text \<noteq> CHR 0x0D"
  shows "text_lines (text @ newline_pad text @ unlines ls) = text_lines text @ ls"
proof (cases "text = [] \<or> ends_with_newline text")
  case True
  then obtain ms where ms: "text = unlines ms" "list_all one_line ms"
    by (metis list.pred_inject(1) terminated_linesE unlines_simps(1))
  then show ?thesis
    using True text_lines_unlines [OF ms(2) assms(1)] text_lines_unlines [OF ms(2), of "[]"]
    by (simp add: newline_pad_def)
next
  case False
  obtain ms l where t: "text = unlines ms @ l" "list_all one_line ms" "newline \<notin> set l"
    by (rule text_pieces)
  have l: "l \<noteq> []" using False t(1) by (metis append_Nil2 ends_with_newline_unlines unlines_eq_Nil)
  then have last: "last l \<noteq> CHR 0x0D" using assms(2) t(1) by simp
  have "text_lines text = map (\<lambda>l. text_line (l @ [newline])) ms @ [l]"
    using t l by (simp add: text_lines_def split_inclusive_unlines_append split_inclusive_line text_line_partial comp_def)
  moreover have eq: "text @ newline_pad text @ unlines ls = unlines (ms @ [l]) @ unlines ls"
    using False t(1) by (simp add: newline_pad_def)
  moreover have "list_all one_line (ms @ [l])" using t by (simp add: one_line_def)
  ultimately show ?thesis
    unfolding eq using text_lines_unlines [of "ms @ [l]" ls] assms(1) text_line_newline last by simp
qed

section \<open>What the reader makes of the tables that are written\<close>

text \<open>Text that is written without an escape: printable ASCII without quotes and backslashes.\<close>

definition plain_text :: "bytes \<Rightarrow> bool" where
  "plain_text s \<longleftrightarrow> list_all (\<lambda>c. byte_in 0x20 0x7E c \<and> c \<noteq> quote \<and> c \<noteq> backslash) s"

lemma plain_text_append [simp]: "plain_text (s @ t) \<longleftrightarrow> plain_text s \<and> plain_text t"
  by (simp add: plain_text_def)

lemma plain_text_Cons: "plain_text (c # s) \<longleftrightarrow> byte_in 0x20 0x7E c \<and> c \<noteq> quote \<and> c \<noteq> backslash \<and> plain_text s"
  by (simp add: plain_text_def)

lemma printable:
  "byte_in 0x20 0x7E c \<Longrightarrow> c \<noteq> newline \<and> c \<noteq> CHR 0x0D \<and> c \<noteq> CHR 0x09 \<and> c \<noteq> CHR 0x08
     \<and> c \<noteq> CHR 0x0C \<and> c \<noteq> CHR 0x7F \<and> c \<noteq> CHR 0xC2 \<and> \<not> byte_in 0 0x1F c"
  by (auto simp: byte_in_def)

lemma plain_text_chars: "plain_text s \<Longrightarrow> quote \<notin> set s \<and> plain_line s"
  by (induction s) (auto simp: plain_text_Cons plain_line_def dest: printable)

lemma toml_plain: "plain_text s \<Longrightarrow> toml_string s = quote # s @ [quote]"
proof -
  have one: "toml_char c = [c]" "c \<noteq> CHR 0xC2" if "byte_in 0x20 0x7E c" "c \<noteq> quote" "c \<noteq> backslash" for c
    using that printable [of c] by (simp_all add: toml_char_def)
  assume "plain_text s"
  then have "toml_chars s = s"
    by (induction s rule: toml_chars.induct) (auto simp: plain_text_Cons one)
  then show ?thesis by (simp add: toml_string_def)
qed

lemma unquote_plain: "plain_text s \<Longrightarrow> toml_unquote (toml_string s) = Some s"
  using plain_text_chars [of s] by (simp add: toml_plain toml_unquote_def)

text \<open>The lines of a hook: its comment, group and handler.\<close>

record block =
  bl_comment :: bytes
  bl_event :: bytes
  bl_matcher :: bool
  bl_command :: bytes
  bl_timeout :: u64

definition block_lines :: "block \<Rightarrow> bytes list" where
  "block_lines b =
     ['''', bl_comment b, ''[[hooks.'' @ bl_event b @ '']]'']
     @ (if bl_matcher b then [''matcher = \"\"''] else [])
     @ ['''', ''[[hooks.'' @ bl_event b @ ''.hooks]]'', ''type = \"command\"'',
        ''command = '' @ toml_string (bl_command b), ''timeout = '' @ show_u64 (bl_timeout b)]"

definition comment_line :: "bytes \<Rightarrow> bool" where
  "comment_line l \<longleftrightarrow> l \<noteq> [] \<and> hd l = CHR ''#'' \<and> byte_in 0x21 0x7E (last l)"

definition good_block :: "block \<Rightarrow> bool" where
  "good_block b \<longleftrightarrow> bl_event b \<in> set CODEX_EVENTS \<and> plain_text (bl_command b)
     \<and> plain_line (bl_comment b) \<and> comment_line (bl_comment b)"

definition event_text :: "bytes \<Rightarrow> bool" where
  "event_text ev \<longleftrightarrow> ev \<noteq> [] \<and> list_all is_ascii_alphanumeric ev"

lemma codex_events_text: "ev \<in> set CODEX_EVENTS \<Longrightarrow> event_text ev"
  by (auto simp: CODEX_EVENTS_def event_text_def is_ascii_alphanumeric_def)

lemma alphanumeric_char:
  "is_ascii_alphanumeric c \<Longrightarrow> byte_in 0x21 0x7E c \<and> \<not> bracket c \<and> c \<noteq> CHR ''.'' \<and> c \<noteq> quote
     \<and> c \<noteq> backslash \<and> c \<noteq> newline \<and> c \<noteq> CHR 0x0D"
  by (auto simp: is_ascii_alphanumeric_def bracket_def byte_in_def)

lemma event_text_last: "event_text ev \<Longrightarrow> is_ascii_alphanumeric (last ev)"
  by (auto simp: event_text_def list_all_iff)

lemma trim_line [simp]: "trim [] = []"
  by (simp add: trim_def trim_end_def)

lemma trim_brackets_middle:
  assumes "s \<noteq> []" "\<not> bracket (hd s)" "\<not> bracket (last s)" "list_all bracket a" "list_all bracket b"
  shows "trim_brackets (a @ s @ b) = s"
proof -
  have skip: "dropWhile bracket (xs @ ys) = ys" if "list_all bracket xs" "ys \<noteq> []" "\<not> bracket (hd ys)" for xs ys
    using that by (induction xs) (auto simp: dropWhile_eq_self_iff)
  have "dropWhile bracket (a @ s @ b) = s @ b" using assms by (intro skip) auto
  moreover have "dropWhile bracket (rev b @ rev s) = rev s"
    using assms by (intro skip) (auto simp: hd_rev)
  ultimately show ?thesis by (simp add: trim_brackets_def)
qed

text \<open>The headers the reader sees.\<close>

lemma group_header:
  assumes "event_text ev"
  shows "table_line s (''[[hooks.'' @ ev @ '']]'') =
    (let c = close_table s; n = (case ts_seen c ev of Some n \<Rightarrow> n | None \<Rightarrow> 0) in
     c\<lparr>ts_group := Some (ev, n, None), ts_seen := (ts_seen c)(ev \<mapsto> Suc n), ts_handlers := 0\<rparr>)"
proof -
  have l: "byte_in 0x21 0x7E (last (''hooks.'' @ ev))" "\<not> bracket (last (''hooks.'' @ ev))" "ev \<noteq> []"
    using alphanumeric_char [OF event_text_last [OF assms]] assms by (auto simp: event_text_def)
  have t: "trim (''[[hooks.'' @ ev @ '']]'') = ''[[hooks.'' @ ev @ '']]''"
    by (rule trim_printable) (simp_all add: byte_in_def)
  have b: "trim_brackets (''['' @ (''hooks.'' @ ev) @ '']]'') = ''hooks.'' @ ev"
    using l by (intro trim_brackets_middle) (auto simp: bracket_def)
  have h: "trim (''hooks.'' @ ev) = ''hooks.'' @ ev"
    using l by (intro trim_printable) (auto simp: byte_in_def)
  have "\<not> suffix ''.hooks'' ev"
    using assms by (auto simp: suffix_def event_text_def is_ascii_alphanumeric_def [of "CHR ''.''"])
  then have "strip_suffix ''.hooks'' ev = None" by (simp add: strip_suffix_None)
  with t b h show ?thesis by (simp add: table_line_def open_table_def Let_def)
qed

lemma handler_header:
  assumes "event_text ev" "ts_group s = Some (ev, n, m)" "ts_open s = None"
  shows "table_line s (''[[hooks.'' @ ev @ ''.hooks]]'') =
    (close_table s)\<lparr>ts_open := Some (ts_handlers s), ts_handlers := Suc (ts_handlers s)\<rparr>"
proof -
  have t: "trim (''[[hooks.'' @ ev @ ''.hooks]]'') = ''[[hooks.'' @ ev @ ''.hooks]]''"
    by (rule trim_printable) (simp_all add: byte_in_def)
  have b: "trim_brackets (''['' @ (''hooks.'' @ ev @ ''.hooks'') @ '']]'') = ''hooks.'' @ ev @ ''.hooks''"
    by (intro trim_brackets_middle) (auto simp: bracket_def)
  have h: "trim (''hooks.'' @ ev @ ''.hooks'') = ''hooks.'' @ ev @ ''.hooks''"
    by (intro trim_printable) (auto simp: byte_in_def)
  have "strip_suffix ''.hooks'' (ev @ ''.hooks'') = Some ev" by simp
  with t b h assms show ?thesis by (simp add: table_line_def open_table_def close_table_def)
qed

text \<open>Blank and comment lines change nothing.\<close>

lemma no_field:
  "table_line s [] = s"
  "comment_line l \<Longrightarrow> table_line s l = s"
proof -
  show "table_line s [] = s"
    by (auto simp: table_line_def field_line_def toml_value_def split: option.split)
  assume c: "comment_line l"
  then obtain u where l: "l = CHR ''#'' # u" by (cases l) (auto simp: comment_line_def)
  have "trim l = l" using c by (intro trim_printable) (auto simp: comment_line_def byte_in_def)
  then show "table_line s l = s"
    using l by (auto simp: table_line_def Let_def field_line_def toml_value_def split: option.split)
qed

lemma toml_value_eq: "toml_value (key @ '' = '' @ v) key = Some (trim_start v)"
proof -
  have "trim_start (CHR ''='' # CHR '' '' # v) = CHR ''='' # CHR '' '' # v"
    by (rule trim_start_plain) (simp_all add: ws1_def byte_in_def)
  then have "trim_start ('' = '' @ v) = CHR ''='' # CHR '' '' # v" by (simp add: ws1_def)
  moreover have "trim_start (CHR '' '' # v) = trim_start v" by (simp add: ws1_def)
  ultimately show ?thesis by (simp add: toml_value_def del: trim_start.simps)
qed

lemmas toml_values = toml_value_eq [of "''command''", simplified] toml_value_eq [of "''timeout''", simplified]
  toml_value_eq [of "''type''", simplified] toml_value_eq [of "''matcher''", simplified]

lemma not_value: "\<not> prefix key l \<Longrightarrow> toml_value l key = None"
  by (simp add: toml_value_def strip_prefix_None [symmetric])

lemma trim_start_quote: "trim_start (quote # s) = quote # s"
  by (rule trim_start_plain) (simp_all add: ws1_def byte_in_def)

text \<open>The fields.\<close>

lemma field_lines:
  assumes "ts_open s = Some k"
  shows "table_line s ''type = \"command\"'' = s\<lparr>ts_is_command := True\<rparr>"
    and "plain_text c \<Longrightarrow> table_line s (''command = '' @ toml_string c) = s\<lparr>ts_command := Some c\<rparr>"
    and "table_line s (''timeout = '' @ show_u64 t) = s\<lparr>ts_timeout := Some t\<rparr>"
proof -
  have "trim ''type = \"command\"'' = ''type = \"command\"''" by (rule trim_printable) (simp_all add: byte_in_def)
  then show "table_line s ''type = \"command\"'' = s\<lparr>ts_is_command := True\<rparr>"
    using assms by (simp add: table_line_def field_line_def toml_values not_value trim_start_quote toml_unquote_def del: trim_start.simps)
next
  assume c: "plain_text c"
  have "trim (''command = '' @ toml_string c) = ''command = '' @ toml_string c"
    by (rule trim_printable) (simp_all add: byte_in_def toml_string_def)
  moreover have "trim_start (toml_string c) = toml_string c"
    by (simp add: toml_string_def trim_start_quote del: trim_start.simps)
  ultimately show "table_line s (''command = '' @ toml_string c) = s\<lparr>ts_command := Some c\<rparr>"
    using assms unquote_plain [OF c]
    by (simp add: table_line_def field_line_def toml_values del: trim_start.simps)
next
  obtain d r where u: "show_u64 t = d # r" "is_ascii_digit d"
    unfolding show_u64_def by (rule show_nat_head)
  have d: "is_ascii_digit x \<Longrightarrow> byte_in 0x21 0x7E x \<and> \<not> ws1 x \<and> x \<notin> {CHR 0xC2, CHR 0xE1, CHR 0xE2, CHR 0xE3}" for x
    by (auto simp: is_ascii_digit_def byte_in_def ws1_def)
  have "is_ascii_digit (last (show_u64 t))" using show_u64_chars last_in_set show_u64_not_Nil by blast
  then have "trim (''timeout = '' @ show_u64 t) = ''timeout = '' @ show_u64 t"
    using d by (intro trim_printable) (simp_all add: byte_in_def)
  moreover have "trim_start (show_u64 t) = show_u64 t"
    using d u by (metis trim_start_plain)
  ultimately show "table_line s (''timeout = '' @ show_u64 t) = s\<lparr>ts_timeout := Some t\<rparr>"
    using assms by (simp add: table_line_def field_line_def toml_values not_value del: trim_start.simps)
qed

lemma matcher_line:
  assumes "ts_open s = None" "ts_group s = Some (ev, n, m)"
  shows "table_line s ''matcher = \"\"'' = s\<lparr>ts_group := Some (ev, n, Some [])\<rparr>"
proof -
  have "trim ''matcher = \"\"'' = ''matcher = \"\"''" by (rule trim_printable) (simp_all add: byte_in_def)
  then show ?thesis
    using assms by (simp add: table_line_def field_line_def toml_values trim_start_quote toml_unquote_def del: trim_start.simps)
qed

text \<open>The hooks a text would have if it ended here.\<close>

definition closed_tables :: "table_state \<Rightarrow> codex_hook list" where
  "closed_tables s = ts_tables (close_table s)"

lemma closed_tables_text: "codex_hook_tables t = closed_tables (foldl table_line table_start (text_lines t))"
proof -
  have "trim ''['' = ''[''" by (rule trim_printable) (simp_all add: byte_in_def)
  then show ?thesis
    by (simp add: codex_hook_tables_def table_line_def trim_brackets_def open_table_def closed_tables_def)
qed

lemma close_table_idle: "ts_open s = None \<Longrightarrow> ts_tables (close_table s) = ts_tables s"
  by (simp add: close_table_def)

lemma close_table_fields [simp]:
  "ts_open (close_table s) = None" "ts_seen (close_table s) = ts_seen s"
  "ts_group (close_table s) = ts_group s" "ts_handlers (close_table s) = ts_handlers s"
  "ts_command (close_table s) = None" "ts_timeout (close_table s) = None"
  "\<not> ts_is_command (close_table s)"
  by (simp_all add: close_table_def)

lemma block_tables:
  assumes "good_block b"
  obtains h where "closed_tables (foldl table_line s (block_lines b)) = closed_tables s @ [h]"
    "ch_event h = bl_event b" "ch_command h = bl_command b"
proof -
  let ?ev = "bl_event b" and ?c = "close_table s" and ?m = "if bl_matcher b then Some [] else None"
  define gh hh where "gh = ''[[hooks.'' @ ?ev @ '']]''" and "hh = ''[[hooks.'' @ ?ev @ ''.hooks]]''"
  have ev: "event_text ?ev" "?ev \<in> set CODEX_EVENTS" and cm: "comment_line (bl_comment b)"
    and pt: "plain_text (bl_command b)"
    using assms codex_events_text by (auto simp: good_block_def)
  obtain n where n: "table_line s gh =
      ?c\<lparr>ts_group := Some (?ev, n, None), ts_seen := (ts_seen s)(?ev \<mapsto> Suc n), ts_handlers := 0\<rparr>"
    using group_header [OF ev(1), of s] by (auto simp: Let_def gh_def)
  let ?g = "?c\<lparr>ts_group := Some (?ev, n, ?m), ts_seen := (ts_seen s)(?ev \<mapsto> Suc n), ts_handlers := 0\<rparr>"
  have h: "table_line ?g hh = (close_table ?g)\<lparr>ts_open := Some 0, ts_handlers := 1\<rparr>"
    using handler_header [OF ev(1), of ?g n ?m] by (simp add: hh_def)
  have "block_lines b = ([[], bl_comment b, gh] @ (if bl_matcher b then [''matcher = \"\"''] else []))
      @ [[], hh, ''type = \"command\"'', ''command = '' @ toml_string (bl_command b),
         ''timeout = '' @ show_u64 (bl_timeout b)]"
    by (simp add: block_lines_def gh_def hh_def)
  moreover have "foldl table_line s ([[], bl_comment b, gh] @ (if bl_matcher b then [''matcher = \"\"''] else [])) = ?g"
    by (cases "bl_matcher b") (simp_all add: no_field cm n matcher_line)
  ultimately have all: "foldl table_line s (block_lines b) =
      (close_table ?g)\<lparr>ts_open := Some 0, ts_handlers := 1, ts_is_command := True,
        ts_command := Some (bl_command b), ts_timeout := Some (bl_timeout b)\<rparr>"
    by (simp only: foldl_append foldl.simps no_field h) (simp add: field_lines pt del: append.simps)
  have "ts_tables (close_table ?g) = closed_tables s"
    by (simp add: close_table_idle closed_tables_def)
  with all have "closed_tables (foldl table_line s (block_lines b)) = closed_tables s @
      [\<lparr>ch_event = ?ev, ch_group = n, ch_handler = 0, ch_matcher = ?m, ch_command = bl_command b,
        ch_timeout = bl_timeout b\<rparr>]"
    using ev(2) by (simp add: closed_tables_def) (simp add: close_table_def)
  then show thesis by (rule that) simp_all
qed

lemma blocks_tables:
  assumes "list_all good_block bs"
  obtains hs where "closed_tables (foldl table_line s (concat (map block_lines bs))) = closed_tables s @ hs"
    "map (\<lambda>h. (ch_event h, ch_command h)) hs = map (\<lambda>b. (bl_event b, bl_command b)) bs"
  using assms
proof (induction bs arbitrary: s thesis)
  case Nil
  then show ?case by simp
next
  case (Cons b bs)
  obtain h where h: "closed_tables (foldl table_line s (block_lines b)) = closed_tables s @ [h]"
    "ch_event h = bl_event b" "ch_command h = bl_command b"
    using block_tables Cons.prems(2) by auto
  have "list_all good_block bs" using Cons.prems(2) by simp
  then obtain hs where "closed_tables (foldl table_line (foldl table_line s (block_lines b)) (concat (map block_lines bs)))
      = closed_tables (foldl table_line s (block_lines b)) @ hs"
    "map (\<lambda>h. (ch_event h, ch_command h)) hs = map (\<lambda>b. (bl_event b, bl_command b)) bs"
    by (rule Cons.IH [rotated])
  with h show ?case by (intro Cons.prems(1) [of "h # hs"]) simp_all
qed

section \<open>Approvals\<close>

text \<open>The lines of one approval.\<close>

definition approval_lines :: "bytes \<times> bytes \<Rightarrow> bytes list" where
  "approval_lines a =
     ['''',
      ''# nd7: approval Codex would otherwise ask for on first start. Installed by `nd7 init`.'',
      ''[hooks.state.'' @ toml_string (fst a) @ '']'',
      ''trusted_hash = \"'' @ snd a @ ''\"'']"

definition good_approval :: "bytes \<times> bytes \<Rightarrow> bool" where
  "good_approval a \<longleftrightarrow> plain_text (fst a) \<and> plain_line (snd a)"

definition state_header :: "bytes \<Rightarrow> bytes" where
  "state_header key = ''hooks.state.'' @ toml_string key"

lemma state_header_line:
  "trim (''[hooks.state.'' @ toml_string key @ '']'') = ''[hooks.state.'' @ toml_string key @ '']''"
  "trim (trim_brackets (''hooks.state.'' @ toml_string key @ '']'')) = state_header key"
proof -
  show "trim (''[hooks.state.'' @ toml_string key @ '']'') = ''[hooks.state.'' @ toml_string key @ '']''"
    by (rule trim_printable) (simp_all add: byte_in_def)
  have "trim_brackets ([] @ state_header key @ '']'') = state_header key"
    by (rule trim_brackets_middle) (simp_all add: state_header_def toml_string_def bracket_def)
  moreover have "trim (state_header key) = state_header key"
    by (rule trim_printable) (simp_all add: state_header_def toml_string_def byte_in_def)
  ultimately show "trim (trim_brackets (''hooks.state.'' @ toml_string key @ '']'')) = state_header key"
    by (simp add: state_header_def)
qed

lemma hash_line: "trim (''trusted_hash = \"'' @ h @ ''\"'') = ''trusted_hash = \"'' @ h @ ''\"''"
  by (rule trim_printable) (simp_all add: byte_in_def)

lemma approval_comment:
  "comment_line ''# nd7: approval Codex would otherwise ask for on first start. Installed by `nd7 init`.''"
  by (simp add: comment_line_def byte_in_def)

lemma approval_tables: "closed_tables (foldl table_line s (approval_lines a)) = closed_tables s"
proof -
  have "\<not> suffix ''.hooks'' (''state.'' @ toml_string (fst a))"
    by (auto simp: suffix_def toml_string_def)
  then have none: "strip_suffix ''.hooks'' (''state.'' @ toml_string (fst a)) = None"
    by (simp add: strip_suffix_None)
  obtain s1 where s1: "table_line s (''[hooks.state.'' @ toml_string (fst a) @ '']'') = s1"
    "ts_open s1 = None" "ts_tables s1 = closed_tables s"
    using state_header_line [of "fst a"] none
    by (simp add: table_line_def open_table_def state_header_def Let_def closed_tables_def)
  have "ts_open (table_line s1 (''trusted_hash = \"'' @ snd a @ ''\"'')) = None \<and>
      ts_tables (table_line s1 (''trusted_hash = \"'' @ snd a @ ''\"'')) = ts_tables s1"
    using s1(2) hash_line [of "snd a"]
    by (simp add: table_line_def field_line_def not_value split: option.split)
  with s1 show ?thesis
    by (simp add: approval_lines_def no_field approval_comment) (simp add: closed_tables_def close_table_idle)
qed

lemma approvals_tables:
  "closed_tables (foldl table_line s (concat (map approval_lines as))) = closed_tables s"
  by (induction as arbitrary: s) (simp_all add: approval_tables)

lemma key_line_grows: "set (fst s) \<subseteq> set (fst (key_line s l))"
  by (auto simp: key_line_def Let_def split: option.split)

lemma key_lines_grow: "set (fst s) \<subseteq> set (fst (foldl key_line s ls))"
proof (induction ls arbitrary: s)
  case (Cons l ls)
  then show ?case using key_line_grows [of s l] by (metis foldl_Cons order_trans)
qed simp

lemma approval_key:
  assumes "plain_text (fst a)"
  shows "fst a \<in> set (fst (foldl key_line s (approval_lines a)))"
proof -
  have "key_line t (''[hooks.state.'' @ toml_string (fst a) @ '']'') = (fst t, Some (fst a))" for t
    using state_header_line [of "fst a"] unquote_plain [OF assms]
    by (simp add: key_line_def state_header_def)
  moreover have "key_line (ks, Some (fst a)) (''trusted_hash = \"'' @ snd a @ ''\"'') = (ks @ [fst a], Some (fst a))" for ks
    using hash_line [of "snd a"] by (simp add: key_line_def)
  ultimately show ?thesis by (simp add: approval_lines_def)
qed

lemma approvals_keys:
  assumes "list_all good_approval as"
  shows "set (fst s) \<union> fst ` set as \<subseteq> set (fst (foldl key_line s (concat (map approval_lines as))))"
  using assms
proof (induction as arbitrary: s)
  case (Cons a as)
  let ?t = "foldl key_line s (approval_lines a)"
  have "fst a \<in> set (fst ?t)" using Cons.prems by (intro approval_key) (simp add: good_approval_def)
  then show ?case using Cons.IH [of ?t] Cons.prems key_lines_grow [of s "approval_lines a"] by auto
qed simp

section \<open>The install, block by block\<close>

definition prefix_spec :: "bytes \<Rightarrow> block" where
  "prefix_spec nd7 =
     \<lparr>bl_comment = ''# nd7: routes every Bash command through nd7-exec. Installed by `nd7 init`.'',
      bl_event = ''PreToolUse'', bl_matcher = True, bl_command = prefix_hook_command nd7,
      bl_timeout = CODEX_PREFIX_TIMEOUT\<rparr>"

definition record_spec :: "bytes \<Rightarrow> bytes \<Rightarrow> block" where
  "record_spec nd7 event =
     \<lparr>bl_comment = ''# nd7: records this event in the session log. Installed by `nd7 init`.'',
      bl_event = event, bl_matcher = False, bl_command = nd7 @ '' record'',
      bl_timeout = (if event = ''SessionEnd'' then CODEX_SESSION_END_TIMEOUT else RECORD_TIMEOUT)\<rparr>"

definition wanted :: "bytes \<Rightarrow> codex_hook list \<Rightarrow> block list" where
  "wanted nd7 there =
     (if installed_for there ''PreToolUse'' PREFIX_TAIL then [] else [prefix_spec nd7])
     @ map (record_spec nd7) (filter (\<lambda>ev. \<not> installed_for there ev RECORD_TAIL) CODEX_RECORD_EVENTS)"

definition missing_approvals ::
  "(bytes \<Rightarrow> bytes) \<Rightarrow> (bytes \<Rightarrow> bytes) \<Rightarrow> bytes \<Rightarrow> bytes \<Rightarrow> bytes \<Rightarrow> (bytes \<times> bytes) list" where
  "missing_approvals js sha config ours text =
     map (\<lambda>h. (codex_trust_key config h,
               codex_trust_hash js sha (ch_event h) (ch_matcher h) (ch_command h) (ch_timeout h)))
       (filter (\<lambda>h. prefix ours (ch_command h)
            \<and> codex_trust_key config h \<notin> set (codex_trust_keys_present text))
          (codex_hook_tables text))"

lemma own_pending:
  "h \<in> set (codex_hook_tables t) \<Longrightarrow> prefix ours (ch_command h) \<Longrightarrow>
     codex_trust_key config h \<in> set (codex_trust_keys_present t) \<union> fst ` set (missing_approvals js sha config ours t)"
  by (cases "codex_trust_key config h \<in> set (codex_trust_keys_present t)") (force simp: missing_approvals_def)+

lemma unlines_concat: "unlines (concat (map f xs)) = concat (map (\<lambda>x. unlines (f x)) xs)"
  by (induction xs) (simp_all add: unlines_simps)

lemma concat_if: "concat (map (\<lambda>x. if P x then [] else f x) xs) = concat (map f (filter (\<lambda>x. \<not> P x) xs))"
  by (induction xs) auto

lemma prefix_block_lines: "prefix_block (prefix_hook_command nd7) = unlines (block_lines (prefix_spec nd7))"
  by (simp add: prefix_block_def block_lines_def prefix_spec_def)

lemma record_block_lines: "record_block (nd7 @ '' record'') ev = unlines (block_lines (record_spec nd7 ev))"
  by (simp add: record_block_def block_lines_def record_spec_def)

lemma hook_blocks_lines:
  "hook_blocks nd7 text = unlines (concat (map block_lines (wanted nd7 (codex_hook_tables text))))"
  unfolding hook_blocks_def wanted_def Let_def concat_if record_block_lines
  by (simp add: unlines_simps unlines_concat prefix_block_lines comp_def)

lemma trust_entries_lines:
  "codex_trust_entries js sha config ours text
     = unlines (concat (map approval_lines (missing_approvals js sha config ours text)))"
proof -
  have nest: "(if \<not> a then [] else (if b then [] else z)) = (if \<not> a \<or> b then [] else z)" for a b and z :: bytes
    by simp
  show ?thesis
    unfolding codex_trust_entries_def Let_def nest concat_if unlines_concat missing_approvals_def
    by (simp add: approval_lines_def comp_def)
qed

text \<open>Every hook that is read is for one of Codex's events.\<close>

lemma tables_events:
  "list_all (\<lambda>h. ch_event h \<in> set CODEX_EVENTS) (ts_tables s) \<Longrightarrow>
     list_all (\<lambda>h. ch_event h \<in> set CODEX_EVENTS) (ts_tables (close_table s))"
  by (auto simp: close_table_def split: option.split)

lemma field_tables: "ts_tables (field_line s l) = ts_tables s"
  by (auto simp: field_line_def split: option.split)

lemma open_tables: "ts_tables (open_table s h) = ts_tables s"
  by (auto simp: open_table_def Let_def split: option.split)

lemma fold_events:
  "list_all (\<lambda>h. ch_event h \<in> set CODEX_EVENTS) (ts_tables s) \<Longrightarrow>
     list_all (\<lambda>h. ch_event h \<in> set CODEX_EVENTS) (ts_tables (foldl table_line s ls))"
proof (induction ls arbitrary: s)
  case (Cons l ls)
  have "list_all (\<lambda>h. ch_event h \<in> set CODEX_EVENTS) (ts_tables (table_line s l))"
    using Cons.prems tables_events [of s]
    by (auto simp: table_line_def Let_def field_tables open_tables split: option.split)
  then show ?case using Cons.IH by simp
qed simp

lemma hook_events: "h \<in> set (codex_hook_tables text) \<Longrightarrow> ch_event h \<in> set CODEX_EVENTS"
  using tables_events [OF fold_events, of table_start "text_lines text"]
  by (simp add: closed_tables_text closed_tables_def table_start_def list_all_iff)

lemma label_plain: "ev \<in> set CODEX_EVENTS \<Longrightarrow> plain_text (codex_event_label ev)"
  by (auto simp: CODEX_EVENTS_def codex_event_label_def to_ascii_lowercase_def label_char_def
      is_ascii_uppercase_def byte_in_def plain_text_def char_of_def)

lemma digits_plain: "plain_text (show_nat n)"
proof -
  have "is_ascii_digit c \<Longrightarrow> byte_in 0x20 0x7E c \<and> c \<noteq> quote \<and> c \<noteq> backslash" for c
    by (auto simp: is_ascii_digit_def byte_in_def)
  then show ?thesis using show_nat_digits by (simp add: plain_text_def list_all_iff)
qed

lemma key_plain:
  "plain_text config \<Longrightarrow> h \<in> set (codex_hook_tables text) \<Longrightarrow> plain_text (codex_trust_key config h)"
  using label_plain [OF hook_events]
  by (auto simp: codex_trust_key_def digits_plain) (simp_all add: plain_text_Cons digits_plain byte_in_def)

section \<open>Installing twice\<close>

definition installed :: "(bytes \<Rightarrow> bytes) \<Rightarrow> (bytes \<Rightarrow> bytes) \<Rightarrow> bytes \<Rightarrow> bytes \<Rightarrow> bytes \<Rightarrow> bytes" where
  "installed js sha config nd7 text =
     text @ (case install_codex js sha config nd7 text of None \<Rightarrow> [] | Some add \<Rightarrow> add)"

lemma installed_add:
  "hook_blocks nd7 text = blocks \<Longrightarrow>
   codex_trust_entries js sha config (nd7 @ '' '') (text @ newline_pad text @ blocks) = entries \<Longrightarrow>
   installed js sha config nd7 text
     = (if blocks @ entries = [] then text else (text @ newline_pad text @ blocks) @ entries)"
  by (simp add: installed_def install_codex_def Let_def)

lemma spec_blocks:
  assumes "plain_text nd7"
  shows "list_all good_block (wanted nd7 there)"
proof -
  have "good_block (prefix_spec nd7)" "\<forall>ev \<in> set CODEX_RECORD_EVENTS. good_block (record_spec nd7 ev)"
    using assms
    by (auto simp: good_block_def prefix_spec_def record_spec_def CODEX_EVENTS_def CODEX_RECORD_EVENTS_def
        prefix_hook_command_def PREFIX_TAIL_def plain_line_def comment_line_def plain_text_def byte_in_def)
  then show ?thesis by (auto simp: wanted_def list_all_iff)
qed

lemma good_block_lines: "good_block b \<Longrightarrow> list_all plain_line (block_lines b)"
proof -
  assume b: "good_block b"
  have "list_all (\<lambda>ev. plain_line (''[[hooks.'' @ ev @ '']]'') \<and> plain_line (''[[hooks.'' @ ev @ ''.hooks]]'')) CODEX_EVENTS"
    by (simp add: CODEX_EVENTS_def plain_line_def)
  moreover have "plain_line (''command = '' @ toml_string (bl_command b))"
    using b plain_text_chars [of "bl_command b"]
    by (simp add: good_block_def toml_plain plain_line_def)
  moreover have "plain_line (''timeout = '' @ show_u64 (bl_timeout b))"
    using digits_plain [THEN plain_text_chars] by (simp add: plain_line_def show_u64_def)
  ultimately show ?thesis
    using b by (simp add: block_lines_def good_block_def list_all_iff plain_line_def)
qed

lemma good_approval_lines: "good_approval a \<Longrightarrow> list_all plain_line (approval_lines a)"
  using plain_text_chars [of "fst a"]
  by (simp add: good_approval_def approval_lines_def toml_plain plain_line_def)

lemma list_all_concat: "list_all P (concat xs) \<longleftrightarrow> list_all (list_all P) xs"
  by (induction xs) simp_all

lemma wanted_events:
  "there' = there @ hs \<Longrightarrow>
   map (\<lambda>h. (ch_event h, ch_command h)) hs = map (\<lambda>b. (bl_event b, bl_command b)) (wanted nd7 there) \<Longrightarrow>
   suffix ''nd7'' nd7 \<Longrightarrow> wanted nd7 there' = []"
proof -
  assume t: "there' = there @ hs" and m: "map (\<lambda>h. (ch_event h, ch_command h)) hs
      = map (\<lambda>b. (bl_event b, bl_command b)) (wanted nd7 there)" and s: "suffix ''nd7'' nd7"
  have new: "\<exists>h \<in> set hs. ch_event h = bl_event b \<and> ch_command h = bl_command b" if "b \<in> set (wanted nd7 there)" for b
  proof -
    have "(bl_event b, bl_command b) \<in> set (map (\<lambda>h. (ch_event h, ch_command h)) hs)"
      using that unfolding m by force
    then show ?thesis by auto
  qed
  have r: "suffix RECORD_TAIL (nd7 @ '' record'')"
    using s by (auto simp: RECORD_TAIL_def suffix_def)
  have "installed_for there' ''PreToolUse'' PREFIX_TAIL"
  proof (cases "installed_for there ''PreToolUse'' PREFIX_TAIL")
    case True
    then show ?thesis using t by (auto simp: installed_for_def)
  next
    case False
    then have "\<exists>h \<in> set hs. ch_event h = ''PreToolUse'' \<and> ch_command h = prefix_hook_command nd7"
      using new [of "prefix_spec nd7"] by (simp add: wanted_def prefix_spec_def)
    moreover have "suffix PREFIX_TAIL (prefix_hook_command nd7)" by (auto simp: prefix_hook_command_def suffix_def)
    ultimately show ?thesis using t unfolding installed_for_def by (metis Un_iff set_append)
  qed
  moreover have "installed_for there' ev RECORD_TAIL" if "ev \<in> set CODEX_RECORD_EVENTS" for ev
  proof (cases "installed_for there ev RECORD_TAIL")
    case True
    then show ?thesis using t by (auto simp: installed_for_def)
  next
    case False
    then have "\<exists>h \<in> set hs. ch_event h = ev \<and> ch_command h = nd7 @ '' record''"
      using new [of "record_spec nd7 ev"] that by (simp add: wanted_def record_spec_def)
    then show ?thesis using t r by (auto simp: installed_for_def)
  qed
  ultimately show ?thesis by (simp add: wanted_def)
qed

text \<open>The file after an install: the hooks of before, the new ones, and an approval of each of ours.\<close>

lemma installed_text:
  fixes js :: "bytes \<Rightarrow> bytes"
  assumes "plain_text config" "plain_text nd7" "\<forall>x. plain_line (sha x)"
    "text = [] \<or> last text \<noteq> CHR 0x0D"
  defines "after \<equiv> installed js sha config nd7 text"
  obtains hs where "codex_hook_tables after = codex_hook_tables text @ hs"
    "map (\<lambda>h. (ch_event h, ch_command h)) hs
       = map (\<lambda>b. (bl_event b, bl_command b)) (wanted nd7 (codex_hook_tables text))"
    "\<forall>h \<in> set (own_hooks nd7 after). codex_trust_key config h \<in> set (codex_trust_keys_present after)"
    "after = text \<or> ends_with_newline after"
proof -
  let ?B = "concat (map block_lines (wanted nd7 (codex_hook_tables text)))"
  let ?mid = "text @ newline_pad text @ unlines ?B"
  let ?p = "missing_approvals js sha config (nd7 @ '' '') ?mid"
  let ?A = "concat (map approval_lines ?p)"
  have B: "list_all plain_line ?B"
    using spec_blocks [OF assms(2)] good_block_lines by (auto simp: list_all_concat list_all_iff)
  have sha: "plain_line (codex_trust_hash js sha e m c t)" for e m c t
    using assms(3) by (simp add: codex_trust_hash_def plain_line_def)
  have good: "list_all good_approval ?p"
    using key_plain [OF assms(1)] sha by (auto simp: missing_approvals_def good_approval_def list_all_iff)
  then have A: "list_all plain_line ?A"
    using good_approval_lines by (auto simp: list_all_concat list_all_iff)
  have mid: "text_lines ?mid = text_lines text @ ?B"
    by (rule text_lines_grow [OF B assms(4)])
  have whole: "text_lines (?mid @ unlines ?A) = text_lines text @ ?B @ ?A"
    using text_lines_grow [of "?B @ ?A" "text"] B A assms(4) by simp
  obtain hs where hs: "closed_tables (foldl table_line (foldl table_line table_start (text_lines text)) ?B)
        = codex_hook_tables text @ hs"
    "map (\<lambda>h. (ch_event h, ch_command h)) hs
       = map (\<lambda>b. (bl_event b, bl_command b)) (wanted nd7 (codex_hook_tables text))"
    unfolding closed_tables_text by (rule blocks_tables [OF spec_blocks [OF assms(2)]])
  have tables: "codex_hook_tables ?mid = codex_hook_tables text @ hs"
    using hs(1) mid by (simp only: closed_tables_text [of ?mid] foldl_append)
  have tables': "codex_hook_tables (?mid @ unlines ?A) = codex_hook_tables ?mid"
    by (simp only: closed_tables_text [of ?mid] closed_tables_text [of "?mid @ unlines ?A"] whole mid
        foldl_append approvals_tables)
  have keys: "set (codex_trust_keys_present ?mid) \<union> fst ` set ?p
      \<subseteq> set (codex_trust_keys_present (?mid @ unlines ?A))"
    using approvals_keys [OF good, of "foldl key_line ([], None) (text_lines ?mid)"]
    by (simp only: codex_trust_keys_present_def whole mid foldl_append)
  have own: "codex_trust_key config h \<in> set (codex_trust_keys_present (?mid @ unlines ?A))"
    if "h \<in> set (codex_hook_tables ?mid)" "prefix (nd7 @ '' '') (ch_command h)" for h
    using own_pending [OF that, of config js sha] keys by blast
  have entries: "codex_trust_entries js sha config (nd7 @ '' '') ?mid = unlines ?A"
    by (rule trust_entries_lines)
  note add = installed_add [OF hook_blocks_lines entries]
  show thesis
  proof (cases "?B @ ?A = []")
    case True
    have B0: "?B = []" by (rule True [unfolded append_is_Nil_conv, THEN conjunct1])
    have A0: "?A = []" by (rule True [unfolded append_is_Nil_conv, THEN conjunct2])
    have "?mid @ unlines ?A = ?mid" unfolding A0 by simp
    note whole' = this
    have after: "after = text"
      unfolding after_def add unlines_simps(3) [symmetric] unlines_eq_Nil by (rule if_P [OF True])
    have "text_lines ?mid = text_lines text" unfolding mid unfolding B0 by simp
    then have same: "codex_hook_tables ?mid = codex_hook_tables text"
      "codex_trust_keys_present ?mid = codex_trust_keys_present text"
      by (simp_all only: codex_hook_tables_def codex_trust_keys_present_def)
    have own: "codex_trust_key config h \<in> set (codex_trust_keys_present text)"
      if "h \<in> set (codex_hook_tables text)" "prefix (nd7 @ '' '') (ch_command h)" for h
      using own [unfolded same whole', OF that] .
    show thesis
    proof (rule that [of hs])
      show "codex_hook_tables after = codex_hook_tables text @ hs" using tables unfolding same after .
      show "\<forall>h \<in> set (own_hooks nd7 after). codex_trust_key config h \<in> set (codex_trust_keys_present after)"
        using own by (simp add: own_hooks_def after)
    qed (use hs(2) after in auto)
  next
    case False
    have after: "after = ?mid @ unlines ?A"
      unfolding after_def add unlines_simps(3) [symmetric] unlines_eq_Nil by (rule if_not_P [OF False])
    show thesis
    proof (rule that [of hs])
      show "codex_hook_tables after = codex_hook_tables text @ hs" unfolding after tables' by (rule tables)
      show "\<forall>h \<in> set (own_hooks nd7 after). codex_trust_key config h \<in> set (codex_trust_keys_present after)"
        unfolding after own_hooks_def tables' using own by simp
      have "after = (text @ newline_pad text) @ unlines (?B @ ?A)"
        unfolding after unlines_simps(3) append_assoc by (rule refl)
      then show "after = text \<or> ends_with_newline after"
        using False by (metis ends_with_newline_append ends_with_newline_unlines unlines_eq_Nil)
    qed (rule hs(2))
  qed
qed

lemma install_again:
  assumes "plain_text config" "plain_text nd7" "\<forall>x. plain_line (sha x)"
    "text = [] \<or> last text \<noteq> CHR 0x0D" "suffix ''nd7'' nd7"
  shows "install_codex js sha config nd7 (installed js sha config nd7 text) = None"
proof -
  let ?after = "installed js sha config nd7 text"
  obtain hs where hs: "codex_hook_tables ?after = codex_hook_tables text @ hs"
    "map (\<lambda>h. (ch_event h, ch_command h)) hs
       = map (\<lambda>b. (bl_event b, bl_command b)) (wanted nd7 (codex_hook_tables text))"
    and keys: "\<forall>h \<in> set (own_hooks nd7 ?after). codex_trust_key config h \<in> set (codex_trust_keys_present ?after)"
    and nl: "?after = text \<or> ends_with_newline ?after"
    by (rule installed_text [OF assms(1-4), of js]) auto
  have none: "hook_blocks nd7 ?after = []"
    using wanted_events [OF hs assms(5)] by (simp add: hook_blocks_lines)
  have cr: "?after = [] \<or> last ?after \<noteq> CHR 0x0D"
    using nl assms(4) by (auto simp: ends_with_newline_def)
  then have lines: "text_lines (?after @ newline_pad ?after) = text_lines ?after"
    using text_lines_grow [of "[]" ?after] by simp
  have "missing_approvals js sha config (nd7 @ '' '') (?after @ newline_pad ?after) = []"
    using keys lines
    by (auto simp: missing_approvals_def filter_empty_conv own_hooks_def codex_hook_tables_def codex_trust_keys_present_def)
  then show ?thesis by (simp add: install_codex_def none trust_entries_lines)
qed

section \<open>What is added is ASCII\<close>

definition ascii :: "bytes \<Rightarrow> bool" where
  "ascii s \<longleftrightarrow> list_all (byte_in 0 0x7F) s"

lemma ascii_simps [simp]:
  "ascii []" "ascii (s @ t) \<longleftrightarrow> ascii s \<and> ascii t" "ascii (c # s) \<longleftrightarrow> byte_in 0 0x7F c \<and> ascii s"
  by (simp_all add: ascii_def)

lemma ascii_concat: "ascii (concat ss) \<longleftrightarrow> list_all ascii ss"
  by (induction ss) simp_all

lemma ascii_unlines: "ascii (unlines ls) \<longleftrightarrow> list_all ascii ls"
  by (induction ls) (simp_all add: byte_in_def)

lemma ascii_plain: "plain_text s \<Longrightarrow> ascii s"
  unfolding plain_text_def ascii_def by (erule list.pred_mono_strong) (simp add: byte_in_def)

lemma ascii_toml: "plain_text s \<Longrightarrow> ascii (toml_string s)"
  using ascii_plain [of s] by (simp add: toml_plain byte_in_def)

lemma ascii_show_u64: "ascii (show_u64 n)"
  using digits_plain [THEN ascii_plain] by (simp add: show_u64_def)

lemma install_codex_ascii:
  assumes "plain_text config" "plain_text nd7" "\<forall>x. plain_text (sha x)"
    and "install_codex js sha config nd7 text = Some add"
  shows "ascii add"
proof -
  have "plain_text (prefix_hook_command nd7)" "plain_text (nd7 @ '' record'')"
    using assms(2) by (simp_all add: prefix_hook_command_def PREFIX_TAIL_def plain_text_def byte_in_def)
  note commands = this [THEN ascii_toml]
  have events: "list_all ascii CODEX_RECORD_EVENTS" by (simp add: CODEX_RECORD_EVENTS_def byte_in_def)
  have "ascii (hook_blocks nd7 text)"
    using commands events ascii_show_u64
    by (auto simp: hook_blocks_def prefix_block_def record_block_def Let_def ascii_concat ascii_unlines list_all_iff byte_in_def)
  moreover have "ascii (codex_trust_entries js sha config ours t)" for ours t
    using key_plain [OF assms(1), THEN ascii_toml] assms(3) [rule_format, THEN ascii_plain]
    by (auto simp: codex_trust_entries_def codex_trust_hash_def Let_def ascii_concat ascii_unlines list_all_iff byte_in_def)
  moreover have "ascii (newline_pad text)" by (simp add: newline_pad_def byte_in_def)
  ultimately show ?thesis using assms(4) by (auto simp: install_codex_def Let_def split: if_splits)
qed

end
