(* ===== verification/ClaudeProofs.thy ===== *)
theory ClaudeProofs
  imports ClaudeConfig CodexProofs
begin

text \<open>
  Facts about the Claude Code install and the aliases: entries are only added at the end of their
  event, an event that has its hook is left alone, and what has been installed stays installed.
\<close>

section \<open>Hooks that grow\<close>

definition grows :: "(bytes \<rightharpoonup> json) \<Rightarrow> (bytes \<rightharpoonup> json) \<Rightarrow> bool" where
  "grows h h' \<longleftrightarrow>
     (\<forall>ev. h' ev = h ev
        \<or> (\<exists>es new. (h ev = None \<and> es = [] \<or> h ev = Some (JArray es)) \<and> h' ev = Some (JArray (es @ new))))"

definition registered :: "(json \<Rightarrow> bool) \<Rightarrow> (bytes \<rightharpoonup> json) \<Rightarrow> bytes \<Rightarrow> bool" where
  "registered there h ev \<longleftrightarrow> (\<exists>es. h ev = Some (JArray es) \<and> (\<exists>e \<in> set es. there e))"

lemma grows_refl [simp]: "grows h h"
  by (simp add: grows_def)

lemma grows_trans:
  assumes "grows a b" "grows b c"
  shows "grows a c"
  unfolding grows_def
proof
  fix ev
  have "c ev = b ev \<or> (\<exists>es new. (b ev = None \<and> es = [] \<or> b ev = Some (JArray es)) \<and> c ev = Some (JArray (es @ new)))"
    "b ev = a ev \<or> (\<exists>es new. (a ev = None \<and> es = [] \<or> a ev = Some (JArray es)) \<and> b ev = Some (JArray (es @ new)))"
    using assms by (auto simp: grows_def)
  then show "c ev = a ev \<or> (\<exists>es new. (a ev = None \<and> es = [] \<or> a ev = Some (JArray es)) \<and> c ev = Some (JArray (es @ new)))"
    by (elim disjE exE conjE) (auto, metis append_assoc)
qed

lemma registered_grows: "registered there h ev \<Longrightarrow> grows h h' \<Longrightarrow> registered there h' ev"
  unfolding registered_def grows_def by (elim exE conjE allE [of _ ev]) fastforce

lemma add_entry_idle: "registered there h ev \<Longrightarrow> add_entry there ev new (h, c) = Inr (h, c)"
  by (auto simp: registered_def add_entry_def entries_of_def)

lemma add_entry_effect:
  assumes "add_entry there ev new s = Inr s'"
  obtains "s' = s" "registered there (fst s) ev"
  | es where "fst s ev = None \<and> es = [] \<or> fst s ev = Some (JArray es)"
    "s' = ((fst s)(ev \<mapsto> JArray (es @ [new])), True)" "\<not> registered there (fst s) ev"
proof -
  obtain es where es: "entries_of (fst s) ev = Inr es"
    using assms by (auto simp: add_entry_def split: sum.splits)
  then have *: "fst s ev = None \<and> es = [] \<or> fst s ev = Some (JArray es)"
    by (auto simp: entries_of_def split: option.splits json.splits)
  show thesis
  proof (cases "\<exists>e \<in> set es. there e")
    case True
    then show thesis using assms es * that(1) by (auto simp: add_entry_def registered_def)
  next
    case False
    then show thesis using assms es * that(2) [of es] by (auto simp: add_entry_def registered_def)
  qed
qed

lemma add_entry_grows:
  assumes "add_entry there ev new s = Inr s'" "there new"
  shows "grows (fst s) (fst s') \<and> registered there (fst s') ev \<and> (snd s' \<or> s' = s)"
  using assms(1)
proof (cases rule: add_entry_effect)
  case (2 es)
  have "grows (fst s) ((fst s)(ev \<mapsto> JArray (es @ [new])))"
    using 2(1) by (auto simp: grows_def)
  with 2 assms(2) show ?thesis by (auto simp: registered_def)
qed simp

lemma add_entry_other:
  assumes "add_entry there ev new s = Inr s'" "\<not> other new" "registered other (fst s') k"
  shows "registered other (fst s) k"
  using assms(1)
proof (cases rule: add_entry_effect)
  case (2 es)
  with assms(2,3) show ?thesis by (cases "k = ev") (auto simp: registered_def)
qed (use assms(3) in simp)

lemma record_hook_there: "suffix ''nd7'' nd7 \<Longrightarrow> has_record_hook (claude_record_hook nd7 ev)"
  by (simp add: has_record_hook_def claude_record_hook_def hooks_of_def command_ends_def command_of_def)

lemma prefix_hook_there: "has_prefix_hook (claude_prefix_hook nd7)"
  by (auto simp: has_prefix_hook_def claude_prefix_hook_def hooks_of_def command_ends_def command_of_def
      prefix_hook_command_def suffix_def)

lemma add_records_grows:
  assumes "suffix ''nd7'' nd7" "add_records nd7 evs s = Inr s'"
  shows "grows (fst s) (fst s') \<and> (\<forall>ev \<in> set evs. registered has_record_hook (fst s') ev) \<and> (snd s' \<or> s' = s)"
  using assms(2)
proof (induction evs arbitrary: s)
  case (Cons ev evs)
  obtain t where t: "add_entry has_record_hook ev (claude_record_hook nd7 ev) s = Inr t"
    "add_records nd7 evs t = Inr s'"
    using Cons.prems by (auto split: sum.splits)
  have g: "grows (fst s) (fst t)" "registered has_record_hook (fst t) ev" "snd t \<or> t = s"
    using add_entry_grows [OF t(1) record_hook_there [OF assms(1)]] by auto
  with Cons.IH [OF t(2)] show ?case by (auto intro: grows_trans registered_grows)
qed simp

lemma record_hook_no_prefix:
  assumes "suffix ''nd7'' nd7"
  shows "\<not> has_prefix_hook (claude_record_hook nd7 ev)"
proof -
  have "\<not> suffix PREFIX_TAIL nd7"
    using assms by (auto simp: PREFIX_TAIL_def suffix_def)
  then show ?thesis
    by (simp add: has_prefix_hook_def claude_record_hook_def hooks_of_def command_ends_def command_of_def)
qed

lemma add_records_prefix:
  assumes "suffix ''nd7'' nd7" "add_records nd7 evs s = Inr s'" "registered has_prefix_hook (fst s') k"
  shows "registered has_prefix_hook (fst s) k"
  using assms(2,3)
proof (induction evs arbitrary: s)
  case (Cons ev evs)
  then obtain t where t: "add_entry has_record_hook ev (claude_record_hook nd7 ev) s = Inr t"
    "add_records nd7 evs t = Inr s'"
    by (auto split: sum.splits)
  show ?case
    by (rule add_entry_other [OF t(1) record_hook_no_prefix [OF assms(1)] Cons.IH [OF t(2) Cons.prems(2)]])
qed simp

lemma add_records_idle:
  "\<forall>ev \<in> set evs. registered has_record_hook h ev \<Longrightarrow> add_records nd7 evs (h, c) = Inr (h, c)"
  by (induction evs) (simp_all add: add_entry_idle)

section \<open>The settings after an install\<close>

definition settings_hooks :: "json \<Rightarrow> bytes \<rightharpoonup> json" where
  "settings_hooks v = (case json_get v ''hooks'' of Some (JObject h) \<Rightarrow> h | _ \<Rightarrow> Map.empty)"

definition settings_kept :: "json \<Rightarrow> json \<Rightarrow> bool" where
  "settings_kept v v' \<longleftrightarrow>
     (\<forall>k. k \<noteq> ''hooks'' \<longrightarrow> json_get v' k = json_get v k) \<and> grows (settings_hooks v) (settings_hooks v')"

lemma install_claude_effect:
  assumes "suffix ''nd7'' nd7" "install_claude nd7 v = Inr w"
  obtains root hooks hooks' changed where
    "v = JObject root" "(case root ''hooks'' of None \<Rightarrow> JObject Map.empty | Some h \<Rightarrow> h) = JObject hooks"
    "w = (if changed then Some (JObject (root(''hooks'' \<mapsto> JObject hooks'))) else None)"
    "grows hooks hooks'" "\<forall>ev \<in> set RECORD_EVENTS. registered has_record_hook hooks' ev"
    "registered has_prefix_hook hooks' ''PreToolUse''"
    "registered has_prefix_hook hooks ''PreToolUse'' \<or>
       (\<exists>es. hooks' ''PreToolUse'' = Some (JArray es) \<and> claude_prefix_hook nd7 \<in> set es)"
proof -
  obtain root where v: "v = JObject root"
    using assms(2) by (cases v) (auto simp: install_claude_def)
  obtain hooks where h: "(case root ''hooks'' of None \<Rightarrow> JObject Map.empty | Some h \<Rightarrow> h) = JObject hooks"
    using assms(2) v by (cases "case root ''hooks'' of None \<Rightarrow> JObject Map.empty | Some h \<Rightarrow> h")
      (auto simp: install_claude_def)
  obtain s hooks' changed where s: "add_records nd7 RECORD_EVENTS (hooks, False) = Inr s"
    "add_entry has_prefix_hook ''PreToolUse'' (claude_prefix_hook nd7) s = Inr (hooks', changed)"
    and w: "w = (if changed then Some (JObject (root(''hooks'' \<mapsto> JObject hooks'))) else None)"
    using assms(2) v h by (auto simp: install_claude_def split: sum.splits)
  have r: "grows hooks (fst s)" "\<forall>ev \<in> set RECORD_EVENTS. registered has_record_hook (fst s) ev"
    using add_records_grows [OF assms(1) s(1)] by auto
  have p: "grows (fst s) hooks'" "registered has_prefix_hook hooks' ''PreToolUse''"
    using add_entry_grows [OF s(2) prefix_hook_there] by auto
  show thesis
  proof (rule that [OF v h w])
    show "grows hooks hooks'" by (rule grows_trans [OF r(1) p(1)])
    show "\<forall>ev \<in> set RECORD_EVENTS. registered has_record_hook hooks' ev"
      using r(2) registered_grows [OF _ p(1)] by blast
    show "registered has_prefix_hook hooks' ''PreToolUse''" by (rule p(2))
    show "registered has_prefix_hook hooks ''PreToolUse'' \<or>
       (\<exists>es. hooks' ''PreToolUse'' = Some (JArray es) \<and> claude_prefix_hook nd7 \<in> set es)"
      using s(2)
    proof (cases rule: add_entry_effect)
      case 1
      then show ?thesis using add_records_prefix [OF assms(1) s(1)] by simp
    qed auto
  qed
qed

lemma claude_again:
  assumes "suffix ''nd7'' nd7" "install_claude nd7 v = Inr (Some v')"
  shows "install_claude nd7 v' = Inr None"
    and "settings_kept v v'"
    and "claude_has_hook_in nd7 v' \<or> registered has_prefix_hook (settings_hooks v) ''PreToolUse''"
proof -
  obtain root hooks hooks' changed where
    v: "v = JObject root" and h: "(case root ''hooks'' of None \<Rightarrow> JObject Map.empty | Some h \<Rightarrow> h) = JObject hooks"
    and w: "Some v' = (if changed then Some (JObject (root(''hooks'' \<mapsto> JObject hooks'))) else None)"
    and g: "grows hooks hooks'" and rec: "\<forall>ev \<in> set RECORD_EVENTS. registered has_record_hook hooks' ev"
    and pre: "registered has_prefix_hook hooks' ''PreToolUse''"
    and new: "registered has_prefix_hook hooks ''PreToolUse'' \<or>
       (\<exists>es. hooks' ''PreToolUse'' = Some (JArray es) \<and> claude_prefix_hook nd7 \<in> set es)"
    by (rule install_claude_effect [OF assms])
  have v': "v' = JObject (root(''hooks'' \<mapsto> JObject hooks'))" using w by (simp split: if_splits)
  show "install_claude nd7 v' = Inr None"
    using add_records_idle [OF rec] add_entry_idle [OF pre] by (simp add: install_claude_def v')
  have old: "settings_hooks v = hooks" and "settings_hooks v' = hooks'"
    using v v' h by (auto simp: settings_hooks_def split: option.splits)
  then show "settings_kept v v'" using v v' g by (simp add: settings_kept_def)
  show "claude_has_hook_in nd7 v' \<or> registered has_prefix_hook (settings_hooks v) ''PreToolUse''"
    using new
  proof (elim disjE exE conjE)
    fix es assume es: "hooks' ''PreToolUse'' = Some (JArray es)" "claude_prefix_hook nd7 \<in> set es"
    have "\<exists>hook \<in> set (hooks_of (claude_prefix_hook nd7)). command_of hook = Some (prefix_hook_command nd7)"
      by (simp add: claude_prefix_hook_def hooks_of_def command_of_def)
    then show ?thesis using es by (auto simp: claude_has_hook_in_def v')
  qed (simp add: old)
qed

section \<open>The line in the rc\<close>

lemma source_again: "source_aliases text = Some add \<Longrightarrow> source_aliases (text @ add) = None"
proof -
  assume "source_aliases text = Some add"
  then have add: "text @ add = (text @ newline_pad text) @ unlines [SOURCE_LINE]"
    by (simp add: source_aliases_def split: if_splits)
  have "text @ newline_pad text = [] \<or> ends_with_newline (text @ newline_pad text)"
    by (auto simp: newline_pad_def)
  then obtain ms where "text @ newline_pad text = unlines ms" "list_all one_line ms"
    by (metis list.pred_inject(1) terminated_linesE unlines_simps(1))
  moreover have "plain_line SOURCE_LINE" by (simp add: SOURCE_LINE_def plain_line_def)
  ultimately have "SOURCE_LINE \<in> set (text_lines (text @ add))"
    using text_lines_unlines [of ms "[SOURCE_LINE]"] unfolding add by simp
  moreover have "sublist ''.nd7/aliases.sh'' SOURCE_LINE"
  proof -
    have "SOURCE_LINE = ''[ -f \"$HOME/'' @ ''.nd7/aliases.sh'' @ ''\" ] && source \"$HOME/.nd7/aliases.sh\"  # nd7''"
      by (simp add: SOURCE_LINE_def)
    then show ?thesis by (metis sublist_appendI)
  qed
  ultimately show ?thesis by (auto simp: source_aliases_def)
qed

end
