(* ===== verification/Launch.thy ===== *)
theory Launch
  imports Grant ClaudeProofs
begin

text \<open>
  How \<^verbatim>\<open>nd7 run\<close> starts a program: which agent it is, the flags an agent gets, the environment
  and the shim, and the steps of \<^verbatim>\<open>spawn\<close> up to the child, from \<^verbatim>\<open>src/src/bin/nd7.rs\<close>. The path of
  \<^verbatim>\<open>nd7\<close> is what \<^verbatim>\<open>display()\<close> prints of it; \<open>files\<close> is what can be read of a file.
\<close>

section \<open>Which agent\<close>

fun find_map :: "('a \<Rightarrow> 'b option) \<Rightarrow> 'a list \<Rightarrow> 'b option" where
  "find_map f [] = None"
| "find_map f (x # xs) = (case f x of Some y \<Rightarrow> Some y | None \<Rightarrow> find_map f xs)"

text \<open>\<open>canon\<close> is \<^verbatim>\<open>Path::canonicalize\<close>, \<open>path\<close> the variable \<^verbatim>\<open>PATH\<close>, empty when it is not set.\<close>

definition resolve :: "(bytes \<Rightarrow> bytes option) \<Rightarrow> bytes \<Rightarrow> bytes \<Rightarrow> bytes option" where
  "resolve canon path program =
     (if CHR ''/'' \<in> set program then canon program
      else find_map (\<lambda>dir. canon (path_join dir program)) (split_byte CHR '':'' path))"

text \<open>\<^verbatim>\<open>Path::file_name\<close>: the last component, unless it is the root or a dot entry.\<close>

definition file_name :: "bytes \<Rightarrow> bytes option" where
  "file_name p =
     (let cs = components p in
      if cs = [] \<or> last cs \<in> {''/'', ''.'', ''..''} then None else Some (last cs))"

definition agent_of :: "(bytes \<Rightarrow> bytes option) \<Rightarrow> bytes \<Rightarrow> bytes \<Rightarrow> agent option" where
  "agent_of canon path program =
     (case file_name (case resolve canon path program of Some p \<Rightarrow> p | None \<Rightarrow> program) of
        None \<Rightarrow> None
      | Some name \<Rightarrow>
          if name = ''claude'' then Some Claude
          else if name = ''codex'' then Some Codex else None)"

section \<open>The flags of an agent\<close>

definition installed_hook :: "(bytes \<Rightarrow> json option) \<Rightarrow> (bytes \<rightharpoonup> bytes) \<Rightarrow> agent \<Rightarrow> bytes \<Rightarrow> bytes \<Rightarrow> bool" where
  "installed_hook parse files agent home nd7 \<longleftrightarrow>
     (case Option.bind (files (config_path agent home)) from_utf8 of
        None \<Rightarrow> False
      | Some s \<Rightarrow> (case agent of Claude \<Rightarrow> claude_has_hook parse nd7 s | Codex \<Rightarrow> codex_has_hook nd7 s))"

definition trusted_hooks :: "(bytes \<rightharpoonup> bytes) \<Rightarrow> bytes \<Rightarrow> bytes \<Rightarrow> bool" where
  "trusted_hooks files home nd7 \<longleftrightarrow>
     (case Option.bind (files (config_path Codex home)) from_utf8 of
        None \<Rightarrow> False
      | Some s \<Rightarrow> codex_hooks_trusted (from_utf8_lossy (config_path Codex home)) nd7 s)"

definition SYSTEM_PROMPT :: bytes where
  "SYSTEM_PROMPT =
     ''This session runs under nd7's kernel sandbox. Bash commands are routed through nd7-exec by ''
     @ ''a hook and run under the session's policy: the project directory is writable, most of the ''
     @ ''rest of the filesystem is not, and only HTTPS egress is open. An 'operation not permitted' ''
     @ ''error is that policy, not the agent's own permission rules. Do not try to route around it; ''
     @ ''tell the user what was denied. `nd7 allow <path>` widens the policy for Bash commands from ''
     @ ''the next call on; file-editing tools (Write, Edit, apply_patch) and Read see only the fixed ''
     @ ''policy, so for those the user must restart under a wider one.''"

text \<open>\<open>compact\<close> is \<^verbatim>\<open>Value::to_string\<close>.\<close>

definition claude_settings :: "bool \<Rightarrow> bytes \<Rightarrow> json" where
  "claude_settings has_hook nd7 =
     (let settings = [''sandbox'' \<mapsto> JObject [''enabled'' \<mapsto> JBool False]] in
      JObject (if has_hook then settings
        else settings(''hooks'' \<mapsto> JObject [''PreToolUse'' \<mapsto> JArray [claude_prefix_hook nd7]])))"

definition claude_flags ::
  "(bytes \<Rightarrow> json option) \<Rightarrow> (json \<Rightarrow> bytes) \<Rightarrow> (bytes \<rightharpoonup> bytes) \<Rightarrow> bytes \<Rightarrow> bytes \<Rightarrow> bytes list" where
  "claude_flags parse compact files home nd7 =
     [''--settings'', compact (claude_settings (installed_hook parse files Claude home nd7) nd7),
      ''--append-system-prompt'', SYSTEM_PROMPT]"

definition BYPASS_TRUST :: bytes where "BYPASS_TRUST = ''--dangerously-bypass-hook-trust''"

definition codex_hook_override :: "bytes \<Rightarrow> bytes" where
  "codex_hook_override nd7 =
     ''hooks.PreToolUse=[{matcher=\"\", hooks=[{type=\"command\", command=''
     @ toml_string (prefix_hook_command nd7) @ '', timeout='' @ show_u64 CODEX_PREFIX_TIMEOUT @ ''}]}]''"

definition codex_flags :: "(bytes \<Rightarrow> json option) \<Rightarrow> (bytes \<rightharpoonup> bytes) \<Rightarrow> bytes \<Rightarrow> bytes \<Rightarrow> bytes list" where
  "codex_flags parse files home nd7 =
     [''-s'', ''danger-full-access'']
     @ (if \<not> installed_hook parse files Codex home nd7 then [BYPASS_TRUST, ''-c'', codex_hook_override nd7]
        else if \<not> trusted_hooks files home nd7 then [BYPASS_TRUST]
        else [])
     @ [''-c'', ''developer_instructions='' @ toml_string SYSTEM_PROMPT]"

text \<open>Codex takes an override after its subcommand only.\<close>

definition codex_args :: "bytes list \<Rightarrow> bytes list \<Rightarrow> bytes list" where
  "codex_args flags args =
     (case args of
        sub # rest \<Rightarrow>
          if sub \<in> {''exec'', ''e'', ''resume''} then sub # flags @ rest else flags @ args
      | [] \<Rightarrow> flags)"

definition agent_args ::
  "(bytes \<Rightarrow> json option) \<Rightarrow> (json \<Rightarrow> bytes) \<Rightarrow> (bytes \<rightharpoonup> bytes) \<Rightarrow> bytes \<Rightarrow> bytes
   \<Rightarrow> agent option \<Rightarrow> bytes list \<Rightarrow> bytes list" where
  "agent_args parse compact files home nd7 agent args =
     (case agent of
        Some Claude \<Rightarrow> claude_flags parse compact files home nd7 @ args
      | Some Codex \<Rightarrow> codex_args (codex_flags parse files home nd7) args
      | None \<Rightarrow> args)"

definition hooks_note :: "(bytes \<Rightarrow> json option) \<Rightarrow> (bytes \<rightharpoonup> bytes) \<Rightarrow> agent option \<Rightarrow> bytes \<Rightarrow> bytes \<Rightarrow> bytes" where
  "hooks_note parse files agent home nd7 =
     (case agent of
        None \<Rightarrow> []
      | Some a \<Rightarrow>
          if a = Codex \<and> installed_hook parse files Codex home nd7 \<and> \<not> trusted_hooks files home nd7
          then '' (hooks: installed, not yet trusted; run `nd7 init codex` to record Codex's approval)''
          else if installed_hook parse files a home nd7 then '' (hooks: installed)''
          else '' (hooks: per-invocation; run `nd7 init` to install them)'')"

section \<open>The shim and the stand-in for gpg\<close>

definition open_shim_text :: "bytes \<Rightarrow> bytes" where
  "open_shim_text nd7 = unlines [''#!/bin/sh'', ''exec \"'' @ nd7 @ ''\" open \"$@\"'']"

datatype gpg_step = Remove_All bytes | Create_Private bytes | Symlink bytes bytes | Copy_File bytes bytes

text \<open>What \<^verbatim>\<open>gpg_home\<close> does, step by step; \<^const>\<open>None\<close> when there is nothing to stand in for.\<close>

definition gpg_home :: "(bytes \<Rightarrow> bool) \<Rightarrow> (bytes \<Rightarrow> bool) \<Rightarrow> bytes \<Rightarrow> bytes \<Rightarrow> gpg_step list option" where
  "gpg_home is_dir exists home dir =
     (let gnupg = path_join home ''.gnupg'' in
      if \<not> is_dir gnupg then None
      else Some ([Remove_All dir, Create_Private dir]
        @ map (\<lambda>n. Symlink (path_join gnupg n) (path_join dir n))
            (filter (\<lambda>n. exists (path_join gnupg n)) [''pubring.kbx'', ''gpg.conf''])
        @ (if exists (path_join gnupg ''trustdb.gpg'')
           then [Copy_File (path_join gnupg ''trustdb.gpg'') (path_join dir ''trustdb.gpg'')] else [])
        @ [Symlink (path_join gnupg ''S.gpg-agent.extra'') (path_join dir ''S.gpg-agent'')]))"

text \<open>\<open>set\<close> says whether \<^verbatim>\<open>GNUPGHOME\<close> is set; \<open>done\<close> whether every step succeeded.\<close>

definition gpg_stand_in ::
  "bool \<Rightarrow> bool \<Rightarrow> (bytes \<Rightarrow> bool) \<Rightarrow> (bytes \<Rightarrow> bool) \<Rightarrow> bytes \<Rightarrow> bytes \<Rightarrow> nat \<Rightarrow> bytes option" where
  "gpg_stand_in already ok is_dir exists home tmp pid =
     (let dir = path_join tmp (''nd7-gpg-'' @ show_nat pid) in
      if already then None
      else (case gpg_home is_dir exists home dir of
              None \<Rightarrow> None
            | Some _ \<Rightarrow> if ok then Some dir else None))"

section \<open>The start of a run\<close>

record run_world =
  rw_env :: run_env
  rw_pid :: nat
  rw_canon :: "bytes \<Rightarrow> bytes option"
  rw_meta :: "bytes \<Rightarrow> (bool \<times> 32 word) option"
  rw_path :: bytes                             \<comment> \<open>the variable \<^verbatim>\<open>PATH\<close>\<close>
  rw_files :: "bytes \<rightharpoonup> bytes"
  rw_gnupg :: "bytes option"                   \<comment> \<open>\<^verbatim>\<open>gpg_stand_in\<close>\<close>

datatype launch_error = Path_Not_Found | Untrusted trust_error | Policy_Not_Written | Colon_In_Path

text \<open>What the program is started with, and what was written before.\<close>

record launch =
  la_policy :: policy
  la_writes :: "call list"
  la_shim :: bytes
  la_profile :: bytes
  la_program :: bytes
  la_args :: "bytes list"
  la_env :: "(bytes \<times> bytes) list"

text \<open>\<^verbatim>\<open>env::join_paths\<close> of the shim's directory and the pieces of \<^verbatim>\<open>PATH\<close>.\<close>

definition shim_path :: "bytes \<Rightarrow> bytes \<Rightarrow> bytes option" where
  "shim_path bin path = (if CHR '':'' \<in> set bin then None else Some (bin @ CHR '':'' # path))"

text \<open>
  \<^verbatim>\<open>spawn\<close> after the session was created, up to the child. The sockets that are bound and the
  threads behind them are left out.
\<close>

definition spawn ::
  "(policy \<Rightarrow> bytes option) \<Rightarrow> (bytes \<Rightarrow> json option) \<Rightarrow> (json \<Rightarrow> bytes) \<Rightarrow> run_world
   \<Rightarrow> bytes \<Rightarrow> bytes list \<Rightarrow> launch_error + launch" where
  "spawn ser parse compact w program args =
     (case run_policy (rw_canon w) (rw_env w) of
        None \<Rightarrow> Inl Path_Not_Found
      | Some p \<Rightarrow>
     (case trusted (rw_meta w) (po_exit p) of
        Inl e \<Rightarrow> Inl (Untrusted e)
      | Inr _ \<Rightarrow>
     (case write_policy_at ser (r_session (rw_env w)) p of
        None \<Rightarrow> Inl Policy_Not_Written
      | Some writes \<Rightarrow>
     (case rw_canon w (r_exe (rw_env w)) of
        None \<Rightarrow> Inl Path_Not_Found
      | Some exe \<Rightarrow>
          (let nd7 = from_utf8_lossy exe;
               bin = path_join (r_session (rw_env w)) ''bin'';
               agent = agent_of (rw_canon w) (rw_path w) program
           in
     (case shim_path bin (rw_path w) of
        None \<Rightarrow> Inl Colon_In_Path
      | Some path \<Rightarrow>
          Inr \<lparr>la_policy = p, la_writes = writes, la_shim = open_shim_text nd7,
            la_profile = render_floor p, la_program = program,
            la_args = agent_args parse compact (rw_files w) (po_home p) nd7 agent args,
            la_env = [(''ND7_SESSION'', show_nat (rw_pid w))]
              @ (case po_ssh_agent p of None \<Rightarrow> [] | Some sock \<Rightarrow> [(''SSH_AUTH_SOCK'', sock)])
              @ [(''PATH'', path)]
              @ (case rw_gnupg w of None \<Rightarrow> [] | Some dir \<Rightarrow> [(''GNUPGHOME'', dir)])\<rparr>))))))"

section \<open>A raw profile\<close>

text \<open>
  \<^verbatim>\<open>spawn_raw\<close>: the profile that is applied and its parameters; \<^const>\<open>None\<close> when a file or path is
  not there or is not text.
\<close>

definition spawn_raw ::
  "(bytes \<Rightarrow> bytes option) \<Rightarrow> (bytes \<rightharpoonup> bytes) \<Rightarrow> run_env \<Rightarrow> bytes
   \<Rightarrow> (bytes \<times> (bytes \<times> bytes) list) option" where
  "spawn_raw canon files e path =
     (case (files path, Option.bind (canon (r_cwd e)) from_utf8, Option.bind (canon (r_tmp e)) from_utf8,
            from_utf8 (r_home e)) of
        (Some profile, Some proj, Some tmp, Some home) \<Rightarrow>
          Some (profile, [(''PROJ'', proj), (''TMP'', tmp), (''HOME'', home)])
      | _ \<Rightarrow> None)"

text \<open>Its parameters always fit the array of \<^verbatim>\<open>sandbox_init_with_parameters\<close>.\<close>

lemma spawn_raw_params: "spawn_raw canon files e path = Some (profile, params) \<Longrightarrow> profile_params params \<noteq> None"
  by (auto simp: spawn_raw_def profile_params_def MAX_PARAMS_def Let_def split: option.splits)

end
