(* ===== verification/SettledFiles.thy ===== *)
theory SettledFiles
  imports Paths
begin

text \<open>
  The contract of an install: it writes one file, its own, and once it has succeeded it has nothing
  left to do as long as that file stays. Several installs with files of their own, one after the
  other, then keep this together; the agents and the shell rcs of \<^verbatim>\<open>nd7 init\<close> are two cases of it.
\<close>

type_synonym files = "bytes \<rightharpoonup> bytes"

text \<open>One after another, up to the first that fails: the files then, and its error.\<close>

fun write_all :: "(files \<Rightarrow> 'k \<Rightarrow> 'e + files) \<Rightarrow> files \<Rightarrow> 'k list \<Rightarrow> files \<times> 'e option" where
  "write_all write fs [] = (fs, None)"
| "write_all write fs (k # ks) =
     (case write fs k of Inl e \<Rightarrow> (fs, Some e) | Inr fs' \<Rightarrow> write_all write fs' ks)"

locale install =
  fixes file_of :: "'k \<Rightarrow> bytes"
    and step :: "files \<Rightarrow> 'k \<Rightarrow> 'e + files"
    and fit :: "files \<Rightarrow> 'k \<Rightarrow> bool"
  assumes own_file: "file_of k = file_of l \<Longrightarrow> k = l"
    and fit_local: "fit fs k \<Longrightarrow> gs (file_of k) = fs (file_of k) \<Longrightarrow> fit gs k"
    and writes_own: "fit fs k \<Longrightarrow> step fs k = Inr fs' \<Longrightarrow> q \<noteq> file_of k \<Longrightarrow> fs' q = fs q"
    and settles: "fit fs k \<Longrightarrow> step fs k = Inr fs' \<Longrightarrow> gs (file_of k) = fs' (file_of k) \<Longrightarrow>
      step gs k = Inr gs"
begin

lemma fit_after:
  assumes "\<forall>l \<in> set (k # ks). fit fs l" "distinct (k # ks)" "step fs k = Inr fs'"
  shows "\<forall>l \<in> set ks. fit fs' l"
proof
  fix l assume l: "l \<in> set ks"
  with assms(2) own_file have "file_of l \<noteq> file_of k" by auto
  with assms(1,3) have "fs' (file_of l) = fs (file_of l)" by (intro writes_own) auto
  with assms(1) l show "fit fs' l" by (auto intro: fit_local)
qed

lemma all_write_own:
  "\<forall>k \<in> set ks. fit fs k \<Longrightarrow> distinct ks \<Longrightarrow> write_all step fs ks = (fs', None) \<Longrightarrow> q \<notin> file_of ` set ks \<Longrightarrow>
     fs' q = fs q"
proof (induction ks arbitrary: fs)
  case (Cons k ks)
  then obtain f where f: "step fs k = Inr f" "write_all step f ks = (fs', None)"
    by (auto split: sum.splits)
  with Cons.IH [OF fit_after [OF Cons.prems(1,2) f(1)] _ f(2)] Cons.prems have "fs' q = f q" by simp
  with Cons.prems writes_own [OF _ f(1), of q] show ?case by simp
qed simp

text \<open>A second round over the files of the first changes nothing.\<close>

lemma all_settle:
  "\<forall>k \<in> set ks. fit fs k \<Longrightarrow> distinct ks \<Longrightarrow> write_all step fs ks = (fs', None) \<Longrightarrow>
     \<forall>k \<in> set ks. gs (file_of k) = fs' (file_of k) \<Longrightarrow> write_all step gs ks = (gs, None)"
proof (induction ks arbitrary: fs)
  case (Cons k ks)
  then obtain f where f: "step fs k = Inr f" "write_all step f ks = (fs', None)"
    by (auto split: sum.splits)
  note fit = fit_after [OF Cons.prems(1,2) f(1)]
  have "file_of k \<notin> file_of ` set ks" using Cons.prems(2) own_file by auto
  then have "fs' (file_of k) = f (file_of k)" using Cons.prems(2) all_write_own [OF fit _ f(2)] by simp
  then have "step gs k = Inr gs" using Cons.prems(1,4) settles [OF _ f(1)] by simp
  with Cons.IH [OF fit _ f(2)] Cons.prems(2,4) show ?case by simp
qed simp

end

end
