(* ===== verification/Init.thy ===== *)
theory Init
  imports ClaudeProofs SettledFiles
begin

text \<open>
  \<^verbatim>\<open>nd7 init\<close> of \<^verbatim>\<open>src/src/bin/nd7.rs\<close> over the files of the machine: the arguments, the agents it
  configures, the aliases and the lines in the shell rcs; and that a second run changes nothing.
\<close>

section \<open>The command\<close>

record init_args =
  ia_named :: "agent option"
  ia_project :: bool
  ia_aliases :: bool

text \<open>\<^const>\<open>Inl\<close> is the argument that is not expected.\<close>

fun init_arguments :: "init_args \<Rightarrow> bytes list \<Rightarrow> bytes + init_args" where
  "init_arguments a [] = Inr a"
| "init_arguments a (arg # args) =
     (if arg = ''claude'' then init_arguments (a\<lparr>ia_named := Some Claude\<rparr>) args
      else if arg = ''codex'' then init_arguments (a\<lparr>ia_named := Some Codex\<rparr>) args
      else if arg = ''--global'' then init_arguments (a\<lparr>ia_project := False\<rparr>) args
      else if arg = ''--project'' then init_arguments (a\<lparr>ia_project := True\<rparr>) args
      else if arg = ''--no-alias'' then init_arguments (a\<lparr>ia_aliases := False\<rparr>) args
      else Inl arg)"

record init_world =
  iw_home :: bytes
  iw_cwd :: bytes
  iw_nd7 :: bytes                              \<comment> \<open>what \<^verbatim>\<open>display()\<close> prints of this binary\<close>
  iw_has_dir :: "agent \<Rightarrow> bool"                 \<comment> \<open>the agent has a directory of its own\<close>
  iw_on_path :: "agent \<Rightarrow> bool"                 \<comment> \<open>its name resolves on PATH\<close>
  iw_unreadable :: "bytes \<Rightarrow> bool"             \<comment> \<open>opening or reading it fails, and not as a file that is not there\<close>
  iw_parse :: "bytes \<Rightarrow> json option"
  iw_pretty :: "json \<Rightarrow> bytes"
  iw_js :: "bytes \<Rightarrow> bytes"
  iw_sha :: "bytes \<Rightarrow> bytes"

text \<open>\<^verbatim>\<open>fs::read_to_string\<close> also fails on text that is not UTF-8.\<close>

definition read_or_empty :: "init_world \<Rightarrow> files \<Rightarrow> bytes \<Rightarrow> config_error + bytes" where
  "read_or_empty w fs p =
     (if iw_unreadable w p then Inl (Not_Read p)
      else case fs p of
        None \<Rightarrow> Inr []
      | Some s \<Rightarrow> if utf8_valid s then Inr s else Inl (Not_Read p))"

datatype init_error = Unexpected bytes | Config config_error

definition chosen_agents :: "init_world \<Rightarrow> init_args \<Rightarrow> agent list" where
  "chosen_agents w a =
     (case ia_named a of Some g \<Rightarrow> [g] | None \<Rightarrow> filter (iw_has_dir w) [Claude, Codex])"

definition install_agent ::
  "init_world \<Rightarrow> bool \<Rightarrow> bytes \<Rightarrow> files \<Rightarrow> agent \<Rightarrow> config_error + files" where
  "install_agent w project root fs g =
     (let path = config_path g root in
      case g of
        Claude \<Rightarrow>
          (case read_or_empty w fs path of
             Inl e \<Rightarrow> Inl e
           | Inr old \<Rightarrow>
               (case install_claude_file (iw_parse w) (iw_pretty w) (iw_nd7 w) old of
                  Inl e \<Rightarrow> Inl e
                | Inr None \<Rightarrow> Inr fs
                | Inr (Some new) \<Rightarrow> Inr (fs(path \<mapsto> new))))
      | Codex \<Rightarrow>
          if project then Inr fs
          else
            (case read_or_empty w fs path of
               Inl e \<Rightarrow> Inl e
             | Inr old \<Rightarrow>
                 (case install_codex (iw_js w) (iw_sha w) (from_utf8_lossy path) (iw_nd7 w) old of
                    None \<Rightarrow> Inr fs
                  | Some add \<Rightarrow> Inr (fs(path \<mapsto> old @ add)))))"

text \<open>The files when it stops, and why it stopped early, if it did.\<close>

definition install_agents ::
  "init_world \<Rightarrow> bool \<Rightarrow> bytes \<Rightarrow> files \<Rightarrow> agent list \<Rightarrow> files \<times> config_error option" where
  "install_agents w project root fs gs = write_all (install_agent w project root) fs gs"

definition source_rc :: "init_world \<Rightarrow> files \<Rightarrow> bytes \<Rightarrow> config_error + files" where
  "source_rc w fs rc =
     (case read_or_empty w fs rc of
        Inl e \<Rightarrow> Inl e
      | Inr text \<Rightarrow>
          (case source_aliases text of
             None \<Rightarrow> Inr fs
           | Some add \<Rightarrow> Inr (fs(rc \<mapsto> text @ add))))"

definition write_aliases :: "init_world \<Rightarrow> files \<Rightarrow> agent list \<Rightarrow> files \<times> config_error option" where
  "write_aliases w fs agents =
     (let on_path = filter (iw_on_path w) agents;
          home = iw_home w; zshrc = path_join home ''.zshrc''; bashrc = path_join home ''.bashrc''
      in if on_path = [] then (fs, None)
         else (let fs1 = fs(path_join home ''.nd7/aliases.sh'' \<mapsto> aliases_text on_path);
                   rcs = zshrc # (if fs1 bashrc = None then [] else [bashrc])
               in write_all (source_rc w) fs1 rcs))"

definition init_agents :: "init_world \<Rightarrow> bytes list \<Rightarrow> files \<Rightarrow> files \<times> init_error option" where
  "init_agents w args fs =
     (case init_arguments \<lparr>ia_named = None, ia_project = False, ia_aliases = True\<rparr> args of
        Inl arg \<Rightarrow> (fs, Some (Unexpected arg))
      | Inr a \<Rightarrow>
          (let agents = chosen_agents w a;
               root = (if ia_project a then iw_cwd w else iw_home w)
           in case install_agents w (ia_project a) root fs agents of
                (fs1, Some e) \<Rightarrow> (fs1, Some (Config e))
              | (fs1, None) \<Rightarrow>
                  if ia_aliases a then
                    (case write_aliases w fs1 agents of (fs2, e) \<Rightarrow> (fs2, map_option Config e))
                  else (fs1, None)))"

section \<open>The second run\<close>

text \<open>
  What is assumed of a machine: the path of this binary ends in \<^verbatim>\<open>nd7\<close> and, like that of the Codex
  configuration, needs no escape in TOML; hashes are text of that kind; no Codex configuration ends
  in a carriage return; and JSON that is written is UTF-8 and reads back.
\<close>

definition good_binary :: "init_world \<Rightarrow> bool" where
  "good_binary w \<longleftrightarrow> plain_text (iw_nd7 w) \<and> suffix ''nd7'' (iw_nd7 w) \<and> (\<forall>x. plain_text (iw_sha w x))"

definition rewritable :: "init_world \<Rightarrow> bytes \<Rightarrow> bool" where
  "rewritable w old \<longleftrightarrow>
     (\<forall>v v'. read_json (iw_parse w) old = Inr v \<longrightarrow> install_claude (iw_nd7 w) v = Inr (Some v')
        \<longrightarrow> utf8_valid (iw_pretty w v' @ [newline]) \<and> read_json (iw_parse w) (iw_pretty w v' @ [newline]) = Inr v')"

definition good_machine :: "init_world \<Rightarrow> files \<Rightarrow> bool" where
  "good_machine w fs \<longleftrightarrow>
     good_binary w \<and> plain_text (from_utf8_lossy (config_path Codex (iw_home w)))
     \<and> (\<forall>s. fs (config_path Codex (iw_home w)) = Some s \<longrightarrow> s = [] \<or> last s \<noteq> CHR 0x0D)
     \<and> (\<forall>root. rewritable w (case fs (config_path Claude root) of None \<Rightarrow> [] | Some s \<Rightarrow> s))"

text \<open>The files it writes have different names.\<close>

lemma path_join_suffix: "\<not> prefix ''/'' s \<Longrightarrow> suffix s (path_join base s)"
  by (auto simp: path_join_def suffix_def)

lemma path_join_differ:
  "\<not> prefix ''/'' s \<Longrightarrow> \<not> prefix ''/'' t \<Longrightarrow> \<not> suffix s t \<Longrightarrow> \<not> suffix t s \<Longrightarrow> path_join a s \<noteq> path_join b t"
  by (metis path_join_suffix suffix_same_cases)

lemma different_files:
  "path_join a ''.claude/settings.json'' \<noteq> path_join b ''.codex/config.toml''"
  "path_join a ''.claude/settings.json'' \<noteq> path_join b ''.nd7/aliases.sh''"
  "path_join a ''.claude/settings.json'' \<noteq> path_join b ''.zshrc''"
  "path_join a ''.claude/settings.json'' \<noteq> path_join b ''.bashrc''"
  "path_join a ''.codex/config.toml'' \<noteq> path_join b ''.nd7/aliases.sh''"
  "path_join a ''.codex/config.toml'' \<noteq> path_join b ''.zshrc''"
  "path_join a ''.codex/config.toml'' \<noteq> path_join b ''.bashrc''"
  "path_join a ''.nd7/aliases.sh'' \<noteq> path_join b ''.zshrc''"
  "path_join a ''.nd7/aliases.sh'' \<noteq> path_join b ''.bashrc''"
  "path_join a ''.zshrc'' \<noteq> path_join b ''.bashrc''"
  by (rule path_join_differ; simp add: suffix_to_prefix)+

lemma config_path_inject: "config_path g root = config_path h root \<longleftrightarrow> g = h"
  using different_files(1) by (cases g; cases h) (auto simp: config_path_def dest: sym)

text \<open>What one agent's file must be for the install to settle it, and that it does.\<close>

definition ready :: "init_world \<Rightarrow> bool \<Rightarrow> bytes \<Rightarrow> files \<Rightarrow> agent \<Rightarrow> bool" where
  "ready w project root fs g \<longleftrightarrow>
     (let old = (case fs (config_path g root) of None \<Rightarrow> [] | Some s \<Rightarrow> s) in
      case g of
        Claude \<Rightarrow> rewritable w old
      | Codex \<Rightarrow>
          project \<or> plain_text (from_utf8_lossy (config_path Codex root)) \<and> (old = [] \<or> last old \<noteq> CHR 0x0D))"

lemma read_or_empty_Inr:
  assumes "read_or_empty w fs p = Inr s"
  shows "\<not> iw_unreadable w p" "utf8_valid s" "(case fs p of None \<Rightarrow> [] | Some s \<Rightarrow> s) = s"
  using assms by (auto simp: read_or_empty_def split: if_splits option.splits)

text \<open>A file that was read and written is read again, as what was written.\<close>

lemma read_again:
  assumes "read_or_empty w fs p = Inr s" "hs p = (fs(p \<mapsto> new)) p" "utf8_valid new"
  shows "read_or_empty w hs p = Inr new"
  using assms read_or_empty_Inr(1) [OF assms(1)] by (simp add: read_or_empty_def)

lemma read_same: "hs p = fs p \<Longrightarrow> read_or_empty w hs p = read_or_empty w fs p"
  by (simp add: read_or_empty_def)

lemma install_claude_file_again:
  assumes "suffix ''nd7'' nd7" "install_claude_file parse pretty nd7 old = Inr (Some new)"
    "\<And>v v'. read_json parse old = Inr v \<Longrightarrow> install_claude nd7 v = Inr (Some v') \<Longrightarrow>
       read_json parse (pretty v' @ [newline]) = Inr v'"
  shows "install_claude_file parse pretty nd7 new = Inr None"
proof -
  obtain v v' where v: "read_json parse old = Inr v" "install_claude nd7 v = Inr (Some v')"
    "new = pretty v' @ [newline]"
    using assms(2) by (auto simp: install_claude_file_def split: sum.splits)
  with assms(3) claude_again(1) [OF assms(1) v(2)] show ?thesis
    by (simp add: install_claude_file_def)
qed

lemma utf8_installed:
  assumes "good_binary w" "plain_text config" "utf8_valid old"
    "install_codex (iw_js w) (iw_sha w) config (iw_nd7 w) old = Some add"
  shows "utf8_valid (old @ add)"
  using install_codex_ascii [OF assms(2) _ _ assms(4)] assms(1,3)
  by (simp add: good_binary_def utf8_valid_append utf8_valid_ascii ascii_def)

lemma install_agent_settles:
  assumes "good_binary w" "ready w project root fs g" "install_agent w project root fs g = Inr fs'"
  shows "(\<forall>q. q \<noteq> config_path g root \<longrightarrow> fs' q = fs q)
    \<and> (\<forall>hs. hs (config_path g root) = fs' (config_path g root) \<longrightarrow> install_agent w project root hs g = Inr hs)"
proof (cases g)
  case Claude
  let ?p = "config_path Claude root" and ?install = "install_claude_file (iw_parse w) (iw_pretty w) (iw_nd7 w)"
  obtain old where old: "read_or_empty w fs ?p = Inr old"
    using assms(3) Claude by (cases "read_or_empty w fs ?p") (simp_all add: install_agent_def)
  note read = read_or_empty_Inr [OF old]
  have same: "install_agent w project root hs Claude = Inr hs"
    if "read_or_empty w hs ?p = Inr s" "?install s = Inr None" for hs s
    using that by (simp add: install_agent_def)
  obtain r where r: "?install old = Inr r"
    using assms(3) Claude old by (cases "?install old") (simp_all add: install_agent_def)
  show ?thesis
  proof (cases r)
    case None
    then have "fs' = fs" using assms(3) Claude old r by (simp add: install_agent_def)
    with same [of _ old] r None old read_same [of _ ?p fs w] Claude show ?thesis by metis
  next
    case (Some new)
    then have fs': "fs' = fs(?p \<mapsto> new)" using assms(3) Claude old r by (simp add: install_agent_def)
    have ok: "rewritable w old" using assms(2) Claude read(3) by (simp add: ready_def)
    obtain v v' where v: "read_json (iw_parse w) old = Inr v" "install_claude (iw_nd7 w) v = Inr (Some v')"
      "new = iw_pretty w v' @ [newline]"
      using r Some by (auto simp: install_claude_file_def split: sum.splits)
    with ok have "utf8_valid new" by (simp add: rewritable_def)
    moreover have "?install new = Inr None"
      using install_claude_file_again [of "iw_nd7 w" "iw_parse w" "iw_pretty w" old new] assms(1) r Some ok
      by (auto simp: good_binary_def rewritable_def)
    ultimately have "install_agent w project root hs Claude = Inr hs" if "hs ?p = fs' ?p" for hs
      using same [of hs new] read_again [OF old, of hs new] that unfolding fs' by blast
    with fs' Claude show ?thesis by simp
  qed
next
  case Codex
  let ?p = "config_path Codex root"
  let ?install = "install_codex (iw_js w) (iw_sha w) (from_utf8_lossy ?p) (iw_nd7 w)"
  show ?thesis
  proof (cases project)
    case True
    with Codex assms(3) show ?thesis by (auto simp: install_agent_def)
  next
    case False
    obtain old where old: "read_or_empty w fs ?p = Inr old"
      using assms(3) Codex False by (cases "read_or_empty w fs ?p") (simp_all add: install_agent_def)
    note read = read_or_empty_Inr [OF old]
    have ok: "plain_text (from_utf8_lossy ?p)" "old = [] \<or> last old \<noteq> CHR 0x0D"
      using assms(2) Codex False read(3) by (simp_all add: ready_def)
    have sha: "\<forall>x. plain_line (iw_sha w x)" using assms(1) plain_text_chars by (auto simp: good_binary_def)
    have again: "?install (installed (iw_js w) (iw_sha w) (from_utf8_lossy ?p) (iw_nd7 w) old) = None"
      using assms(1) ok sha by (intro install_again) (simp_all add: good_binary_def)
    have same: "install_agent w project root hs Codex = Inr hs"
      if "read_or_empty w hs ?p = Inr s" "?install s = None" for hs s
      using that False by (simp add: install_agent_def)
    show ?thesis
    proof (cases "?install old")
      case None
      then have "fs' = fs" using assms(3) Codex False old by (simp add: install_agent_def)
      with same [of _ old] None old read_same [of _ ?p fs w] Codex show ?thesis by metis
    next
      case (Some add)
      then have fs': "fs' = fs(?p \<mapsto> old @ add)" using assms(3) Codex False old by (simp add: install_agent_def)
      have "?install (old @ add) = None" using again Some by (simp add: installed_def)
      then have "install_agent w project root hs Codex = Inr hs" if "hs ?p = fs' ?p" for hs
        using same [of hs "old @ add"] read_again [OF old, of hs "old @ add"]
          utf8_installed [OF assms(1) ok(1) read(2) Some] that unfolding fs' by blast
      with fs' Codex show ?thesis by simp
    qed
  qed
qed

lemma ready_same: "ready w project root fs g \<Longrightarrow> hs (config_path g root) = fs (config_path g root) \<Longrightarrow>
    ready w project root hs g"
  by (simp add: ready_def)

interpretation agents: install "\<lambda>g. config_path g root" "install_agent w project root"
    "\<lambda>fs g. good_binary w \<and> ready w project root fs g"
  for w project root
proof unfold_locales
  fix k l :: agent
  assume "config_path k root = config_path l root"
  then show "k = l" by (simp add: config_path_inject)
qed (use install_agent_settles ready_same in \<open>blast+\<close>)

section \<open>The aliases twice\<close>

lemma source_rc_settles:
  assumes "source_rc w fs rc = Inr fs'"
  shows "(\<forall>q. q \<noteq> rc \<longrightarrow> fs' q = fs q) \<and> (\<forall>hs. hs rc = fs' rc \<longrightarrow> source_rc w hs rc = Inr hs)"
proof -
  obtain old where old: "read_or_empty w fs rc = Inr old"
    using assms by (cases "read_or_empty w fs rc") (simp_all add: source_rc_def)
  show ?thesis
  proof (cases "source_aliases old")
    case None
    then have "fs' = fs" using assms old by (simp add: source_rc_def)
    moreover have "source_rc w hs rc = Inr hs" if "hs rc = fs rc" for hs
      using None old read_same [of hs rc fs w, OF that] by (simp add: source_rc_def)
    ultimately show ?thesis by simp
  next
    case (Some add)
    then have fs': "fs' = fs(rc \<mapsto> old @ add)" using assms old by (simp add: source_rc_def)
    have "ascii SOURCE_LINE" by (simp add: SOURCE_LINE_def byte_in_def)
    then have "ascii (newline_pad old)" "ascii (unlines [SOURCE_LINE])"
      unfolding ascii_unlines by (simp_all add: newline_pad_def byte_in_def)
    with Some have "ascii add" by (auto simp: source_aliases_def split: if_splits)
    then have "utf8_valid (old @ add)"
      using read_or_empty_Inr(2) [OF old] by (simp add: utf8_valid_append utf8_valid_ascii ascii_def)
    then have "read_or_empty w hs rc = Inr (old @ add)" if "hs rc = fs' rc" for hs
      using read_again [OF old, of hs "old @ add"] that unfolding fs' by blast
    with source_again [OF Some] fs' show ?thesis by (simp add: source_rc_def)
  qed
qed

interpretation rcs: install "\<lambda>rc. rc" "source_rc w" "\<lambda>fs rc. True" for w
  using source_rc_settles by unfold_locales blast+

lemma source_keeps:
  "write_all (source_rc w) fs rcs = (fs', e) \<Longrightarrow> fs q \<noteq> None \<Longrightarrow> fs' q \<noteq> None"
proof (induction rcs arbitrary: fs)
  case (Cons rc rcs)
  show ?case
  proof (cases "source_rc w fs rc")
    case (Inr f)
    then have "f q \<noteq> None" using Cons.prems(2) by (auto simp: source_rc_def split: sum.splits option.splits if_splits)
    with Cons Inr show ?thesis by simp
  qed (use Cons.prems in simp)
qed simp

lemma write_aliases_settles:
  assumes "write_aliases w fs gs = (fs', None)"
  shows "q \<notin> path_join (iw_home w) ` {''.nd7/aliases.sh'', ''.zshrc'', ''.bashrc''} \<Longrightarrow> fs' q = fs q"
    and "write_aliases w fs' gs = (fs', None)"
proof -
  define a z b where "a = path_join (iw_home w) ''.nd7/aliases.sh''"
    and "z = path_join (iw_home w) ''.zshrc''" and "b = path_join (iw_home w) ''.bashrc''"
  have ne: "a \<noteq> z" "a \<noteq> b" "z \<noteq> b" using different_files by (simp_all add: a_def z_def b_def)
  define rcs where "rcs x = (if x = None then [z] else [z, b])" for x :: "bytes option"
  have d: "distinct (rcs x)" "a \<notin> set (rcs x)" "set (rcs x) \<subseteq> {z, b}" for x using ne by (auto simp: rcs_def)
  have both: "(q \<notin> {a, z, b} \<longrightarrow> fs' q = fs q) \<and> write_aliases w fs' gs = (fs', None)"
  proof (cases "filter (iw_on_path w) gs = []")
    case True
    with assms show ?thesis by (simp add: write_aliases_def)
  next
    case False
    let ?text = "aliases_text (filter (iw_on_path w) gs)"
    let ?fs1 = "fs(a \<mapsto> ?text)"
    have w: "write_aliases w fs gs = write_all (source_rc w) (fs(a \<mapsto> ?text)) (rcs (fs b))" for fs
      using False ne by (simp add: write_aliases_def Let_def a_def z_def b_def rcs_def del: write_all.simps)
    have all: "write_all (source_rc w) ?fs1 (rcs (fs b)) = (fs', None)" using assms unfolding w .
    note own = rcs.all_write_own [OF _ d(1) all]
    have "fs' a = ?fs1 a" using own [of a] d(2) by simp
    then have same: "fs'(a \<mapsto> ?text) = fs'" by (simp add: fun_upd_idem)
    have "fs' b = None \<longleftrightarrow> fs b = None"
      using source_keeps [OF all, of b] own [of b] ne by (cases "fs b") (simp_all add: rcs_def)
    then have "rcs (fs' b) = rcs (fs b)" by (simp add: rcs_def)
    then have "write_aliases w fs' gs = (fs', None)"
      using rcs.all_settle [OF _ d(1) all, of fs'] by (simp add: w same)
    moreover have "q \<notin> {a, z, b} \<Longrightarrow> fs' q = fs q" using own [of q] d(3) [of "fs b"] by auto
    ultimately show ?thesis by blast
  qed
  then show "write_aliases w fs' gs = (fs', None)" ..
  show "q \<notin> path_join (iw_home w) ` {''.nd7/aliases.sh'', ''.zshrc'', ''.bashrc''} \<Longrightarrow> fs' q = fs q"
    using both by (simp add: a_def z_def b_def)
qed

section \<open>The whole command twice\<close>

lemma good_machine_ready:
  assumes "good_machine w fs" "project \<or> root = iw_home w"
  shows "good_binary w \<and> (\<forall>g. ready w project root fs g)"
proof -
  have "ready w project root fs g" for g
    using assms by (cases g) (auto simp: good_machine_def ready_def Let_def split: option.split)
  with assms(1) show ?thesis by (simp add: good_machine_def)
qed

lemma init_settles:
  assumes "good_machine w fs" "init_agents w args fs = (fs', None)"
  shows "init_agents w args fs' = (fs', None)"
proof -
  obtain a f1 where a: "init_arguments \<lparr>ia_named = None, ia_project = False, ia_aliases = True\<rparr> args = Inr a"
    and i: "install_agents w (ia_project a) (if ia_project a then iw_cwd w else iw_home w) fs (chosen_agents w a) = (f1, None)"
    and fs': "if ia_aliases a then write_aliases w f1 (chosen_agents w a) = (fs', None) else fs' = f1"
    using assms(2) by (auto simp: init_agents_def Let_def split: sum.splits option.splits prod.splits if_splits)
  let ?root = "if ia_project a then iw_cwd w else iw_home w" and ?gs = "chosen_agents w a"
  have "\<forall>g \<in> set ?gs. good_binary w \<and> ready w (ia_project a) ?root fs g"
    using good_machine_ready [OF assms(1), of "ia_project a" ?root] by auto
  moreover have "distinct ?gs" by (auto simp: chosen_agents_def split: option.split)
  ultimately have again: "\<forall>hs. (\<forall>g \<in> set ?gs. hs (config_path g ?root) = f1 (config_path g ?root)) \<longrightarrow>
       install_agents w (ia_project a) ?root hs ?gs = (hs, None)"
    using agents.all_settle [OF _ _ i [unfolded install_agents_def]] by (simp add: install_agents_def)
  have "config_path g ?root \<notin> path_join (iw_home w) ` {''.nd7/aliases.sh'', ''.zshrc'', ''.bashrc''}" for g
    using different_files by (cases g) (simp_all add: config_path_def)
  then have "fs' (config_path g ?root) = f1 (config_path g ?root)" for g
    using write_aliases_settles(1) [of w f1 ?gs fs'] fs' by (auto split: if_splits)
  with again have "install_agents w (ia_project a) ?root fs' ?gs = (fs', None)" by blast
  moreover have "ia_aliases a \<Longrightarrow> write_aliases w fs' ?gs = (fs', None)"
    using write_aliases_settles(2) [of w f1 ?gs fs'] fs' by simp
  ultimately show ?thesis using a by (simp add: init_agents_def Let_def)
qed

section \<open>One agent at a time\<close>

text \<open>
  The aliases file is written anew from the agents of this run, so configuring one agent leaves an
  alias for that agent alone, whatever the file had before.
\<close>

lemma init_one_agent_aliases:
  assumes "init_agents w [agent_name g] fs = (fs', None)" "iw_on_path w g"
  shows "fs' (path_join (iw_home w) ''.nd7/aliases.sh'') = Some (aliases_text [g])"
proof -
  let ?a = "path_join (iw_home w) ''.nd7/aliases.sh''"
  have "init_arguments \<lparr>ia_named = None, ia_project = False, ia_aliases = True\<rparr> [agent_name g]
      = Inr \<lparr>ia_named = Some g, ia_project = False, ia_aliases = True\<rparr>"
    by (cases g) (simp_all add: agent_name_def)
  then obtain f1 where f1: "write_aliases w f1 [g] = (fs', None)"
    using assms(1) by (auto simp: init_agents_def chosen_agents_def Let_def simp del: init_arguments.simps
        split: option.splits prod.splits)
  then obtain rcs where all: "write_all (source_rc w) (f1(?a \<mapsto> aliases_text [g])) rcs = (fs', None)"
    and rcs: "distinct rcs" "?a \<notin> set rcs"
    using assms(2) different_files(8) [of "iw_home w" "iw_home w"] different_files(9) [of "iw_home w" "iw_home w"]
      different_files(10) [of "iw_home w" "iw_home w"]
    by (auto simp: write_aliases_def Let_def simp del: write_all.simps split: if_splits)
  have "fs' ?a = (f1(?a \<mapsto> aliases_text [g])) ?a"
    using rcs.all_write_own [OF _ rcs(1) all, of ?a] rcs(2) by simp
  then show ?thesis by simp
qed

end
