(* ===== verification/Commands.thy ===== *)
theory Commands
  imports Grant HookPrefix OpenProxy Ship
begin

text \<open>
  The command line of \<^verbatim>\<open>src/src/bin/nd7.rs\<close>: which command the arguments name and its exit code, the
  durations of \<^verbatim>\<open>ship\<close>, the arguments of \<^verbatim>\<open>run\<close>, and the commands that are a step between two
  other parts, \<^verbatim>\<open>hook-prefix\<close> and \<^verbatim>\<open>open\<close>.
\<close>

section \<open>Durations\<close>

datatype duration_error = No_Unit bytes | Not_Whole bytes | Too_Long bytes

fun duration_error_str :: "duration_error \<Rightarrow> bytes" where
  "duration_error_str (No_Unit s) = ''duration `'' @ s @ ''`: expected a number and s, m, h or d''"
| "duration_error_str (Not_Whole s) = ''duration `'' @ s @ ''`: not a whole number''"
| "duration_error_str (Too_Long s) = ''duration `'' @ s @ ''`: too long''"

definition unit_seconds :: "bytes \<Rightarrow> u64 option" where
  "unit_seconds u =
     (if u = ''s'' then Some 1 else if u = ''m'' then Some 60
      else if u = ''h'' then Some (60 * 60) else if u = ''d'' then Some (24 * 60 * 60) else None)"

definition checked_mul :: "u64 \<Rightarrow> u64 \<Rightarrow> u64 option" where
  "checked_mul a b = (if unat a * unat b < 2 ^ 64 then Some (a * b) else None)"

definition parse_duration :: "bytes \<Rightarrow> duration_error + u64" where
  "parse_duration s =
     (let unit_at = length s - 1 in
      case unit_seconds (drop unit_at s) of
        None \<Rightarrow> Inl (No_Unit s)
      | Some unit \<Rightarrow>
     (case parse_u64 (take unit_at s) of
        None \<Rightarrow> Inl (Not_Whole s)
      | Some digits \<Rightarrow>
     (case checked_mul digits unit of
        None \<Rightarrow> Inl (Too_Long s)
      | Some seconds \<Rightarrow> Inr seconds)))"

section \<open>Options\<close>

datatype ship_option_error =
  Unknown_Option bytes | Needs_Duration bytes | Bad_Duration duration_error

fun ship_options ::
  "u64 option \<Rightarrow> u64 option \<Rightarrow> bytes list \<Rightarrow> ship_option_error + u64 option \<times> u64 option" where
  "ship_options every prune_after [] = Inr (every, prune_after)"
| "ship_options every prune_after (arg # args) =
     (if arg \<noteq> ''--every'' \<and> arg \<noteq> ''--prune-after'' then Inl (Unknown_Option arg)
      else (case args of
              [] \<Rightarrow> Inl (Needs_Duration arg)
            | v # rest \<Rightarrow>
                (case parse_duration v of
                   Inl e \<Rightarrow> Inl (Bad_Duration e)
                 | Inr d \<Rightarrow>
                     if arg = ''--every'' then ship_options (Some d) prune_after rest
                     else ship_options every (Some d) rest)))"

text \<open>The profile, the program and the program's own arguments.\<close>

fun run_args :: "bytes option \<Rightarrow> bytes list \<Rightarrow> (bytes option \<times> bytes \<times> bytes list) option" where
  "run_args profile [] = None"
| "run_args profile (arg # args) =
     (if arg = ''--profile'' then
        (case args of [] \<Rightarrow> None | p # rest \<Rightarrow> run_args (Some p) rest)
      else Some (profile, arg, args))"

text \<open>The child's exit code becomes ours; \<^verbatim>\<open>as u8\<close> keeps the low eight bits.\<close>

definition run_code :: "int option \<Rightarrow> int option \<Rightarrow> nat" where
  "run_code code signal =
     nat ((case code of
             Some c \<Rightarrow> c
           | None \<Rightarrow> 128 + (case signal of Some s \<Rightarrow> s | None \<Rightarrow> 0)) mod 256)"

section \<open>The dispatch\<close>

datatype command =
    Record_Hook
  | Verify bytes
  | Verify_Usage
  | Enroll bytes bytes bool
  | Enroll_Usage
  | Ship_Run "u64 option" "u64 option"
  | Ship_Usage ship_option_error
  | Run "bytes list"
  | Init "bytes list"
  | Hook_Prefix
  | Open_Url "bytes list"
  | Change_Grant verb "bytes list"
  | Help
  | Unknown_Command bytes
  | No_Command

definition enroll_args :: "bytes list \<Rightarrow> command" where
  "enroll_args rest =
     (case filter (\<lambda>arg. arg \<noteq> ''--rotate'') rest of
        [server, token] \<Rightarrow> Enroll server token (''--rotate'' \<in> set rest)
      | _ \<Rightarrow> Enroll_Usage)"

fun command_of_args :: "bytes list \<Rightarrow> command" where
  "command_of_args [] = No_Command"
| "command_of_args (name # args) =
     (if name = ''record'' then Record_Hook
      else if name = ''verify'' then (case args of sid # _ \<Rightarrow> Verify sid | [] \<Rightarrow> Verify_Usage)
      else if name = ''enroll'' then enroll_args args
      else if name = ''ship'' then
        (case ship_options None None args of
           Inr (every, prune_after) \<Rightarrow> Ship_Run every prune_after
         | Inl e \<Rightarrow> Ship_Usage e)
      else if name = ''run'' then Run args
      else if name = ''init'' then Init args
      else if name = ''hook-prefix'' then Hook_Prefix
      else if name = ''open'' then Open_Url args
      else if name = ''allow'' then Change_Grant Allow args
      else if name = ''deny'' then Change_Grant Deny args
      else if name = ''-h'' \<or> name = ''--help'' then Help
      else Unknown_Command name)"

text \<open>
  The exit code: \<open>ok\<close> says whether the function behind the command returned \<^verbatim>\<open>Ok\<close>, \<open>code\<close> what
  \<^verbatim>\<open>ship\<close> returned, or the program that was run.
\<close>

fun main_code :: "command \<Rightarrow> bool \<Rightarrow> nat \<Rightarrow> nat" where
  "main_code Record_Hook ok code = 0"
| "main_code (Verify _) ok code = (if ok then 0 else 1)"
| "main_code Verify_Usage ok code = 2"
| "main_code (Enroll _ _ _) ok code = (if ok then 0 else 1)"
| "main_code Enroll_Usage ok code = 2"
| "main_code (Ship_Run _ _) ok code = (if ok then code else 1)"
| "main_code (Ship_Usage _) ok code = 2"
| "main_code (Run args) ok code = (if run_args None args = None then 2 else if ok then code else 2)"
| "main_code (Init _) ok code = (if ok then 0 else 2)"
| "main_code Hook_Prefix ok code = 0"
| "main_code (Open_Url _) ok code = (if ok then 0 else 1)"
| "main_code (Change_Grant _ _) ok code = (if ok then 0 else 2)"
| "main_code Help ok code = 0"
| "main_code (Unknown_Command _) ok code = 2"
| "main_code No_Command ok code = 2"

section \<open>The hook\<close>

text \<open>
  \<^verbatim>\<open>hook_prefix\<close>: the reply it prints, if any. \<open>session\<close> says whether \<^verbatim>\<open>ND7_SESSION\<close> is set,
  \<open>exit\<close> is \<^verbatim>\<open>exit_path()\<close>.
\<close>

definition hook_prefix_command ::
  "'v value_api \<Rightarrow> (bytes \<Rightarrow> 'e + 'v) \<Rightarrow> 'e \<Rightarrow> bool \<Rightarrow> bytes option \<Rightarrow> bytes \<Rightarrow> 'v prefix_reply option" where
  "hook_prefix_command api parse not_object session exit stdin =
     (if \<not> session then None
      else (case (from_utf8 stdin, exit) of
              (Some payload, Some exit) \<Rightarrow>
                (case respond api parse not_object payload exit of
                   Inr reply \<Rightarrow> reply
                 | Inl _ \<Rightarrow> None)
            | _ \<Rightarrow> None))"

section \<open>The open shim\<close>

text \<open>
  \<^verbatim>\<open>open\<close>: \<open>session\<close> is \<^verbatim>\<open>ND7_SESSION\<close>, \<open>broker\<close> the exchange over the socket of that session:
  what comes back for what was written, or an I/O error. The result is whether it exits with 0, and
  what it says on stderr.
\<close>

definition open_request :: "bytes list \<Rightarrow> bytes" where
  "open_request args = unlines args"

definition open_command ::
  "bytes option \<Rightarrow> (bytes \<Rightarrow> bytes \<Rightarrow> bytes + bytes) \<Rightarrow> bytes list \<Rightarrow> bool \<times> bytes" where
  "open_command session broker args =
     (case session of
        None \<Rightarrow> (False, ''nd7 open: not inside an nd7 session'')
      | Some s \<Rightarrow>
          (case broker s (open_request args) of
             Inr reply \<Rightarrow>
               if prefix ''ok'' reply then (True, [])
               else (False, ''nd7 open: '' @ trim reply)
           | Inl e \<Rightarrow> (False, ''nd7 open: '' @ e)))"

section \<open>What a duration is\<close>

lemma unit_seconds_Some:
  "unit_seconds u = Some n \<longleftrightarrow>
     (u, n) \<in> {(''s'', 1), (''m'', 60), (''h'', 60 * 60), (''d'', 24 * 60 * 60)}"
  by (auto simp: unit_seconds_def)

lemma parse_duration_Inr:
  "parse_duration s = Inr d \<longleftrightarrow>
     (\<exists>digits n c u. s = digits @ [c] \<and> unit_seconds [c] = Some u \<and> parse_u64 digits = Some n
        \<and> unat n * unat u < 2 ^ 64 \<and> d = n * u)"
proof (cases s rule: rev_cases)
  case Nil
  then show ?thesis by (simp add: parse_duration_def unit_seconds_def)
next
  case (snoc digits c)
  then show ?thesis
    by (auto simp: parse_duration_def checked_mul_def split: option.split)
qed

lemma parse_duration_seconds:
  "parse_duration (digits @ [c]) = Inr d \<Longrightarrow> unit_seconds [c] = Some u \<Longrightarrow> parse_u64 digits = Some n \<Longrightarrow>
     unat d = unat n * unat u"
  by (auto simp: parse_duration_Inr unat_mult_lem [symmetric])

section \<open>A URL that is opened\<close>

text \<open>An argument without a line break reaches the broker as it is.\<close>

definition plain_arg :: "bytes \<Rightarrow> bool" where
  "plain_arg a \<longleftrightarrow> newline \<notin> set a \<and> utf8_valid a \<and> \<not> suffix [CHR 0x0D] a"

lemma text_line_plain: "plain_arg a \<Longrightarrow> text_line (a @ [newline]) = a"
  by (cases "strip_suffix [CHR 0x0D] a") (auto simp: plain_arg_def text_line_def strip_suffix_Some suffix_def)

lemma read_args_request: "list_all plain_arg args \<Longrightarrow> read_args (open_request args) = args"
proof -
  assume a: "list_all plain_arg args"
  then have "map (\<lambda>a. text_line (a @ [newline])) args = args"
    by (intro map_idI text_line_plain) (simp add: list_all_iff)
  moreover have "list_all one_line args" using a by (simp add: list_all_iff one_line_def plain_arg_def)
  ultimately have "text_lines (open_request args) = args"
    by (simp add: text_lines_def open_request_def split_inclusive_unlines comp_def)
  then show ?thesis
    using a by (simp add: read_args_def takeWhile_eq_all_conv list_all_iff plain_arg_def)
qed

lemma check_open_url: "check_open args = Inr url \<Longrightarrow> args = [url]"
  by (cases args rule: list.exhaust; cases "tl args")
    (auto simp: check_open_def Let_def split: if_splits option.splits prod.splits)

lemma open_succeeds:
  assumes "list_all plain_arg args"
  shows "fst (open_command (Some s)
      (\<lambda>s request. Inr (h_reply (handle_open index opener opener_path at pid request))) args)
    \<longleftrightarrow> (\<exists>url. args = [url] \<and> check_open args = Inr url \<and> opener url = Exit_Ok)"
  using check_open_url [of args]
  by (auto simp: open_command_def handle_open_def read_args_request [OF assms] Let_def
      split: sum.splits open_status.splits)

end
