(* ===== verification/Recording.thy ===== *)
theory Recording
  imports SessionLog
begin

text \<open>
  \<^verbatim>\<open>nd7 record\<close> and \<^verbatim>\<open>nd7 verify\<close>, from \<^verbatim>\<open>src/src/bin/nd7.rs\<close>: a hook's payload becomes an event and
  a frame of the session it names; what \<^verbatim>\<open>verify\<close> answers and prints. The deserialisers and
  serialisers of \<^verbatim>\<open>serde\<close> are one record of arguments.
\<close>

section \<open>The facts of an invocation\<close>

text \<open>
  \<^verbatim>\<open>src/src/hook/invocation.rs\<close>: the host name that \<^verbatim>\<open>gethostname\<close> left in its buffer, and the
  nanoseconds since the epoch, when the clock is past it, cut to 64 bits.
\<close>

definition hostname :: "int \<Rightarrow> bytes \<Rightarrow> bytes" where
  "hostname rc buf =
     (case (if rc = 0 then from_utf8 (takeWhile (\<lambda>b. b \<noteq> CHR 0x00) buf) else None) of
        Some s \<Rightarrow> s
      | None \<Rightarrow> ''unknown'')"

definition now_of :: "nat option \<Rightarrow> i64" where
  "now_of since_epoch = (case since_epoch of Some n \<Rightarrow> word_of_nat n | None \<Rightarrow> 0)"

section \<open>Recording a hook\<close>

record ('v, 'e) json_api =
  ja_values :: "'v value_api"
  ja_parse :: "bytes \<Rightarrow> 'e + 'v"
  ja_custom :: "'v \<Rightarrow> 'e"
  ja_common :: "'v \<Rightarrow> 'e + common"
  ja_event :: "'v \<Rightarrow> 'e + 'v hook_event"
  ja_str :: "bytes \<Rightarrow> bytes"
  ja_body :: "'v body \<Rightarrow> bytes"

datatype 'e record_error = RE_Stdin | RE_Payload "'e parse_error" | RE_Log log_error

text \<open>
  \<^verbatim>\<open>record\<close>: the sessions after it, and what it reports on stderr, if anything. The exit code is 0
  either way.
\<close>

definition record_command ::
  "(bytes \<Rightarrow> bytes) \<Rightarrow> ('v, 'e) json_api \<Rightarrow> bytes \<Rightarrow> sessions \<Rightarrow> invocation \<Rightarrow> bytes
   \<Rightarrow> (sessions \<times> 'e record_error option) option" where
  "record_command H J root ss facts stdin =
     (case from_utf8 stdin of
        None \<Rightarrow> Some (ss, Some RE_Stdin)
      | Some raw \<Rightarrow>
     (case from_str (ja_values J) (ja_parse J) (ja_custom J) (ja_common J) (ja_event J) raw of
        Inl e \<Rightarrow> Some (ss, Some (RE_Payload e))
      | Inr input \<Rightarrow>
          (let event = event_new (ja_values J) input facts in
           case open_in root (ev_session_id event) of
             Inl e \<Rightarrow> Some (ss, Some (RE_Log e))
           | Inr log \<Rightarrow>
               map_option (\<lambda>(ss', r). (ss', map_option (\<lambda>e. RE_Log (Chain e)) r))
                 (append_event H (ja_str J) (ja_body J) (sl_session_id log) ss event))))"

text \<open>One hook after another; each is its invocation and its stdin.\<close>

fun run_records ::
  "(bytes \<Rightarrow> bytes) \<Rightarrow> ('v, 'e) json_api \<Rightarrow> bytes \<Rightarrow> sessions \<Rightarrow> (invocation \<times> bytes) list \<Rightarrow> sessions option" where
  "run_records H J root ss [] = Some ss"
| "run_records H J root ss ((facts, stdin) # hooks) =
     (case record_command H J root ss facts stdin of
        None \<Rightarrow> None
      | Some (ss', _) \<Rightarrow> run_records H J root ss' hooks)"

section \<open>Verifying a session\<close>

definition verify_command ::
  "(bytes \<Rightarrow> bytes) \<Rightarrow> (log_error \<Rightarrow> bytes) \<Rightarrow> bytes \<Rightarrow> bytes \<Rightarrow> sessions \<Rightarrow> chain_error + report" where
  "verify_command H refusal root sid ss =
     (case open_in root sid of
        Inl e \<Rightarrow> Inl (Io (refusal e))
      | Inr log \<Rightarrow> verify H (sl_session_id log) ss)"

definition CAVEAT :: bytes where
  "CAVEAT = ''note: proves the log is unchanged since its last frame was written by this machine; anyone with write access could rewrite the whole chain.''"

text \<open>What is printed; \<^const>\<open>None\<close> is the panic of \<^verbatim>\<open>&h[..16]\<close> on a shorter hash.\<close>

definition verify_output :: "report \<Rightarrow> bytes option" where
  "verify_output r =
     map_option (\<lambda>head. unlines [''verified: '' @ show_u64 (rp_frames r) @ '' frames, head '' @ head, CAVEAT])
       (case rp_last_hash r of
          None \<Rightarrow> Some ''none''
        | Some h \<Rightarrow> if length h < 16 then None else Some (take 16 h))"

section \<open>Every hook is recorded\<close>

text \<open>The event a hook's payload is, and the events of a session, in the order the hooks ran.\<close>

definition hook_event_of :: "('v, 'e) json_api \<Rightarrow> invocation \<times> bytes \<Rightarrow> 'v event option" where
  "hook_event_of J h =
     (case from_utf8 (snd h) of
        None \<Rightarrow> None
      | Some raw \<Rightarrow>
          (case from_str (ja_values J) (ja_parse J) (ja_custom J) (ja_common J) (ja_event J) raw of
             Inl _ \<Rightarrow> None
           | Inr input \<Rightarrow> Some (event_new (ja_values J) input (fst h))))"

definition events_for :: "('v, 'e) json_api \<Rightarrow> bytes \<Rightarrow> (invocation \<times> bytes) list \<Rightarrow> 'v event list" where
  "events_for J sid hooks = filter (\<lambda>e. ev_session_id e = sid) (List.map_filter (hook_event_of J) hooks)"

text \<open>The frames of a session after these hooks.\<close>

definition session_frames ::
  "(bytes \<Rightarrow> bytes) \<Rightarrow> ('v, 'e) json_api \<Rightarrow> bytes \<Rightarrow> (invocation \<times> bytes) list \<Rightarrow> bytes list" where
  "session_frames H J sid hooks = frames_of H (ja_str J) (ja_body J) sid [] (events_for J sid hooks)"

lemma events_for_simps [simp]:
  "events_for J sid [] = []"
  "events_for J sid (h # hooks) =
     (case hook_event_of J h of
        Some e \<Rightarrow> if ev_session_id e = sid then e # events_for J sid hooks else events_for J sid hooks
      | None \<Rightarrow> events_for J sid hooks)"
  by (simp_all add: events_for_def map_filter_simps split: option.split)

lemma length_events_for: "length (events_for J sid hooks) \<le> length hooks"
  by (induction hooks) (auto split: option.split)

lemma event_new_unsealed [simp]: "ev_hash (event_new api input facts) = None"
  by (simp add: event_new_def Let_def split: prod.split)

lemma hook_event_unsealed: "hook_event_of J h = Some e \<Longrightarrow> ev_hash e = None"
  by (auto simp: hook_event_of_def split: option.splits sum.splits)

text \<open>What one hook does to the sessions.\<close>

lemma record_command_event:
  "record_command H J root ss facts stdin =
     (case hook_event_of J (facts, stdin) of
        None \<Rightarrow> Some (ss, Some (case from_utf8 stdin of None \<Rightarrow> RE_Stdin
           | Some raw \<Rightarrow> RE_Payload (projl (from_str (ja_values J) (ja_parse J) (ja_custom J) (ja_common J)
               (ja_event J) raw))))
      | Some e \<Rightarrow>
          (case open_in root (ev_session_id e) of
             Inl err \<Rightarrow> Some (ss, Some (RE_Log err))
           | Inr log \<Rightarrow> map_option (\<lambda>(ss', r). (ss', map_option (\<lambda>e. RE_Log (Chain e)) r))
               (append_event H (ja_str J) (ja_body J) (ev_session_id e) ss e)))"
  by (auto simp: record_command_def hook_event_of_def open_in_def Let_def split: option.split sum.split)

definition safe_id :: "bytes \<Rightarrow> bool" where
  "safe_id sid \<longleftrightarrow> check_session_id sid = Inr ()"

lemma open_safe: "open_in root sid = (if safe_id sid then Inr \<lparr>sl_session_id = sid, sl_dir = sl_dir (projr (open_in root sid))\<rparr>
    else Inl (projl (open_in root sid)))"
  by (auto simp: open_in_def safe_id_def split: sum.split)

definition all_settled :: "(bytes \<Rightarrow> bytes) \<Rightarrow> (bytes \<Rightarrow> bytes list) \<Rightarrow> sessions \<Rightarrow> bool" where
  "all_settled H L ss \<longleftrightarrow>
     (\<forall>sid. safe_id sid \<longrightarrow> settled H sid (L sid) (create_dir ss sid) \<and> (ss sid = None \<longleftrightarrow> L sid = []))"

lemma record_step:
  assumes "serde_str (ja_str J)" "serde_body (ja_body J)" "hash_hex H"
    "all_settled H L ss" "\<forall>sid. Suc (length (L sid)) < 2 ^ 64"
  obtains ss' r where "record_command H J root ss facts stdin = Some (ss', r)"
    "all_settled H (\<lambda>sid. frames_of H (ja_str J) (ja_body J) sid (L sid) (events_for J sid [(facts, stdin)])) ss'"
proof (cases "hook_event_of J (facts, stdin)")
  case None
  then show thesis using that assms(4) by (simp add: record_command_event)
next
  case (Some e)
  let ?sid = "ev_session_id e"
  show thesis
  proof (cases "safe_id ?sid")
    case False
    then have "all_settled H (\<lambda>sid. frames_of H (ja_str J) (ja_body J) sid (L sid) (events_for J sid [(facts, stdin)])) ss"
      using assms(4) Some by (auto simp: all_settled_def)
    moreover obtain err where "open_in root ?sid = Inl err" using False open_safe by metis
    ultimately show thesis using that Some by (simp add: record_command_event)
  next
    case True
    then have "settled H ?sid (L ?sid) (create_dir ss ?sid)" using assms(4) by (simp add: all_settled_def)
    then obtain d where d: "append_event H (ja_str J) (ja_body J) ?sid ss e = Some (ss(?sid \<mapsto> d), None)"
      "settled H ?sid (L ?sid @ [next_frame H (ja_str J) (ja_body J) ?sid (L ?sid) e]) d"
      using append_event_recoverable [OF assms(1-3) hook_event_unsealed [OF Some], of ?sid "L ?sid" ss]
        settled_recoverable assms(5) by blast
    moreover obtain log where "open_in root ?sid = Inr log" using True open_safe by metis
    ultimately have "record_command H J root ss facts stdin = Some (ss(?sid \<mapsto> d), None)"
      using Some by (simp add: record_command_event)
    moreover have "all_settled H (\<lambda>sid. frames_of H (ja_str J) (ja_body J) sid (L sid) (events_for J sid [(facts, stdin)]))
        (ss(?sid \<mapsto> d))"
      unfolding all_settled_def
    proof (intro allI impI)
      fix sid assume "safe_id sid"
      then have old: "settled H sid (L sid) (create_dir ss sid) \<and> (ss sid = None \<longleftrightarrow> L sid = [])"
        using assms(4) by (simp add: all_settled_def)
      show "settled H sid (frames_of H (ja_str J) (ja_body J) sid (L sid) (events_for J sid [(facts, stdin)]))
          (create_dir (ss(?sid \<mapsto> d)) sid)
        \<and> ((ss(?sid \<mapsto> d)) sid = None \<longleftrightarrow> frames_of H (ja_str J) (ja_body J) sid (L sid) (events_for J sid [(facts, stdin)]) = [])"
        using old d(2) Some by (cases "sid = ?sid") (auto simp: create_dir_def)
    qed
    ultimately show thesis by (rule that)
  qed
qed

lemma frames_of_append: "frames_of H js bj sid ls (es @ fs) = frames_of H js bj sid (frames_of H js bj sid ls es) fs"
  by (induction es arbitrary: ls) simp_all

lemma events_for_Cons:
  "events_for J sid (h # hooks) = events_for J sid [h] @ events_for J sid hooks"
  by (simp split: option.split)

lemma run_records_settled:
  assumes "serde_str (ja_str J)" "serde_body (ja_body J)" "hash_hex H"
    "all_settled H L ss" "\<forall>sid. length (L sid) + length hooks < 2 ^ 64"
  shows "\<exists>ss'. run_records H J root ss hooks = Some ss'
    \<and> all_settled H (\<lambda>sid. frames_of H (ja_str J) (ja_body J) sid (L sid) (events_for J sid hooks)) ss'"
  using assms(4,5)
proof (induction hooks arbitrary: L ss)
  case Nil
  then show ?case by simp
next
  case (Cons h hooks)
  obtain facts stdin where h: "h = (facts, stdin)" by (cases h)
  let ?L = "\<lambda>sid. frames_of H (ja_str J) (ja_body J) sid (L sid) (events_for J sid [(facts, stdin)])"
  have "Suc (length (L sid)) < 2 ^ 64" for sid
    using Cons.prems(2) [rule_format, of sid] by (rule order_le_less_trans [rotated]) simp
  then obtain ss1 r where s: "record_command H J root ss facts stdin = Some (ss1, r)" "all_settled H ?L ss1"
    using record_step [OF assms(1-3) Cons.prems(1)] by metis
  have "length (?L sid) + length hooks < 2 ^ 64" for sid
    using length_events_for [of J sid "[(facts, stdin)]"]
    by (intro order_le_less_trans [OF _ Cons.prems(2) [rule_format, of sid]]) simp
  then obtain ss' where "run_records H J root ss1 hooks = Some ss'"
    "all_settled H (\<lambda>sid. frames_of H (ja_str J) (ja_body J) sid (?L sid) (events_for J sid hooks)) ss'"
    using Cons.IH [OF s(2)] by blast
  then show ?case
    unfolding h events_for_Cons [of J _ _ hooks] frames_of_append using s(1) by simp
qed

end
