(* ===== verification/RunProperties.thy ===== *)
theory RunProperties
  imports SessionProperties Launch Init Commands Recording Samples
begin

text \<open>
  The properties of the command line: what a series of hooks leaves and \<^verbatim>\<open>verify\<close> says of it, what
  \<^verbatim>\<open>init\<close> writes and that it writes it once, and how a run hands its policy to the commands in it.
\<close>

section \<open>Recording\<close>

text \<open>
  C19. Starting from no sessions, any series of hooks, of any sessions and with payloads that may be
  broken, leaves in each session one linked frame per readable payload of that session, in order,
  and \<^verbatim>\<open>nd7 verify\<close> reports exactly their number and the hash of the last.
\<close>
theorem hooks_recorded:
  assumes "serde_str (ja_str J)" "serde_body (ja_body J)" "hash_hex H"
    "length hooks < 2 ^ 64" "check_session_id sid = Inr ()"
  shows "\<exists>ss. run_records H J root Map.empty hooks = Some ss
    \<and> (if events_for J sid hooks = []
       then verify_command H refusal root sid ss = Inl (Io (''no such session: '' @ sid))
       else \<exists>d r. ss sid = Some d \<and> sd_events d = Some (unlines (session_frames H J sid hooks))
         \<and> verify_command H refusal root sid ss = Inr r
         \<and> verify_output r = Some (unlines [''verified: '' @ show_nat (length (events_for J sid hooks))
             @ '' frames, head '' @ take 16 (frame_hash (last (session_frames H J sid hooks))), CAVEAT]))"
proof -
  let ?ls = "session_frames H J sid hooks"
  have "all_settled H (\<lambda>sid. []) Map.empty" by (simp add: all_settled_def create_dir_def)
  then obtain ss where ss: "run_records H J root Map.empty hooks = Some ss"
    and "all_settled H (\<lambda>sid. frames_of H (ja_str J) (ja_body J) sid [] (events_for J sid hooks)) ss"
    using run_records_settled [OF assms(1-3), of "\<lambda>sid. []" Map.empty hooks root] assms(4) by auto
  then have set: "settled H sid ?ls (create_dir ss sid)" "ss sid = None \<longleftrightarrow> ?ls = []"
    using assms(5) by (auto simp: all_settled_def safe_id_def session_frames_def)
  have len: "length ?ls = length (events_for J sid hooks)" "length (events_for J sid hooks) < 2 ^ 64"
    using length_events_for [of J sid hooks] assms(4) by (simp_all add: session_frames_def)
  have opened: "verify_command H refusal root sid ss = verify H sid ss"
    using assms(5) by (simp add: verify_command_def open_in_def)
  show ?thesis
  proof (cases "events_for J sid hooks = []")
    case True
    with set(2) len(1) have "ss sid = None" by simp
    with True opened ss show ?thesis by (simp add: verify_def)
  next
    case False
    with len(1) have ne: "?ls \<noteq> []" by auto
    with set obtain d where d: "ss sid = Some d" "settled H sid ?ls d" by (auto simp: create_dir_def)
    then have chain: "chain_ok H sid None ?ls" and bytes: "sd_events d = Some (unlines ?ls)"
      using ne by (simp_all add: settled_def log_is_def)
    have "length (frame_hash (last ?ls)) = 64"
      using frame_hash_hex64 [OF chain_last(1,2) [OF chain ne]] by (simp add: is_hex64_def)
    then have "verify_output \<lparr>rp_frames = word_of_nat (length ?ls), rp_last_hash = Some (frame_hash (last ?ls))\<rparr>
        = Some (unlines [''verified: '' @ show_nat (length (events_for J sid hooks))
             @ '' frames, head '' @ take 16 (frame_hash (last ?ls)), CAVEAT])"
      using len by (simp add: verify_output_def show_u64_def unat_word_of_nat)
    with verify_settled [OF d(2), of ss] ne d(1) bytes False opened ss show ?thesis by simp
  qed
qed

definition common0 :: common where
  "common0 = \<lparr>session_id = ''abc'', hook_event_name = ''Notification'', transcript_path = None, cwd = ''/tmp'',
     permission_mode = None, prompt_id = None, agent_id = None, agent_type = None\<rparr>"

definition J0 :: "(json0, unit) json_api" where
  "J0 = \<lparr>ja_values = api0,
     ja_parse = (\<lambda>s. if s = ''bad'' then Inl () else Inr (J_Obj [''hook_event_name'' \<mapsto> J_Str ''Notification''])),
     ja_custom = (\<lambda>v. ()), ja_common = (\<lambda>v. Inr common0), ja_event = (\<lambda>v. Inl ()),
     ja_str = js0, ja_body = bj0\<rparr>"

definition facts0 :: invocation where
  "facts0 = \<lparr>inv_ts = 5, inv_host = ''box'', inv_hook_ppid = 7\<rparr>"

definition hooks0 :: "(invocation \<times> bytes) list" where
  "hooks0 = [(facts0, ''x''), (facts0, ''bad''), (facts0, ''y'')]"

lemma events0: "length (events_for J0 ''abc'' hooks0) = 2"
proof -
  have utf8: "from_utf8 ''x'' = Some ''x''" "from_utf8 ''y'' = Some ''y''" "from_utf8 ''bad'' = Some ''bad''"
    by (simp_all add: from_utf8_def utf8_valid_ascii byte_in_def)
  have bad: "hook_event_of J0 (facts0, ''bad'') = None"
    by (simp add: hook_event_of_def utf8 from_str_def J0_def)
  have good: "\<exists>e. hook_event_of J0 (facts0, s) = Some e \<and> ev_session_id e = ''abc''" if "s = ''x'' \<or> s = ''y''" for s
    using that utf8 by (auto simp: hook_event_of_def from_str_def J0_def api0_def TYPED_NAMES_def event_new_def common0_def)
  obtain e1 where "hook_event_of J0 (facts0, ''x'') = Some e1" "ev_session_id e1 = ''abc''"
    using good [of "''x''"] by auto
  moreover obtain e2 where "hook_event_of J0 (facts0, ''y'') = Some e2" "ev_session_id e2 = ''abc''"
    using good [of "''y''"] by auto
  ultimately show ?thesis using bad by (simp add: hooks0_def)
qed

theorem hooks_recorded_at:
  "\<exists>ss r. run_records H0 J0 ''/s'' Map.empty hooks0 = Some ss
    \<and> verify_command H0 (\<lambda>e. []) ''/s'' ''abc'' ss = Inr r
    \<and> verify_output r = Some (unlines [''verified: '' @ show_nat 2 @ '' frames, head ''
        @ take 16 (frame_hash (last (session_frames H0 J0 ''abc'' hooks0))), CAVEAT])"
proof -
  have "events_for J0 ''abc'' hooks0 \<noteq> []" using events0 by auto
  then show ?thesis
    using hooks_recorded [of J0 H0 hooks0 "''abc''" "''/s''" "\<lambda>e. []"] samples_log events0
    by (auto simp: J0_def check_session_id_def hooks0_def)
qed

section \<open>From a run to a command\<close>

text \<open>
  C18. When \<^verbatim>\<open>nd7 run\<close> gets as far as its child, the exit binary is trusted, the child runs under
  the floor of the session's policy, and the files written before it leave a disk on which any
  later \<^verbatim>\<open>nd7-exec\<close> below that process, outside the floor, becomes a shell under the command profile
  of that same policy.
\<close>
theorem run_to_command:
  assumes "spawn ser parse compact w program args = Inr l" "sound_disk d"
    "r_session (rw_env w) = session_at root pid"
  shows "\<exists>d' fd. perform d None (la_writes l) = Some (d', fd)
    \<and> la_profile l = render_floor (la_policy l) \<and> trusted (rw_meta w) (po_exit (la_policy l)) = Inr ()
    \<and> (\<forall>(x :: exec_world) cmd. x_disk x = d' \<longrightarrow> x_root x = Inr root \<longrightarrow> \<not> x_confined x
        \<longrightarrow> reaches (x_parent x) (x_is_dir x) root (x_ppid x) pid \<longrightarrow> x_exec_error x = None
        \<longrightarrow> utf8_valid (render_policy (la_policy l))
        \<longrightarrow> apply_to_self (x_init x) (render_policy (la_policy l)) = None
        \<longrightarrow> exec_main x [''-c'', cmd] = Some (Shell (Some (render_policy (la_policy l))) cmd))"
proof -
  have l: "write_policy_at ser (session_at root pid) (la_policy l) = Some (la_writes l)"
    "la_profile l = render_floor (la_policy l)" "trusted (rw_meta w) (po_exit (la_policy l)) = Inr ()"
    using assms(1,3) by (auto simp: spawn_def Let_def split: option.splits sum.splits)
  obtain d' fd json where d': "perform d None (la_writes l) = Some (d', fd)" "sound_disk d'"
    "read_file d' (policy_file (session_at root pid)) = Some (render_policy (la_policy l))"
    by (rule perform_write_policy [OF assms(2) l(1)]) simp
  show ?thesis
  proof (intro exI conjI allI impI)
    fix x :: exec_world and cmd
    assume x: "x_disk x = d'" "x_root x = Inr root" "\<not> x_confined x"
      "reaches (x_parent x) (x_is_dir x) root (x_ppid x) pid" "x_exec_error x = None"
      "utf8_valid (render_policy (la_policy l))" "apply_to_self (x_init x) (render_policy (la_policy l)) = None"
    then have "session_profile x (render_policy (la_policy l))"
      using d'(3) by (auto simp: session_profile_def)
    with x show "exec_main x [''-c'', cmd] = Some (Shell (Some (render_policy (la_policy l))) cmd)"
      by (intro exec_main_runs)
  qed (rule d'(1), rule l(2), rule l(3))
qed

definition run0 :: run_world where
  "run0 = \<lparr>rw_env = \<lparr>r_cwd = ''/h/p'', r_state = ''/h/s'', r_tmp = ''/t'', r_home = ''/h'', r_exe = ''/b/nd7'',
       r_session = session_at ''/h/r'' 7, r_ssh_auth_sock = None\<rparr>,
     rw_pid = 7, rw_canon = Some, rw_meta = (\<lambda>p. Some (True, 0)), rw_path = ''/bin'', rw_files = Map.empty,
     rw_gnupg = None\<rparr>"

definition pr :: policy where
  "pr = pa\<lparr>po_open_sock := path_join (session_at ''/h/r'' 7) ''open.sock''\<rparr>"

lemma run0_spawns: "\<exists>l. spawn (\<lambda>p. Some ''j'') (\<lambda>s. None) (\<lambda>v. []) run0 ''zsh'' [] = Inr l \<and> la_policy l = pr"
proof -
  have "rsplit_once CHR ''/'' ''/b/nd7'' = Some (''/b'', ''nd7'')" by (simp add: rsplit_once_Some)
  then have "run_policy (rw_canon run0) (rw_env run0) = Some pr"
    by (simp add: run_policy_def run0_def exit_path_def with_file_name_def pr_def pa_def)
  moreover have "trusted (rw_meta run0) (po_exit pr) = Inr ()"
    by (simp add: trusted_def not_writable_def run0_def)
  moreover have "shim_path (path_join (r_session (rw_env run0)) ''bin'') (rw_path run0) \<noteq> None"
    by (simp add: shim_path_def run0_def session_at_def path_join_def show_nat.simps digit_char_def char_of_def)
  ultimately show ?thesis
    by (auto simp: spawn_def write_policy_at_def run0_def Let_def)
qed

theorem run_to_command_at:
  "\<exists>l d fd. spawn (\<lambda>p. Some ''j'') (\<lambda>s. None) (\<lambda>v. []) run0 ''zsh'' [] = Inr l
    \<and> perform (disk0 ''a'' pa) None (la_writes l) = Some (d, fd)
    \<and> exec_main (exec0\<lparr>x_disk := d\<rparr>) [''-c'', ''ls''] = Some (Shell (Some (render_policy pr)) ''ls'')"
proof -
  obtain l where l: "spawn (\<lambda>p. Some ''j'') (\<lambda>s. None) (\<lambda>v. []) run0 ''zsh'' [] = Inr l" "la_policy l = pr"
    using run0_spawns by blast
  have same: "render_policy pr = render_policy pa"
    by (cases "po_ssh_agent pa") (simp_all add: pr_def render_policy_def body_def deny_records_def deny_agent_config_def)
  have "r_session (rw_env run0) = session_at ''/h/r'' 7" by (simp add: run0_def)
  from run_to_command [OF l(1) disk0_files(1) this, of "''a''" pa] obtain d fd
    where d: "perform (disk0 ''a'' pa) None (la_writes l) = Some (d, fd)"
    and runs: "\<And>(x :: exec_world) cmd. x_disk x = d \<Longrightarrow> x_root x = Inr ''/h/r'' \<Longrightarrow> \<not> x_confined x
        \<Longrightarrow> reaches (x_parent x) (x_is_dir x) ''/h/r'' (x_ppid x) 7 \<Longrightarrow> x_exec_error x = None
        \<Longrightarrow> utf8_valid (render_policy pr) \<Longrightarrow> apply_to_self (x_init x) (render_policy pr) = None
        \<Longrightarrow> exec_main x [''-c'', cmd] = Some (Shell (Some (render_policy pr)) cmd)"
    unfolding l(2) by blast
  have "exec_main (exec0\<lparr>x_disk := d\<rparr>) [''-c'', ''ls''] = Some (Shell (Some (render_policy pr)) ''ls'')"
    using exec0_reaches exec0_applies unfolding same by (intro runs [unfolded same]) (simp_all add: exec0_def)
  with l(1) d show ?thesis by blast
qed

text \<open>
  C31. The search for the session ends whenever the chain of parents does: what \<^verbatim>\<open>nd7-exec\<close> does with
  its arguments is then decided, and it never waits.
\<close>
theorem exec_returns:
  assumes "\<forall>p q. x_parent w p = Some q \<longrightarrow> (depth q :: nat) < depth p"
  shows "\<exists>outcome. exec_main w args = Some outcome"
proof -
  have "\<exists>found. find_session (x_parent w) (x_is_dir w) root (x_ppid w) = Some found" for root
    using find_session_returns [OF assms] by blast
  then obtain found where "\<And>root. find_session (x_parent w) (x_is_dir w) root (x_ppid w) = Some (found root)"
    by metis
  then show ?thesis
    by (cases "x_root w") (simp_all add: exec_main_def exec_run_def split: option.split)
qed

theorem exec_returns_at: "\<exists>outcome. exec_main exec0 [''-c'', ''ls''] = Some outcome"
  by (rule exec_returns [where depth = nat]) (simp add: exec0_def)

section \<open>The agents' own configuration\<close>

text \<open>
  C21. A successful \<^verbatim>\<open>nd7 init\<close>, whatever its arguments, is complete: the same command again succeeds
  and changes no file. Assumed are a binary whose path ends in \<^verbatim>\<open>nd7\<close> (for another name the code
  installs its hooks again), no character in that path or in the Codex configuration's that TOML
  would escape, a Codex configuration that does not end in a carriage return, and JSON that is UTF-8
  and reads back as written. Whatever else the configurations, the aliases and the shell rcs hold is
  allowed, and a run that stops at an unreadable one is not a success.
\<close>
theorem init_again:
  assumes "good_machine w fs" "init_agents w args fs = (fs', None)"
  shows "init_agents w args fs' = (fs', None)"
  using assms by (rule init_settles)

definition settings0 :: json where
  "settings0 = (case install_claude ''/b/nd7'' (JObject Map.empty) of Inr (Some v) \<Rightarrow> v | _ \<Rightarrow> JNull)"

lemma installs0: "install_claude ''/b/nd7'' (JObject Map.empty) = Inr (Some settings0)"
proof -
  have "\<exists>v. install_claude ''/b/nd7'' (JObject Map.empty) = Inr (Some v)"
    by (simp add: install_claude_def RECORD_EVENTS_def add_entry_def entries_of_def)
  then show ?thesis by (auto simp: settings0_def)
qed

definition machine1 :: init_world where
  "machine1 = \<lparr>iw_home = ''/h'', iw_cwd = ''/p'', iw_nd7 = ''/b/nd7'', iw_has_dir = (\<lambda>g. True),
     iw_on_path = (\<lambda>g. True), iw_unreadable = (\<lambda>p. False), iw_parse = (\<lambda>s. Some settings0), iw_pretty = (\<lambda>v. ''S''),
     iw_js = js0, iw_sha = (\<lambda>s. ''0'')\<rparr>"

lemma machine1_good: "good_machine machine1 Map.empty"
proof -
  have "trim (''S'' @ [newline]) \<noteq> []" by (simp add: trim_def trim_end_def ws1_def ws2_def byte_in_def)
  moreover have "from_utf8_lossy (config_path Codex ''/h'') = ''/h/.codex/config.toml''"
    by (simp add: config_path_def path_join_def from_utf8_lossy_ascii byte_in_def)
  ultimately show ?thesis
    using installs0
    by (simp add: good_machine_def good_binary_def rewritable_def machine1_def read_json_def suffix_to_prefix
        plain_text_def byte_in_def utf8_valid_ascii)
qed

theorem init_again_at:
  "\<exists>fs. init_agents machine1 [] Map.empty = (fs, None) \<and> fs (config_path Claude ''/h'') \<noteq> None
    \<and> init_agents machine1 [] fs = (fs, None)"
proof -
  have reads: "read_or_empty machine1 fs p = Inr []" if "fs p = None" for fs p
    using that by (simp add: read_or_empty_def machine1_def)
  let ?c = "config_path Claude ''/h''" and ?x = "config_path Codex ''/h''" and ?j = "path_join ''/h''"
  have home: "iw_home machine1 = ''/h''" by (simp add: machine1_def)
  have claude: "install_agent machine1 False ''/h'' Map.empty Claude = Inr [?c \<mapsto> [CHR ''S'', newline]]"
    using installs0 by (simp add: install_agent_def reads) (simp add: install_claude_file_def read_json_def machine1_def)
  have ne: "?x \<noteq> ?c" by (simp add: config_path_inject)
  have codex: "\<exists>r. install_agent machine1 False ''/h'' [?c \<mapsto> s] Codex = Inr r \<and> (\<forall>q. q \<noteq> ?x \<longrightarrow> r q = [?c \<mapsto> s] q)" for s
    using ne by (auto simp: install_agent_def reads Let_def split: option.split)
  obtain f where r: "install_agent machine1 False ''/h'' [?c \<mapsto> [CHR ''S'', newline]] Codex = Inr f"
    "\<forall>q. q \<noteq> ?x \<longrightarrow> f q = [?c \<mapsto> [CHR ''S'', newline]] q"
    using codex by blast
  have f: "install_agents machine1 False ''/h'' Map.empty [Claude, Codex] = (f, None)"
    "f ?c = Some ([CHR ''S'', newline])" "\<forall>q. q \<noteq> ?x \<longrightarrow> q \<noteq> ?c \<longrightarrow> f q = None"
    using r(2) ne by (simp_all add: install_agents_def claude r(1))
  have rc: "?j ''.zshrc'' \<notin> {?x, ?c}" "?j ''.bashrc'' \<notin> {?x, ?c}" "?j ''.nd7/aliases.sh'' \<notin> {?x, ?c, ?j ''.zshrc'', ?j ''.bashrc''}"
    by (simp_all add: config_path_def path_join_def)
  then have none: "(f(?j ''.nd7/aliases.sh'' \<mapsto> t)) (?j ''.zshrc'') = None" "f (?j ''.bashrc'') = None" for t
    using f(3) by auto
  have source: "source_rc machine1 g rc = Inr (g(rc \<mapsto> unlines [SOURCE_LINE]))" if "g rc = None" for g rc
    using reads [of g rc] that by (simp add: source_rc_def source_aliases_def newline_pad_def text_lines_def)
  define g where "g = f(?j ''.nd7/aliases.sh'' \<mapsto> aliases_text [Claude, Codex])"
  define fs where "fs = g(?j ''.zshrc'' \<mapsto> unlines [SOURCE_LINE])"
  have g: "g (?j ''.zshrc'') = None" "g (?j ''.bashrc'') = None" using none rc by (auto simp: g_def)
  have "iw_on_path machine1 = (\<lambda>g. True)" by (simp add: machine1_def)
  then have fs: "write_aliases machine1 f [Claude, Codex] = (fs, None)"
    by (simp add: write_aliases_def Let_def home g_def [symmetric] g source [of g "?j ''.zshrc''"] fs_def)
  have "fs ?c = f ?c" using rc by (auto simp: fs_def g_def)
  have "init_agents machine1 [] Map.empty = (fs, None)"
    using f(1) fs home by (simp add: init_agents_def chosen_agents_def machine1_def)
  with f(2) \<open>fs ?c = f ?c\<close> show ?thesis using init_again [OF machine1_good] by auto
qed

text \<open>
  C22. An install into a Codex configuration keeps the text and the hooks that were there, in their
  places, leaves every hook of this nd7 with an approval, and adds the Bash hook unless some nd7's
  is there.
\<close>
theorem codex_approved:
  assumes "plain_text config" "plain_text nd7" "\<forall>x. plain_line (sha x)" "s = [] \<or> last s \<noteq> CHR 0x0D"
  shows "let after = installed js sha config nd7 s in
    prefix s after \<and> (\<exists>hs. codex_hook_tables after = codex_hook_tables s @ hs)
    \<and> (codex_hooks_trusted config nd7 after \<longleftrightarrow> own_hooks nd7 after \<noteq> [])
    \<and> (codex_has_hook nd7 after \<or> installed_for (codex_hook_tables s) ''PreToolUse'' PREFIX_TAIL)"
proof -
  define after where "after = installed js sha config nd7 s"
  obtain hs where hs: "codex_hook_tables after = codex_hook_tables s @ hs"
    "map (\<lambda>h. (ch_event h, ch_command h)) hs
       = map (\<lambda>b. (bl_event b, bl_command b)) (wanted nd7 (codex_hook_tables s))"
    and keys: "\<forall>h \<in> set (own_hooks nd7 after). codex_trust_key config h \<in> set (codex_trust_keys_present after)"
    unfolding after_def by (rule installed_text [OF assms(1-4), of js]) auto
  have "codex_has_hook nd7 after \<or> installed_for (codex_hook_tables s) ''PreToolUse'' PREFIX_TAIL"
  proof (cases "installed_for (codex_hook_tables s) ''PreToolUse'' PREFIX_TAIL")
    case False
    then have "(''PreToolUse'', prefix_hook_command nd7) \<in> set (map (\<lambda>h. (ch_event h, ch_command h)) hs)"
      unfolding hs(2) by (simp add: wanted_def prefix_spec_def)
    then show ?thesis using hs(1) by (auto simp: codex_has_hook_def)
  qed simp
  with hs(1) keys show ?thesis
    unfolding Let_def after_def [symmetric] codex_hooks_trusted_def by (simp add: after_def installed_def)
qed

theorem codex_approved_at:
  "let after = installed js0 (\<lambda>x. ''0'') ''/h/.codex/config.toml'' ''/b/nd7'' ''model = 1'' in
    prefix ''model = 1'' after
    \<and> (\<exists>hs. codex_hook_tables after = codex_hook_tables ''model = 1'' @ hs)
    \<and> (codex_hooks_trusted ''/h/.codex/config.toml'' ''/b/nd7'' after \<longleftrightarrow> own_hooks ''/b/nd7'' after \<noteq> [])
    \<and> (codex_has_hook ''/b/nd7'' after \<or> installed_for (codex_hook_tables ''model = 1'') ''PreToolUse'' PREFIX_TAIL)"
  by (rule codex_approved) (simp_all add: plain_text_def byte_in_def plain_line_def)

text \<open>
  C25. An install into Claude Code settings changes nothing but their hooks, adds entries only at the
  end of an event's list, and leaves the Bash hook of this nd7 unless another nd7's was there.
\<close>
theorem claude_kept:
  assumes "suffix ''nd7'' nd7" "install_claude nd7 v = Inr (Some v')"
  shows "settings_kept v v'
    \<and> (claude_has_hook_in nd7 v' \<or> registered has_prefix_hook (settings_hooks v) ''PreToolUse'')"
  using claude_again [OF assms] by simp

theorem claude_kept_at:
  "settings_kept (JObject Map.empty) settings0
    \<and> (claude_has_hook_in ''/b/nd7'' settings0
       \<or> registered has_prefix_hook (settings_hooks (JObject Map.empty)) ''PreToolUse'')"
  by (rule claude_kept [OF _ installs0]) (simp add: suffix_to_prefix)

text \<open>
  C30. A string nd7 writes into TOML is a basic string that means exactly that string, whatever bytes
  it has, and ends where it was meant to.
\<close>
theorem toml_read_back: "\<exists>body. toml_string s @ rest = quote # body \<and> read_basic body = Some (s, rest)"
  by (simp add: toml_string_def read_toml_chars)


end
