(* ===== verification/ShipLoop.thy ===== *)
theory ShipLoop
  imports Fleet EndToEnd Recording
begin

text \<open>
  \<^verbatim>\<open>ship\<close> of \<^verbatim>\<open>src/src/ship.rs\<close>: one pass, or passes on a timer. What a pass meets, and what other
  programs do to the sessions while the loop sleeps, are arguments. The lemmas follow a session
  that hooks go on appending to through any number of passes that do not reach the vault.
\<close>

section \<open>The loop\<close>

text \<open>
  One round: what happened since the last pass (\<open>pa_before\<close>), what \<^verbatim>\<open>read_dir\<close> lists, the clock and
  the answer to the request for recipients, and the world of each session.
\<close>

record ship_pass =
  pa_before :: "sessions \<Rightarrow> sessions"
  pa_names :: "sessions \<Rightarrow> bytes list"
  pa_now :: i64
  pa_answer :: "http_request \<Rightarrow> (nat \<times> bytes) option"
  pa_worlds :: "bytes \<Rightarrow> ship_world"

text \<open>
  The result is what \<^verbatim>\<open>ship\<close> returned, or \<^const>\<open>None\<close> when it sleeps after the last of these passes; the
  outer \<^const>\<open>None\<close> is a panic. \<open>every\<close> is the interval.
\<close>

fun ship ::
  "crypto_api \<Rightarrow> (bytes \<Rightarrow> signed_recipient_set option) \<Rightarrow> (signed_recipient_set \<Rightarrow> bytes) \<Rightarrow> bytes \<Rightarrow>
   nat option \<Rightarrow> nat option \<Rightarrow> ship_pass list \<Rightarrow> vault_dir \<Rightarrow> sessions \<Rightarrow>
   ((run_error + nat) option \<times> vault_dir \<times> sessions) option" where
  "ship c parse_set set_json root every prune_after [] vd ss = Some (None, vd, ss)"
| "ship c parse_set set_json root every prune_after (p # passes) vd ss =
     (let unreachable_code = (if every \<noteq> None then 0 else 1); ss0 = pa_before p ss in
      case run_once (pa_worlds p) c (pa_now p) (pa_answer p) parse_set set_json prune_after unreachable_code root
          (pa_names p ss0) vd ss0 of
        None \<Rightarrow> None
      | Some (Inl e, vd1, ss1) \<Rightarrow> Some (Some (Inl e), vd1, ss1)
      | Some (Inr code, vd1, ss1) \<Rightarrow>
          (case every of
             None \<Rightarrow> Some (Some (Inr code), vd1, ss1)
           | Some interval \<Rightarrow> ship c parse_set set_json root every prune_after passes vd1 ss1))"

text \<open>
  With \<^verbatim>\<open>--every\<close> the loop ends only with an error of a pass, and never with a code: not because
  a vault was unreachable, diverged or refused.
\<close>

lemma ship_every_ends:
  assumes "ship c parse_set set_json root (Some i) prune_after passes vd ss = Some (Some r, vd', ss')"
  shows "\<exists>k < length passes. \<exists>e vd1 ss1. r = Inl e
    \<and> ship c parse_set set_json root (Some i) prune_after (take k passes) vd ss = Some (None, vd1, ss1)
    \<and> (let p = passes ! k; ss0 = pa_before p ss1 in
        run_once (pa_worlds p) c (pa_now p) (pa_answer p) parse_set set_json prune_after 0 root (pa_names p ss0) vd1 ss0
          = Some (Inl e, vd', ss'))"
  using assms
proof (induction passes arbitrary: vd ss)
  case (Cons p passes)
  let ?ss0 = "pa_before p ss"
  let ?run = "run_once (pa_worlds p) c (pa_now p) (pa_answer p) parse_set set_json prune_after 0 root (pa_names p ?ss0) vd ?ss0"
  obtain q vd1 ss1 where q: "?run = Some (q, vd1, ss1)" using Cons.prems by (auto simp: Let_def split: option.splits)
  show ?case
  proof (cases q)
    case (Inl e)
    with Cons.prems q show ?thesis by (intro exI [of _ 0]) (auto simp: Let_def)
  next
    case (Inr code)
    with Cons.prems q have "ship c parse_set set_json root (Some i) prune_after passes vd1 ss1 = Some (Some r, vd', ss')"
      by (simp add: Let_def)
    from Cons.IH [OF this] obtain k e vd2 ss2 where "k < length passes" "r = Inl e"
      "ship c parse_set set_json root (Some i) prune_after (take k passes) vd1 ss1 = Some (None, vd2, ss2)"
      "let p = passes ! k; ss0 = pa_before p ss2 in
        run_once (pa_worlds p) c (pa_now p) (pa_answer p) parse_set set_json prune_after 0 root (pa_names p ss0) vd2 ss0
          = Some (Inl e, vd', ss')"
      by blast
    with q Inr show ?thesis by (intro exI [of _ "Suc k"]) (auto simp: Let_def)
  qed
qed simp

lemma ship_append:
  "ship c parse_set set_json root (Some i) prune_after (ps @ qs) vd ss =
    (case ship c parse_set set_json root (Some i) prune_after ps vd ss of
       Some (None, vd1, ss1) \<Rightarrow> ship c parse_set set_json root (Some i) prune_after qs vd1 ss1
     | r \<Rightarrow> r)"
  by (induction ps arbitrary: vd ss) (auto simp: Let_def split: option.split sum.split prod.split)

section \<open>A vault out of reach\<close>

text \<open>Every request fails, or is answered with a status that says nothing about the chain.\<close>

definition unreached :: "ship_world \<Rightarrow> bool" where
  "unreached W \<longleftrightarrow>
     (\<forall>k. case net_reply W k of Send_Err e \<Rightarrow> True | Reply status body \<Rightarrow> status \<notin> {200, 409, 422})
     \<and> (\<forall>k d. meanwhile W k d = d) \<and> length (rnd_chain_key W) = 32"

lemma send_frames_same_dir: "send_frames W c M path req s = (answer, s1) \<Longrightarrow> st_dir s1 = st_dir s"
  by (auto simp: send_frames_def split: sum.splits ship_error.splits)

lemma push_batch_unreached:
  assumes "unreached W"
  shows "\<exists>s1. push_batch W c M sid host P index recover b es s = Inl (Inr (Some Unreachable), s1) \<and> st_dir s1 = st_dir s"
proof -
  obtain answer s1 where a: "send_frames W c M (frames_path sid host)
      (batch_request W c M sid host (pd_key P) (st_clock s) b es) s = (answer, s1)" by fastforce
  have "case answer of Send_Err e \<Rightarrow> True | Reply status body \<Rightarrow> status \<notin> {200, 409, 422}"
    using a assms by (auto simp: send_frames_def unreached_def split: sum.splits ship_error.splits reply.splits)
  with a send_frames_same_dir [OF a] show ?thesis
    by (cases answer) (auto simp: push_batch_def say_def)
qed

lemma push_unreached:
  assumes "unreached W" "chain_ok (blake3_hex c) sid None ls" "ls \<noteq> []"
    and "list_all (\<lambda>l. entry l \<noteq> None) ls" "frame_member (unlines ls) ''host'' = Some host"
    and "pd_shipped P = None" "pd_frames P = unlines ls"
  shows "\<exists>s1. push W c M sid P recover s = Some (Inr (Some Unreachable), s1) \<and> st_dir s1 = st_dir s"
proof -
  have one: "list_all one_line ls" using assms(2) by (simp add: chain_ok_def)
  obtain index where index: "build_index (unlines ls) = Inr index"
    using entries_total [of ls 0] assms(4) one by (auto simp: build_index_unlines list_all_iff)
  have chain: "chain_ok (blake3_hex c) sid (shipped_head 0 ls) ls" using assms(2) by (simp add: shipped_head_def)
  note ix = index_of_chain [OF chain assms(3) index]
  have len: "length index = length (split_inclusive newline (unlines ls))"
    using ix(1) one by (simp add: split_inclusive_unlines)
  obtain bs where bs: "batches (unlines ls) index = Some bs" using batches_groups [OF len] by blast
  note parts = batches_parts [OF len bs]
  have "bs \<noteq> []" using parts(2) ix(1) assms(3) by auto
  then obtain b es rest where x: "bs = (b, es) # rest" by (cases bs) auto
  with parts(3) have "es \<noteq> []" by simp
  moreover have "verify_segment (blake3_hex c) sid None (unlines ls) = Inr (head_of (last ls))"
    using verify_pending [of "blake3_hex c" sid ls 0] assms(2,3) by (simp add: shipped_head_def)
  ultimately show ?thesis
    using push_batch_unreached [OF assms(1), of c M sid host P index recover b es s] index assms(5-7) bs x
    by (auto simp: push_def)
qed

text \<open>Such a run of a session leaves it as it was, but for the chain key it now has.\<close>

lemma session_unreached:
  assumes "unreached W" "settled (blake3_hex c) sid ls d" "shipped_upto 0 ls d" "ls \<noteq> []"
    and "list_all (\<lambda>l. entry l \<noteq> None) ls" "frame_member (unlines ls) ''host'' = Some host"
  shows "\<exists>s1. ship_session W c M sid prune_after (start_state d) = Some (Inr Unreachable, s1, True)
    \<and> st_dir s1 = d\<lparr>sd_chain_key := Some (key_in_use W d)\<rparr>"
proof -
  let ?P = "\<lparr>pd_shipped = shipped_head 0 ls, pd_frames = unlines ls, pd_key = key_in_use W d\<rparr>"
  let ?d = "d\<lparr>sd_chain_key := Some (key_in_use W d)\<rparr>"
  let ?t = "(start_state d)\<lparr>st_clock := Suc 0, st_dir := ?d\<rparr>"
  have chain: "chain_ok (blake3_hex c) sid None ls" using assms(2) by (simp add: settled_def log_is_def)
  have lock: "relock W (start_state d) = (start_state d)\<lparr>st_clock := Suc 0\<rparr>"
    using assms(1) by (simp add: relock_def unreached_def start_state_def)
  have P: "pd_shipped ?P = None" "pd_frames ?P = unlines ls" by (simp_all add: shipped_head_def)
  obtain s1 where "push W c M sid ?P True ?t = Some (Inr (Some Unreachable), s1)" "st_dir s1 = st_dir ?t"
    using push_unreached [OF assms(1) chain assms(4-6) P, of M True ?t] by blast
  moreover have "read_pending (rnd_chain_key W) d = Some (Inr (Some ?P), ?d)"
    using read_pending_settled [OF assms(2,3), of W] assms(4) by simp
  ultimately have "session_loop W c M sid True (start_state d) = Some (Inr Unreachable, s1)" "st_dir s1 = ?d"
    by (simp_all add: session_loop.simps [of W c M sid True "start_state d"] lock) (simp_all add: start_state_def)
  then show ?thesis by (simp add: ship_session_def)
qed

section \<open>Passes over every session\<close>

text \<open>Nothing of the session was acknowledged yet.\<close>

definition unshipped :: "session_dir \<Rightarrow> bool" where
  "unshipped d \<longleftrightarrow> sd_shipped d = None \<and> (case sd_chain_key d of None \<Rightarrow> True | Some key \<Rightarrow> length key = 32)"

lemma unshipped_upto: "unshipped d \<longleftrightarrow> shipped_upto 0 ls d"
  by (auto simp: unshipped_def shipped_upto_def split: option.split)

lemma unshipped_empty [simp]: "unshipped empty_dir"
  by (simp add: unshipped_def empty_dir_def)

text \<open>
  Every session is settled at the frames \<open>L\<close> gives it, and the vault has none of them.
\<close>

definition awaiting :: "(bytes \<Rightarrow> bytes) \<Rightarrow> (bytes \<Rightarrow> bytes list) \<Rightarrow> sessions \<Rightarrow> bool" where
  "awaiting H L ss \<longleftrightarrow>
     all_settled H L ss \<and> (\<forall>sid d. ss sid = Some d \<longrightarrow> safe_id sid \<and> unshipped d)"

lemma awaiting_empty: "awaiting H (\<lambda>sid. []) Map.empty"
  by (simp add: awaiting_def all_settled_def create_dir_def)

lemma awaitingD:
  assumes "awaiting H L ss" "ss sid = Some d"
  shows "safe_id sid" "settled H sid (L sid) d" "shipped_upto 0 (L sid) d" "L sid \<noteq> []"
proof -
  have d: "safe_id sid" "unshipped d" using assms by (auto simp: awaiting_def)
  with assms(1) have "settled H sid (L sid) (create_dir ss sid) \<and> (ss sid = None \<longleftrightarrow> L sid = [])"
    unfolding awaiting_def all_settled_def by blast
  with assms(2) d unshipped_upto show "safe_id sid" "settled H sid (L sid) d" "shipped_upto 0 (L sid) d" "L sid \<noteq> []"
    by (auto simp: create_dir_def)
qed

lemma record_unshipped:
  assumes "record_command H J root ss facts stdin = Some (ss', r)"
    and "\<forall>sid d. ss sid = Some d \<longrightarrow> safe_id sid \<and> unshipped d"
  shows "\<forall>sid d. ss' sid = Some d \<longrightarrow> safe_id sid \<and> unshipped d"
proof -
  consider "ss' = ss"
    | e r1 where "safe_id (ev_session_id e)"
        "append_event H (ja_str J) (ja_body J) (ev_session_id e) ss e = Some (ss', r1)"
  proof (cases "hook_event_of J (facts, stdin)")
    case None
    with assms(1) that(1) show thesis by (simp add: record_command_event)
  next
    case (Some e)
    show thesis
    proof (cases "open_in root (ev_session_id e)")
      case (Inl err)
      with Some assms(1) that(1) show thesis by (simp add: record_command_event)
    next
      case (Inr log)
      then have "safe_id (ev_session_id e)" by (auto simp: open_in_def safe_id_def split: sum.splits)
      moreover obtain r1 where "append_event H (ja_str J) (ja_body J) (ev_session_id e) ss e = Some (ss', r1)"
        using assms(1) Some Inr by (auto simp: record_command_event)
      ultimately show thesis by (rule that(2))
    qed
  qed
  then show ?thesis
  proof cases
    case 1
    with assms(2) show ?thesis by simp
  next
    case 2
    let ?sid = "ev_session_id e"
    have "unshipped (create_dir ss ?sid)" using assms(2) by (auto simp: create_dir_def split: option.split)
    with append_event_sidecars [OF 2(2)] have "unshipped (create_dir ss' ?sid)" by (simp add: unshipped_def)
    with 2(1) append_event_other [OF 2(2)] assms(2) show ?thesis
      by (metis create_dir_def option.simps(5))
  qed
qed

lemma run_records_awaiting:
  assumes "serde_str (ja_str J)" "serde_body (ja_body J)" "hash_hex H"
    and "awaiting H (\<lambda>sid. session_frames H J sid past) ss" "length past + length hooks < 2 ^ 64"
  shows "\<exists>ss'. run_records H J root ss hooks = Some ss' \<and> awaiting H (\<lambda>sid. session_frames H J sid (past @ hooks)) ss'"
proof -
  have events: "events_for J sid (past @ hooks) = events_for J sid past @ events_for J sid hooks" for sid
    by (induction past) (simp_all split: option.split)
  have "length (session_frames H J sid past) + length hooks < 2 ^ 64" for sid
    using length_events_for [of J sid past] assms(5) by (simp add: session_frames_def)
  then obtain ss' where ss': "run_records H J root ss hooks = Some ss'"
    "all_settled H (\<lambda>sid. session_frames H J sid (past @ hooks)) ss'"
    using run_records_settled [OF assms(1-3), of "\<lambda>sid. session_frames H J sid past" ss hooks root] assms(4)
    by (auto simp: awaiting_def session_frames_def events frames_of_append)
  have keep: "\<forall>sid d. ss' sid = Some d \<longrightarrow> safe_id sid \<and> unshipped d"
    if "run_records H J root ss hooks = Some ss'" "\<forall>sid d. ss sid = Some d \<longrightarrow> safe_id sid \<and> unshipped d" for ss
    using that
  proof (induction hooks arbitrary: ss)
    case (Cons h hooks)
    obtain facts stdin where h: "h = (facts, stdin)" by (cases h)
    with Cons.prems(1) obtain ss1 r where one: "record_command H J root ss facts stdin = Some (ss1, r)"
      "run_records H J root ss1 hooks = Some ss'" by (auto split: option.splits)
    from Cons.IH [OF one(2) record_unshipped [OF one(1) Cons.prems(2)]] show ?case .
  qed simp
  from assms(4) have "\<forall>sid d. ss sid = Some d \<longrightarrow> safe_id sid \<and> unshipped d" unfolding awaiting_def by blast
  from keep [OF ss'(1) this] ss' show ?thesis unfolding awaiting_def by blast
qed

text \<open>What shipping needs of the frames: an index entry for each, and the host in the first.\<close>

lemma session_frames_ready:
  assumes "serde_str (ja_str J)" "serde_body (ja_body J)" "hash_hex H"
    and "\<forall>h \<in> set hooks. list_all json_plain (inv_host (fst h))" "session_frames H J sid hooks \<noteq> []"
  shows "list_all (\<lambda>l. entry l \<noteq> None) (session_frames H J sid hooks)"
    and "frame_member (unlines (session_frames H J sid hooks)) ''host'' = Some (ev_host (hd (events_for J sid hooks)))"
proof -
  let ?es = "events_for J sid hooks" and ?ls = "session_frames H J sid hooks"
  have fresh: "ev_hash e = None \<and> list_all json_plain (ev_host e)" if "e \<in> set ?es" for e
  proof -
    from \<open>e \<in> set ?es\<close> obtain h where h: "h \<in> set hooks" "hook_event_of J h = Some e"
      by (force simp: events_for_def List.map_filter_def)
    then have "ev_host e = inv_host (fst h)"
      by (auto simp: hook_event_of_def event_new_def Let_def split: option.splits sum.splits prod.splits)
    with h assms(4) hook_event_unsealed show ?thesis by metis
  qed
  then have "list_all (\<lambda>e. ev_hash e = None) ?es" by (simp add: list_all_iff)
  then show "list_all (\<lambda>l. entry l \<noteq> None) ?ls"
    unfolding session_frames_def by (rule frames_of_indexable [OF assms(1-3)]) (simp_all add: chain_ok_def)
  have ne: "?es \<noteq> []" using assms(5) by (auto simp: session_frames_def)
  with fresh have "list_all json_plain (ev_host (hd ?es))" by simp
  moreover obtain ks where "hd ?ls = next_frame H (ja_str J) (ja_body J) sid ks (hd ?es)"
    using frames_of_hd(1) [OF ne] unfolding session_frames_def by blast
  with assms(5) have "unlines ?ls = next_frame H (ja_str J) (ja_body J) sid ks (hd ?es) @ newline # unlines (tl ?ls)"
    by (cases ?ls) simp_all
  ultimately show "frame_member (unlines ?ls) ''host'' = Some (ev_host (hd ?es))"
    using next_frame_members(3) [OF assms(1)] by simp
qed

lemma run_sessions_each:
  assumes "\<forall>name \<in> set names. safe_id name \<and> ss name = Some (d name)
      \<and> ship_session (Ws name) c M name prune_after (start_state (d name)) = Some (Inr (out name), f name, True)
      \<and> out name \<noteq> Stopped"
    and "distinct names"
  shows "\<exists>u'. run_sessions Ws c M prune_after root names ss (False, u)
    = Some (Inr (False, u'), \<lambda>sid. if sid \<in> set names then Some (st_dir (f sid)) else ss sid)"
  using assms
proof (induction names arbitrary: ss u)
  case (Cons name names)
  let ?ss = "ss(name \<mapsto> st_dir (f name))"
  have here: "safe_id name" "ss name = Some (d name)" "out name \<noteq> Stopped"
    "ship_session (Ws name) c M name prune_after (start_state (d name)) = Some (Inr (out name), f name, True)"
    using Cons.prems(1) by simp_all
  then obtain dir where "open_in root name = Inr \<lparr>sl_session_id = name, sl_dir = dir\<rparr>" using open_safe by metis
  then have step: "run_sessions Ws c M prune_after root (name # names) ss (False, u)
      = run_sessions Ws c M prune_after root names ?ss (False, u \<or> out name = Unreachable)"
    using here by (simp add: create_dir_def)
  have "name \<notin> set names" "distinct names" using Cons.prems(2) by simp_all
  with Cons.prems(1) Cons.IH [of ?ss "u \<or> out name = Unreachable"] obtain u' where
    "run_sessions Ws c M prune_after root names ?ss (False, u \<or> out name = Unreachable)
      = Some (Inr (False, u'), \<lambda>sid. if sid \<in> set names then Some (st_dir (f sid)) else ?ss sid)"
    by fastforce
  moreover have "(\<lambda>sid. if sid \<in> set names then Some (st_dir (f sid)) else ?ss sid)
      = (\<lambda>sid. if sid \<in> set (name # names) then Some (st_dir (f sid)) else ss sid)"
    by auto
  ultimately show ?case unfolding step by simp
qed simp

section \<open>Rounds\<close>

text \<open>
  A round of the loop: hooks run while it slept and the sessions are listed; the vault gives no
  recipients, or the pinned ones again. In a round out of reach no session's requests arrive; in
  one that accepts they all do.
\<close>

definition hooks_before ::
  "('v, 'e) json_api \<Rightarrow> bytes \<Rightarrow> (bytes \<Rightarrow> bytes) \<Rightarrow> (invocation \<times> bytes) list \<Rightarrow> ship_pass \<Rightarrow> bool" where
  "hooks_before J root H hooks p \<longleftrightarrow>
     (\<forall>ss ss'. run_records H J root ss hooks = Some ss' \<longrightarrow> pa_before p ss = ss')"

definition lists_dirs :: "bytes set \<Rightarrow> ship_pass \<Rightarrow> bool" where
  "lists_dirs U p \<longleftrightarrow>
     (\<forall>ss. dom ss \<subseteq> U \<longrightarrow> distinct (pa_names p ss) \<and> set (pa_names p ss) = dom ss)"

definition asked :: "crypto_api \<Rightarrow> (bytes \<Rightarrow> signed_recipient_set option) \<Rightarrow> machine \<Rightarrow> ship_pass \<Rightarrow> signed_recipient_set option" where
  "asked c parse_set M p = fetch_recipients c (pa_now p) (pa_answer p) parse_set M"

definition pass_unreached :: "crypto_api \<Rightarrow> (bytes \<Rightarrow> signed_recipient_set option) \<Rightarrow> machine \<Rightarrow> ship_pass \<Rightarrow> bool" where
  "pass_unreached c parse_set M p \<longleftrightarrow>
     asked c parse_set M p = None
     \<or> asked c parse_set M p = Some (m_recipients M) \<and> (\<forall>sid. unreached (pa_worlds p sid))"

definition pass_accepted :: "crypto_api \<Rightarrow> (bytes \<Rightarrow> signed_recipient_set option) \<Rightarrow> machine \<Rightarrow> ship_pass \<Rightarrow> bool" where
  "pass_accepted c parse_set M p \<longleftrightarrow>
     asked c parse_set M p = Some (m_recipients M) \<and> (\<forall>sid. accepting (pa_worlds p sid))"

text \<open>What stays true of the vault's files: the machine is the one it was, whose set is well signed.\<close>

definition enrolled ::
  "crypto_api \<Rightarrow> (bytes \<Rightarrow> signed_recipient_set option) \<Rightarrow> (signed_recipient_set \<Rightarrow> bytes) \<Rightarrow> machine \<Rightarrow> vault_dir \<Rightarrow> bool" where
  "enrolled c parse_set set_json M vd \<longleftrightarrow>
     load_machine parse_set vd = Inr M \<and> parse_set (set_json (m_recipients M)) = Some (m_recipients M)
     \<and> verify_against c (m_recipients M) (srs_set (m_recipients M))"

lemma load_machine_Inr:
  assumes "load_machine parse_set vd = Inr M"
  shows "check_server (m_server M) = Inr ()"
    and "parse_set s = Some rs \<Longrightarrow> load_machine parse_set (vd\<lparr>vd_recipients := Some s\<rparr>) = Inr (M\<lparr>m_recipients := rs\<rparr>)"
  using assms by (auto simp: load_machine_def split: option.splits sum.splits if_splits)

lemma enrolled_pinned:
  "enrolled c parse_set set_json M vd \<Longrightarrow>
    enrolled c parse_set set_json M (vd\<lparr>vd_recipients := Some (set_json (m_recipients M))\<rparr>)"
  using load_machine_Inr(2) [of parse_set vd M "set_json (m_recipients M)" "m_recipients M"] by (simp add: enrolled_def)

lemma run_once_enrolled:
  assumes "enrolled c parse_set set_json M vd"
  shows "fetch_recipients c now answer parse_set M = None \<Longrightarrow>
      run_once Ws c now answer parse_set set_json prune_after code root names vd ss = Some (Inr code, vd, ss)"
    and "fetch_recipients c now answer parse_set M = Some (m_recipients M) \<Longrightarrow>
      run_sessions Ws c M prune_after root names ss (False, False) = Some (Inr r, ss') \<Longrightarrow>
      run_once Ws c now answer parse_set set_json prune_after code root names vd ss
        = Some (Inr (exit_code code r), vd\<lparr>vd_recipients := Some (set_json (m_recipients M))\<rparr>, ss')"
  using assms by (simp_all add: enrolled_def run_once_def)

text \<open>What a session is like before a pass.\<close>

definition shippable :: "(bytes \<Rightarrow> bytes list) \<Rightarrow> sessions \<Rightarrow> bool" where
  "shippable L ss \<longleftrightarrow>
     (\<forall>sid. ss sid \<noteq> None \<longrightarrow> list_all (\<lambda>l. entry l \<noteq> None) (L sid)
        \<and> (\<exists>host. frame_member (unlines (L sid)) ''host'' = Some host))"

lemma pass_awaiting:
  assumes "enrolled c parse_set set_json M vd" "awaiting (blake3_hex c) L ss" "shippable L ss"
    and "pass_unreached c parse_set M p" "distinct (pa_names p ss)" "set (pa_names p ss) = dom ss"
  shows "\<exists>vd' ss' code'. run_once (pa_worlds p) c (pa_now p) (pa_answer p) parse_set set_json prune_after code root
      (pa_names p ss) vd ss = Some (Inr code', vd', ss')
    \<and> enrolled c parse_set set_json M vd' \<and> awaiting (blake3_hex c) L ss'"
proof (cases "asked c parse_set M p")
  case None
  with run_once_enrolled(1) [OF assms(1)] assms(1,2) show ?thesis by (simp add: asked_def)
next
  case (Some rs)
  with assms(4) have rs: "asked c parse_set M p = Some (m_recipients M)" and W: "\<forall>sid. unreached (pa_worlds p sid)"
    by (simp_all add: pass_unreached_def)
  have one: "\<exists>s1. ship_session (pa_worlds p sid) c M sid prune_after (start_state (the (ss sid))) = Some (Inr Unreachable, s1, True)
      \<and> st_dir s1 = (the (ss sid))\<lparr>sd_chain_key := Some (key_in_use (pa_worlds p sid) (the (ss sid)))\<rparr>"
    if "sid \<in> dom ss" for sid
  proof -
    from that obtain d where d: "ss sid = Some d" by blast
    note at = awaitingD [OF assms(2) d]
    from assms(3) d obtain host where "list_all (\<lambda>l. entry l \<noteq> None) (L sid)"
      "frame_member (unlines (L sid)) ''host'' = Some host" by (auto simp: shippable_def)
    from session_unreached [OF W [rule_format] at(2-4) this] d show ?thesis by simp
  qed
  then obtain f where f: "\<forall>sid \<in> dom ss. ship_session (pa_worlds p sid) c M sid prune_after (start_state (the (ss sid)))
        = Some (Inr Unreachable, f sid, True)
      \<and> st_dir (f sid) = (the (ss sid))\<lparr>sd_chain_key := Some (key_in_use (pa_worlds p sid) (the (ss sid)))\<rparr>"
    using bchoice [of "dom ss"] by metis
  define ss' where "ss' = (\<lambda>sid. if sid \<in> set (pa_names p ss) then Some (st_dir (f sid)) else ss sid)"
  have "\<forall>name \<in> set (pa_names p ss). safe_id name \<and> ss name = Some (the (ss name))
      \<and> ship_session (pa_worlds p name) c M name prune_after (start_state (the (ss name))) = Some (Inr Unreachable, f name, True)
      \<and> Unreachable \<noteq> Stopped"
    unfolding assms(6) using f awaitingD(1) [OF assms(2)] by auto
  from run_sessions_each [OF this assms(5)] obtain u where
    "run_sessions (pa_worlds p) c M prune_after root (pa_names p ss) ss (False, False) = Some (Inr (False, u), ss')"
    unfolding ss'_def by blast
  note run = run_once_enrolled(2) [OF assms(1) rs [unfolded asked_def] this]
  have "awaiting (blake3_hex c) L ss'"
  proof -
    have len: "length (rnd_chain_key (pa_worlds p sid)) = 32" for sid using W by (simp add: unreached_def)
    have "settled (blake3_hex c) sid (L sid) d' \<and> unshipped d'" if d': "ss' sid = Some d'" for sid d'
    proof -
      from d' obtain d where d: "ss sid = Some d" by (auto simp: ss'_def assms(6) split: if_splits)
      with d' f have "d' = d\<lparr>sd_chain_key := Some (key_in_use (pa_worlds p sid) d)\<rparr>"
        by (auto simp: ss'_def assms(6) dom_def)
      with awaitingD(2,3) [OF assms(2) d] len show ?thesis
        by (auto simp: settled_def log_is_def unshipped_upto [of _ "L sid"] shipped_upto_def key_in_use_def split: option.splits)
    qed
    moreover have "ss' sid = None \<longleftrightarrow> ss sid = None" for sid by (auto simp: ss'_def assms(6))
    ultimately show ?thesis using assms(2)
      unfolding awaiting_def all_settled_def create_dir_def
      by (smt (verit, ccfv_threshold) option.case_eq_if option.collapse)
  qed
  with run enrolled_pinned [OF assms(1)] show ?thesis by blast
qed

lemma events_for_append: "events_for J sid (hs @ ks) = events_for J sid hs @ events_for J sid ks"
  by (induction hs) (simp_all split: option.split)

lemma frames_shippable:
  assumes "serde_str (ja_str J)" "serde_body (ja_body J)" "hash_hex H"
    and "\<forall>h \<in> set hooks. list_all json_plain (inv_host (fst h))" "awaiting H (\<lambda>sid. session_frames H J sid hooks) ss"
  shows "shippable (\<lambda>sid. session_frames H J sid hooks) ss"
  using session_frames_ready [OF assms(1-4)] awaitingD(4) [OF assms(5)] by (auto simp: shippable_def)

text \<open>The directories listed are those of sessions some hook named.\<close>

lemma awaiting_dirs:
  assumes "awaiting H (\<lambda>sid. session_frames H J sid hooks) ss" "\<forall>sid. events_for J sid hooks \<noteq> [] \<longrightarrow> sid \<in> U"
  shows "dom ss \<subseteq> U"
proof
  fix sid assume "sid \<in> dom ss"
  then obtain d where "ss sid = Some d" by blast
  from awaitingD(4) [OF assms(1) this] have "events_for J sid hooks \<noteq> []" by (auto simp: session_frames_def)
  with assms(2) show "sid \<in> U" by blast
qed

lemma ship_waits:
  assumes "serde_str (ja_str J)" "serde_body (ja_body J)" "hash_hex (blake3_hex c)"
    and "\<forall>(hooks, p) \<in> set rounds. hooks_before J root (blake3_hex c) hooks p \<and> lists_dirs U p
      \<and> pass_unreached c parse_set M p"
    and "enrolled c parse_set set_json M vd" "awaiting (blake3_hex c) (\<lambda>sid. session_frames (blake3_hex c) J sid past) ss"
    and "length past + length (concat (map fst rounds)) < 2 ^ 64"
    and "\<forall>h \<in> set (past @ concat (map fst rounds)). list_all json_plain (inv_host (fst h))"
    and "\<forall>sid. events_for J sid (past @ concat (map fst rounds)) \<noteq> [] \<longrightarrow> sid \<in> U"
  shows "\<exists>vd' ss'. ship c parse_set set_json root (Some i) prune_after (map snd rounds) vd ss = Some (None, vd', ss')
    \<and> enrolled c parse_set set_json M vd'
    \<and> awaiting (blake3_hex c) (\<lambda>sid. session_frames (blake3_hex c) J sid (past @ concat (map fst rounds))) ss'"
  using assms(4-9)
proof (induction rounds arbitrary: past vd ss)
  case Nil
  then show ?case by auto
next
  case (Cons round rounds)
  obtain hooks p where r: "round = (hooks, p)" by (cases round)
  let ?H = "blake3_hex c" and ?now = "past @ hooks"
  have p: "hooks_before J root ?H hooks p" "lists_dirs U p" "pass_unreached c parse_set M p"
    using Cons.prems(1) r by simp_all
  obtain ss0 where ss0: "run_records ?H J root ss hooks = Some ss0" "awaiting ?H (\<lambda>sid. session_frames ?H J sid ?now) ss0"
    using run_records_awaiting [OF assms(1-3) Cons.prems(3), of hooks root] Cons.prems(4) r by auto
  have before: "pa_before p ss = ss0" using p(1) ss0(1) by (simp add: hooks_before_def)
  have "\<forall>h \<in> set ?now. list_all json_plain (inv_host (fst h))" using Cons.prems(5) r by auto
  from frames_shippable [OF assms(1-3) this ss0(2)] have ship: "shippable (\<lambda>sid. session_frames ?H J sid ?now) ss0" .
  have "\<forall>sid. events_for J sid ?now \<noteq> [] \<longrightarrow> sid \<in> U" using Cons.prems(6) r by (auto simp: events_for_append)
  from awaiting_dirs [OF ss0(2) this] p(2)
  have names: "distinct (pa_names p ss0)" "set (pa_names p ss0) = dom ss0" unfolding lists_dirs_def by blast+
  obtain vd1 ss1 code where pass: "run_once (pa_worlds p) c (pa_now p) (pa_answer p) parse_set set_json prune_after 0 root
      (pa_names p ss0) vd ss0 = Some (Inr code, vd1, ss1)"
    "enrolled c parse_set set_json M vd1" "awaiting ?H (\<lambda>sid. session_frames ?H J sid ?now) ss1"
    using pass_awaiting [OF Cons.prems(2) ss0(2) ship p(3) names] by blast
  have rest: "\<forall>(hooks, p) \<in> set rounds. hooks_before J root ?H hooks p \<and> lists_dirs U p \<and> pass_unreached c parse_set M p"
    "length ?now + length (concat (map fst rounds)) < 2 ^ 64"
    "\<forall>h \<in> set (?now @ concat (map fst rounds)). list_all json_plain (inv_host (fst h))"
    "\<forall>sid. events_for J sid (?now @ concat (map fst rounds)) \<noteq> [] \<longrightarrow> sid \<in> U"
    using Cons.prems(1,4-6) r by simp_all
  from Cons.IH [OF rest(1) pass(2,3) rest(2-4)] pass(1) before r show ?case
    by (simp add: Let_def)
qed

text \<open>And then a pass a vault accepts.\<close>

lemma pass_delivers:
  assumes "crypto_ok c" "enrolled c parse_set set_json M vd" "awaiting (blake3_hex c) L ss" "shippable L ss"
    and "pass_accepted c parse_set M p" "distinct (pa_names p ss)" "set (pa_names p ss) = dom ss"
  shows "\<exists>vd' ss' f. run_once (pa_worlds p) c (pa_now p) (pa_answer p) parse_set set_json None code root
      (pa_names p ss) vd ss = Some (Inr 0, vd', ss')
    \<and> (\<forall>sid d. ss sid = Some d \<longrightarrow>
        ship_session (pa_worlds p sid) c M sid None (start_state d) = Some (Inr Done, f sid, True)
        \<and> ss' sid = Some (st_dir (f sid)))"
proof -
  have asked: "asked c parse_set M p = Some (m_recipients M)" and W: "\<forall>sid. accepting (pa_worlds p sid)"
    using assms(5) by (simp_all add: pass_accepted_def)
  have server: "check_server (m_server M) = Inr ()"
    using assms(2) load_machine_Inr(1) by (auto simp: enrolled_def)
  have "\<exists>s1. ship_session (pa_worlds p sid) c M sid None (start_state (the (ss sid))) = Some (Inr Done, s1, True)"
    if "sid \<in> dom ss" for sid
  proof -
    from that obtain d where d: "ss sid = Some d" by blast
    note at = awaitingD [OF assms(3) d]
    from assms(4) d obtain host where "list_all (\<lambda>l. entry l \<noteq> None) (L sid)"
      "frame_member (unlines (L sid)) ''host'' = Some host" by (auto simp: shippable_def)
    from session_delivers [OF W [rule_format] server assms(1) at(2-4) this] d show ?thesis by auto
  qed
  then obtain f where f: "\<forall>sid \<in> dom ss.
      ship_session (pa_worlds p sid) c M sid None (start_state (the (ss sid))) = Some (Inr Done, f sid, True)"
    using bchoice [of "dom ss"] by metis
  have each: "\<forall>name \<in> set (pa_names p ss). safe_id name \<and> ss name = Some (the (ss name))
      \<and> ship_session (pa_worlds p name) c M name None (start_state (the (ss name))) = Some (Inr Done, f name, True)
      \<and> Done \<noteq> Stopped"
    unfolding assms(7) using f awaitingD(1) [OF assms(3)] by auto
  define ss' where "ss' = (\<lambda>sid. if sid \<in> set (pa_names p ss) then Some (st_dir (f sid)) else ss sid)"
  from run_sessions_each [OF each assms(6)] obtain u where
    run: "run_sessions (pa_worlds p) c M None root (pa_names p ss) ss (False, False) = Some (Inr (False, u), ss')"
    unfolding ss'_def by blast
  have "session_outcome (pa_worlds p) c M None ss n = Some Done" if "n \<in> set (pa_names p ss)" for n
  proof -
    have "ship_session (pa_worlds p n) c M n None (start_state (the (ss n))) = Some (Inr Done, f n, True)"
      "ss n = Some (the (ss n))" using each that by blast+
    moreover from this(2) have "create_dir ss n = the (ss n)" by (metis create_dir_def option.simps(5))
    ultimately show ?thesis by (simp only: session_outcome_def) simp
  qed
  with run_sessions_outcomes [OF run assms(6)] have "\<not> u" by auto
  then have code: "exit_code code (False, u) = 0" by (simp add: exit_code_def)
  have "ship_session (pa_worlds p sid) c M sid None (start_state d) = Some (Inr Done, f sid, True)
      \<and> ss' sid = Some (st_dir (f sid))" if "ss sid = Some d" for sid d
    using f [rule_format, of sid] that by (simp add: ss'_def assms(7) domI)
  with run_once_enrolled(2) [OF assms(2) asked [unfolded asked_def] run, of code] code show ?thesis by metis
qed

end
