(* ===== verification/LoopProperties.thy ===== *)
theory LoopProperties
  imports ShipProperties RunProperties ShipLoop
begin

text \<open>
  The program as a whole over time: hooks that go on recording while \<^verbatim>\<open>nd7 ship --every\<close> tries to
  reach its vault, and what ends that loop.
\<close>

section \<open>From hooks to the vault\<close>

text \<open>
  A pass brought the vault the frames \<open>ls\<close> of a session: the directory it found holds exactly them,
  the requests it sent open under the directory's chain key to batches that together are them, the
  vault's linkage rule accepts their indexes, \<^verbatim>\<open>shipped\<close> then names the head it computed, and the chain
  key is gone exactly when the last frame ends the session. \<open>ss\<close> is what the pass found, \<open>ss'\<close> what it
  left.
\<close>

definition arrived ::
  "crypto_api \<Rightarrow> machine \<Rightarrow> ship_pass \<Rightarrow> sessions \<Rightarrow> sessions \<Rightarrow> bytes \<Rightarrow> bytes list \<Rightarrow> bool" where
  "arrived c M p ss ss' sid ls \<longleftrightarrow>
     (\<exists>d s1 host bs h. ss sid = Some d \<and> sd_events d = Some (unlines ls)
        \<and> ship_session (pa_worlds p sid) c M sid None (start_state d) = Some (Inr Done, s1, True)
        \<and> ss' sid = Some (st_dir s1)
        \<and> list_all2 (carries c (key_in_use (pa_worlds p sid) d) sid host) (map fst (st_sent s1)) bs
        \<and> concat (map fst bs) = unlines ls
        \<and> verify_linkage (blake3_hex c) None sid (concat (map snd bs)) = Inr h
        \<and> read_head (sd_shipped (st_dir s1)) = Inr (Some h)
        \<and> (sd_chain_key (st_dir s1) = None \<longleftrightarrow> frame_member (last ls) ''kind'' = Some ''session_end''))"

text \<open>
  C5. Nothing a hook recorded is lost to an outage. Hooks of any sessions run between the passes of
  \<^verbatim>\<open>nd7 ship --every\<close>, which does not reach its vault, for any number of passes and whichever
  request fails; the loop goes on, and the first pass a vault accepts, from the very sessions the
  others and the hooks left, sends it for every session batches that open under the session's key to
  exactly the frames of that session's hooks in their order, with indexes its linkage rule accepts
  up to the head that \<^verbatim>\<open>shipped\<close> then names.
\<close>
theorem outage_survived:
  assumes "serde_str (ja_str J)" "serde_body (ja_body J)" "hash_hex (blake3_hex c)" "crypto_ok c"
    and "enrolled c parse_set set_json M vd"
    and "\<forall>(hooks, p) \<in> set rounds. hooks_before J root (blake3_hex c) hooks p \<and> lists_dirs U p
      \<and> pass_unreached c parse_set M p"
    and "hooks_before J root (blake3_hex c) hooks p" "lists_dirs U p" "pass_accepted c parse_set M p"
    and "all = concat (map fst rounds) @ hooks" "length all < 2 ^ 64"
    and "\<forall>h \<in> set all. list_all json_plain (inv_host (fst h))" "\<forall>sid. events_for J sid all \<noteq> [] \<longrightarrow> sid \<in> U"
  shows "\<exists>vd1 ss1 vd' ss'. ship c parse_set set_json root (Some i) None (map snd rounds) vd Map.empty = Some (None, vd1, ss1)
    \<and> ship c parse_set set_json root (Some i) None (map snd rounds @ [p]) vd Map.empty = Some (None, vd', ss')
    \<and> (\<forall>sid. let ls = session_frames (blake3_hex c) J sid all in
        safe_id sid \<and> ls \<noteq> [] \<longrightarrow> arrived c M p (pa_before p ss1) ss' sid ls)"
proof -
  let ?H = "blake3_hex c" and ?past = "concat (map fst rounds)"
  let ?L = "\<lambda>sid. session_frames ?H J sid all"
  have sub: "length ([] :: (invocation \<times> bytes) list) + length ?past < 2 ^ 64"
    "\<forall>h \<in> set ([] @ ?past). list_all json_plain (inv_host (fst h))"
    "\<forall>sid. events_for J sid ([] @ ?past) \<noteq> [] \<longrightarrow> sid \<in> U"
    using assms(10-13) by (auto simp: events_for_append)
  have none: "(\<lambda>sid. session_frames ?H J sid []) = (\<lambda>sid. [])" by (simp add: session_frames_def)
  obtain vd1 ss1 where w: "ship c parse_set set_json root (Some i) None (map snd rounds) vd Map.empty = Some (None, vd1, ss1)"
    "enrolled c parse_set set_json M vd1" "awaiting ?H (\<lambda>sid. session_frames ?H J sid ?past) ss1"
    using ship_waits [OF assms(1-3,6,5), where past = "[]" and ss = Map.empty and i = i and prune_after = None] sub awaiting_empty [of ?H]
    by (auto simp: none)
  obtain ss0 where ss0: "run_records ?H J root ss1 hooks = Some ss0" "awaiting ?H ?L ss0"
    using run_records_awaiting [OF assms(1-3) w(3), of hooks root] assms(10,11) by auto
  have before: "pa_before p ss1 = ss0" using assms(7) ss0(1) by (simp add: hooks_before_def)
  note ship = frames_shippable [OF assms(1-3,12) ss0(2)]
  from awaiting_dirs [OF ss0(2) assms(13)] assms(8)
  have names: "distinct (pa_names p ss0)" "set (pa_names p ss0) = dom ss0" unfolding lists_dirs_def by blast+
  obtain vd' ss' f where last: "run_once (pa_worlds p) c (pa_now p) (pa_answer p) parse_set set_json None 0 root
      (pa_names p ss0) vd1 ss0 = Some (Inr 0, vd', ss')"
    and each: "\<forall>sid d. ss0 sid = Some d \<longrightarrow>
        ship_session (pa_worlds p sid) c M sid None (start_state d) = Some (Inr Done, f sid, True)
        \<and> ss' sid = Some (st_dir (f sid))"
    using pass_delivers [OF assms(4) w(2) ss0(2) ship assms(9) names] by blast
  have run: "ship c parse_set set_json root (Some i) None (map snd rounds @ [p]) vd Map.empty = Some (None, vd', ss')"
    using w(1) last before by (simp add: ship_append Let_def)
  have W: "accepting (pa_worlds p sid)" for sid using assms(9) by (simp add: pass_accepted_def)
  have server: "check_server (m_server M) = Inr ()"
    using assms(5) load_machine_Inr(1) by (auto simp: enrolled_def)
  have "arrived c M p (pa_before p ss1) ss' sid (?L sid)"
    if sid: "safe_id sid" "?L sid \<noteq> []" for sid
  proof -
    have "ss0 sid \<noteq> None" using ss0(2) sid unfolding awaiting_def all_settled_def by blast
    then obtain d where d: "ss0 sid = Some d" by blast
    note at = awaitingD [OF ss0(2) d]
    have chain: "chain_ok ?H sid None (?L sid)" and ev: "sd_events d = Some (unlines (?L sid))"
      using at(2) sid(2) by (auto simp: settled_def log_is_def)
    from ship d obtain host where "list_all (\<lambda>l. entry l \<noteq> None) (?L sid)"
      "frame_member (unlines (?L sid)) ''host'' = Some host" by (auto simp: shippable_def)
    from session_delivers [OF W server assms(4) at(2-4) this] obtain s1 bs where
      s1: "ship_session (pa_worlds p sid) c M sid None (start_state d) = Some (Inr Done, s1, True)"
      "list_all2 (carries c (key_in_use (pa_worlds p sid) d) sid host) (map fst (st_sent s1)) bs"
      "concat (map fst bs) = unlines (?L sid)"
      "verify_linkage ?H None sid (concat (map snd bs)) = Inr (head_of (last (?L sid)))"
      "sd_shipped (st_dir s1) = Some (head_line (last (?L sid)))"
      "sd_chain_key (st_dir s1) = (if frame_member (last (?L sid)) ''kind'' = Some ''session_end'' then None
         else Some (key_in_use (pa_worlds p sid) d))"
      by blast
    moreover have "read_head (Some (head_line (last (?L sid)))) = Inr (Some (head_of (last (?L sid))))"
      by (rule read_head_line [OF chain_last(1,2) [OF chain sid(2)]])
    ultimately have "read_head (sd_shipped (st_dir s1)) = Inr (Some (head_of (last (?L sid))))" by simp
    moreover have "ss' sid = Some (st_dir s1)" using each d s1(1) by simp
    moreover have "sd_chain_key (st_dir s1) = None \<longleftrightarrow> frame_member (last (?L sid)) ''kind'' = Some ''session_end''"
      using s1(6) by simp
    ultimately show ?thesis
      using d ev s1(1-4) unfolding arrived_def before
      by (intro exI [of _ d] exI [of _ s1] exI [of _ host] exI [of _ bs] exI [of _ "head_of (last (?L sid))"] conjI)
  qed
  then show ?thesis using w(1) run unfolding Let_def by blast
qed

text \<open>Three rounds: no recipients, then a network that fails, then a vault that accepts.\<close>

definition pass0 :: "(http_request \<Rightarrow> (nat \<times> bytes) option) \<Rightarrow> ship_world \<Rightarrow> ship_pass" where
  "pass0 answer W =
     \<lparr>pa_before = (\<lambda>ss. case run_records H0 J0 ''/s'' ss hooks0 of Some ss' \<Rightarrow> ss' | None \<Rightarrow> ss),
      pa_names = (\<lambda>ss. if ss ''abc'' = None then [] else [''abc'']), pa_now = 7, pa_answer = answer,
      pa_worlds = (\<lambda>sid. W)\<rparr>"

definition down0 :: ship_world where
  "down0 = Samples.world0\<lparr>net_reply := (\<lambda>k. Send_Err ''no route'')\<rparr>"

definition rounds0 :: "((invocation \<times> bytes) list \<times> ship_pass) list" where
  "rounds0 = [(hooks0, pass0 (\<lambda>r. None) Samples.world0), (hooks0, pass0 (\<lambda>r. Some (200, ''r'')) down0)]"

lemma pass0_ok: "hooks_before J0 ''/s'' H0 hooks0 (pass0 answer W)" "lists_dirs {''abc''} (pass0 answer W)"
  by (auto simp: hooks_before_def lists_dirs_def pass0_def)

lemma enrolled0: "enrolled c0 (\<lambda>b. Some signed0) (\<lambda>s. ''r'') machine0 vault0"
proof -
  have "verify_against c0 signed0 (srs_set (m_recipients machine0))"
    unfolding signed0_def
    by (rule verify_against_signed [OF crypto0(1,2)])
      (simp_all add: machine0_def signed0_def sign_set_def recipients0_def admin0_def admin_from_seed_def)
  moreover have "m_recipients machine0 = signed0" by (simp add: machine0_def)
  ultimately show ?thesis by (simp add: enrolled_def load0)
qed

lemma asked0:
  "asked c0 (\<lambda>b. Some signed0) machine0 (pass0 (\<lambda>r. Some (200, b)) W) = Some (m_recipients machine0)"
  "asked c0 (\<lambda>b. Some signed0) machine0 (pass0 (\<lambda>r. None) W) = None"
  using fetch0 by (simp_all add: asked_def pass0_def machine0_def fetch_recipients_def split: sum.split)

lemma down0_unreached: "unreached down0"
  by (simp add: unreached_def down0_def Samples.world0_def seed0_def)

lemma events0_session: "hook_event_of J0 h = Some e \<Longrightarrow> ev_session_id e = ''abc''"
  by (auto simp: hook_event_of_def from_str_def J0_def event_new_def common0_def Let_def
      split: option.splits sum.splits if_splits prod.splits)

theorem outage_survived_at:
  "\<exists>vd1 ss1 vd' ss'. ship c0 (\<lambda>b. Some signed0) (\<lambda>s. ''r'') ''/s'' (Some 60) None (map snd rounds0) vault0 Map.empty
      = Some (None, vd1, ss1)
    \<and> ship c0 (\<lambda>b. Some signed0) (\<lambda>s. ''r'') ''/s'' (Some 60) None
      (map snd rounds0 @ [pass0 (\<lambda>r. Some (200, ''r'')) Samples.world0]) vault0 Map.empty = Some (None, vd', ss')
    \<and> arrived c0 machine0 (pass0 (\<lambda>r. Some (200, ''r'')) Samples.world0)
        (pa_before (pass0 (\<lambda>r. Some (200, ''r'')) Samples.world0) ss1) ss' ''abc''
        (session_frames H0 J0 ''abc'' (concat (map fst rounds0) @ hooks0))"
proof -
  let ?all = "concat (map fst rounds0) @ hooks0"
  have rounds: "\<forall>(hooks, p) \<in> set rounds0. hooks_before J0 ''/s'' (blake3_hex c0) hooks p \<and> lists_dirs {''abc''} p
      \<and> pass_unreached c0 (\<lambda>b. Some signed0) machine0 p"
    using pass0_ok asked0 down0_unreached by (simp add: rounds0_def pass_unreached_def) (simp add: pass0_def)
  have up: "pass_accepted c0 (\<lambda>b. Some signed0) machine0 (pass0 (\<lambda>r. Some (200, ''r'')) Samples.world0)"
    using asked0 accepting0 by (simp add: pass_accepted_def) (simp add: pass0_def)
  have len: "length ?all < 2 ^ 64" by (simp add: rounds0_def hooks0_def)
  have hosts: "\<forall>h \<in> set ?all. list_all json_plain (inv_host (fst h))"
    by (auto simp: rounds0_def hooks0_def facts0_def json_plain_def is_ascii_alphanumeric_def)
  have ids: "\<forall>sid. events_for J0 sid ?all \<noteq> [] \<longrightarrow> sid \<in> {''abc''}"
    using events0_session by (force simp: events_for_def List.map_filter_def filter_empty_conv)
  have js: "serde_str (ja_str J0)" "serde_body (ja_body J0)" "hash_hex (blake3_hex c0)"
    using samples_log by (simp_all add: J0_def)
  have "events_for J0 ''abc'' ?all \<noteq> []" using events0 by (auto simp: rounds0_def events_for_append)
  then have ne: "session_frames H0 J0 ''abc'' ?all \<noteq> []"
    by (metis session_frames_def length_0_conv length_frames_of add_0 list.size(3))
  have before: "hooks_before J0 ''/s'' (blake3_hex c0) hooks0 (pass0 (\<lambda>r. Some (200, ''r'')) Samples.world0)"
    using pass0_ok(1) by simp
  have "safe_id ''abc''" by (simp add: safe_id_def check_session_id_def)
  with ne show ?thesis
    using outage_survived [OF js crypto_ok0 enrolled0 rounds before pass0_ok(2) up refl len hosts ids, of 60]
    unfolding Let_def blake0 by blast
qed

section \<open>What ends the loop\<close>

lemma run_sessions_refused:
  assumes "run_sessions Ws c M prune_after root listed ss r = Some (Inl e, ss')"
  shows "\<exists>name \<in> set listed. \<not> safe_id name"
  using assms
proof (induction listed arbitrary: ss r)
  case (Cons name listed)
  obtain st un where r: "r = (st, un)" by (cases r)
  show ?case
  proof (cases "open_in root name")
    case (Inl x)
    then show ?thesis by (auto simp: open_in_def safe_id_def split: sum.splits)
  next
    case (Inr log)
    with Cons.prems r obtain ss1 r1 where "run_sessions Ws c M prune_after root listed ss1 r1 = Some (Inl e, ss')"
      by (auto simp: Let_def split: option.splits)
    from Cons.IH [OF this] show ?thesis by simp
  qed
next
  case Nil
  then show ?case by (cases r) simp
qed

lemma run_once_Inl:
  assumes "run_once Ws c now answer parse_set set_json prune_after code root listed vd ss = Some (Inl e, vd', ss')"
  shows "case e of
      Not_Enrolled x \<Rightarrow> load_machine parse_set vd = Inl x \<and> vd' = vd \<and> ss' = ss
    | Unsigned_Recipients \<Rightarrow>
        (\<exists>M rs. load_machine parse_set vd = Inr M \<and> fetch_recipients c now answer parse_set M = Some rs
          \<and> \<not> verify_against c rs (srs_set (m_recipients M))) \<and> vd' = vd \<and> ss' = ss
    | Run_Log x \<Rightarrow> \<exists>name \<in> set listed. \<not> safe_id name"
proof (cases "load_machine parse_set vd")
  case (Inl x)
  with assms show ?thesis by (auto simp: run_once_def)
next
  case (Inr M)
  show ?thesis
  proof (cases "fetch_recipients c now answer parse_set M")
    case None
    with Inr assms show ?thesis by (simp add: run_once_def)
  next
    case (Some rs)
    show ?thesis
    proof (cases "verify_against c rs (srs_set (m_recipients M))")
      case False
      with Inr Some assms show ?thesis by (auto simp: run_once_def)
    next
      case True
      with Inr Some assms obtain x where "e = Run_Log x"
        "run_sessions Ws c (M\<lparr>m_recipients := rs\<rparr>) prune_after root listed ss (False, False) = Some (Inl x, ss')"
        by (auto simp: run_once_def Let_def split: option.splits sum.splits)
      with run_sessions_refused show ?thesis by fastforce
    qed
  qed
qed

text \<open>
  C36. What ends \<^verbatim>\<open>nd7 ship --every\<close>: never a vault out of reach, a divergence or a session's own
  failure, but a pass whose machine is not enrolled, or whose vault hands out recipients no pinned
  admin signed, both of which leave the pinned set and every session as they were; or a directory
  under \<^verbatim>\<open>sessions/\<close> whose name is not a session id, which the documentation does not mention.
\<close>
theorem loop_ends:
  assumes "ship c parse_set set_json root (Some i) prune_after passes vd ss = Some (Some r, vd', ss')"
  shows "\<exists>k < length passes. \<exists>e vd1 ss1. r = Inl e
    \<and> ship c parse_set set_json root (Some i) prune_after (take k passes) vd ss = Some (None, vd1, ss1)
    \<and> (let p = passes ! k; ss0 = pa_before p ss1 in
        case e of
          Not_Enrolled x \<Rightarrow> load_machine parse_set vd1 = Inl x \<and> vd' = vd1 \<and> ss' = ss0
        | Unsigned_Recipients \<Rightarrow>
            (\<exists>M rs. load_machine parse_set vd1 = Inr M
              \<and> fetch_recipients c (pa_now p) (pa_answer p) parse_set M = Some rs
              \<and> \<not> verify_against c rs (srs_set (m_recipients M))) \<and> vd' = vd1 \<and> ss' = ss0
        | Run_Log x \<Rightarrow> \<exists>name \<in> set (pa_names p ss0). \<not> safe_id name)"
proof -
  obtain k e vd1 ss1 where k: "k < length passes" "r = Inl e"
    "ship c parse_set set_json root (Some i) prune_after (take k passes) vd ss = Some (None, vd1, ss1)"
    and last: "run_once (pa_worlds (passes ! k)) c (pa_now (passes ! k)) (pa_answer (passes ! k)) parse_set set_json
        prune_after 0 root (pa_names (passes ! k) (pa_before (passes ! k) ss1)) vd1 (pa_before (passes ! k) ss1)
      = Some (Inl e, vd', ss')"
    using ship_every_ends [OF assms] unfolding Let_def by blast
  from run_once_Inl [OF last] k show ?thesis unfolding Let_def by blast
qed

theorem loop_ends_at:
  "\<exists>k < 2. \<exists>e vd1 ss1. (Inl Unsigned_Recipients :: run_error + nat) = Inl e
    \<and> ship c0 (\<lambda>b. Some (if b = ''r'' then signed0 else signed0\<lparr>srs_signature := ''x''\<rparr>)) (\<lambda>s. ''r'') ''/s'' (Some 60) None
        (take k [pass0 (\<lambda>r. None) Samples.world0, pass0 (\<lambda>r. Some (200, ''forged'')) Samples.world0]) vault0 Map.empty
      = Some (None, vd1, ss1) \<and> vault0 = vd1"
proof -
  let ?p = "\<lambda>b. Some (if b = ''r'' then signed0 else signed0\<lparr>srs_signature := ''x''\<rparr>)"
  let ?ps = "[pass0 (\<lambda>r. None) Samples.world0, pass0 (\<lambda>r. Some (200, ''forged'')) Samples.world0]"
  have load: "load_machine ?p vault0 = Inr machine0" by (simp add: load0)
  have none: "fetch_recipients c0 7 (\<lambda>r. None) ?p machine0 = None"
    by (simp add: fetch_recipients_def split: sum.split)
  have forged: "fetch_recipients c0 7 (\<lambda>r. Some (200, ''forged'')) ?p machine0 = Some (signed0\<lparr>srs_signature := ''x''\<rparr>)"
    by (simp add: fetch0)
  have bad: "\<not> verify_against c0 (signed0\<lparr>srs_signature := ''x''\<rparr>) (srs_set (m_recipients machine0))"
    by (auto simp: verify_against_def verify_ed25519_def decode_array_def c0_def split: option.splits)
  have first: "run_once Ws c0 7 (\<lambda>r. None) ?p (\<lambda>s. ''r'') None 0 ''/s'' listed vault0 ss = Some (Inr 0, vault0, ss)" for Ws listed ss
    unfolding run_once_def load none sum.case option.case ..
  have second: "run_once Ws c0 7 (\<lambda>r. Some (200, ''forged'')) ?p (\<lambda>s. ''r'') None 0 ''/s'' listed vault0 ss
      = Some (Inl Unsigned_Recipients, vault0, ss)" for Ws listed ss
    by (rule run_once_unsigned [OF load forged bad])
  obtain ss' where "ship c0 ?p (\<lambda>s. ''r'') ''/s'' (Some 60) None ?ps vault0 Map.empty
      = Some (Some (Inl Unsigned_Recipients), vault0, ss')"
    using first second by (simp add: pass0_def Let_def del: fetch0)
  from loop_ends [OF this] obtain k e vd1 ss1 where k: "k < length ?ps" "(Inl Unsigned_Recipients :: run_error + nat) = Inl e"
    "ship c0 ?p (\<lambda>s. ''r'') ''/s'' (Some 60) None (take k ?ps) vault0 Map.empty = Some (None, vd1, ss1)"
    and "case e of Not_Enrolled x \<Rightarrow> load_machine ?p vd1 = Inl x \<and> vault0 = vd1 \<and> ss' = pa_before (?ps ! k) ss1
      | Unsigned_Recipients \<Rightarrow>
          (\<exists>M rs. load_machine ?p vd1 = Inr M
            \<and> fetch_recipients c0 (pa_now (?ps ! k)) (pa_answer (?ps ! k)) ?p M = Some rs
            \<and> \<not> verify_against c0 rs (srs_set (m_recipients M))) \<and> vault0 = vd1 \<and> ss' = pa_before (?ps ! k) ss1
      | Run_Log x \<Rightarrow> \<exists>name \<in> set (pa_names (?ps ! k) (pa_before (?ps ! k) ss1)). \<not> safe_id name"
    unfolding Let_def by blast
  then have "vault0 = vd1" by (simp only: sum.inject) (auto split: run_error.splits)
  with k show ?thesis by (intro exI [of _ k] exI [of _ e] exI [of _ vd1] exI [of _ ss1]) simp
qed

end
