(* ===== verification/Places.thy ===== *)
theory Places
  imports Grant
begin

text \<open>
  Where the program keeps its files: \<^verbatim>\<open>home\<close> and \<^verbatim>\<open>sessions_root\<close> of \<^verbatim>\<open>src/src/session.rs\<close>,
  \<^verbatim>\<open>state_root\<close> of \<^verbatim>\<open>src/src/session_log.rs\<close> and \<^verbatim>\<open>vault_dir\<close> of \<^verbatim>\<open>src/src/ship.rs\<close>. What the
  password database and the environment hold are arguments.
\<close>

record places =
  pl_passwd :: "bytes option"                  \<comment> \<open>the directory of the user's entry\<close>
  pl_xdg_state :: "bytes option"               \<comment> \<open>\<^verbatim>\<open>XDG_STATE_HOME\<close>\<close>
  pl_home_var :: "bytes option"                \<comment> \<open>\<^verbatim>\<open>HOME\<close>\<close>

datatype place_error = No_passwd_entry | No_state_home

definition home :: "places \<Rightarrow> place_error + bytes" where
  "home e = (case pl_passwd e of None \<Rightarrow> Inl No_passwd_entry | Some dir \<Rightarrow> Inr dir)"

text \<open>As a release build has it, without the test seam.\<close>

definition sessions_root :: "places \<Rightarrow> place_error + bytes" where
  "sessions_root e = (case home e of Inl x \<Rightarrow> Inl x | Inr h \<Rightarrow> Inr (path_join h ''.nd7/sessions''))"

definition state_root :: "places \<Rightarrow> place_error + bytes" where
  "state_root e =
     (case (case pl_xdg_state e of
              Some v \<Rightarrow> if v \<noteq> [] then Some v else map_option (\<lambda>h. path_join h ''.local/state'') (pl_home_var e)
            | None \<Rightarrow> map_option (\<lambda>h. path_join h ''.local/state'') (pl_home_var e)) of
        None \<Rightarrow> Inl No_state_home
      | Some state_home \<Rightarrow> Inr (path_join state_home ''nd7''))"

definition vault_root :: "places \<Rightarrow> place_error + bytes" where
  "vault_root e = (case state_root e of Inl x \<Rightarrow> Inl x | Inr r \<Rightarrow> Inr (path_join r ''vault''))"

section \<open>What the grants refuse is what the profiles deny\<close>

text \<open>Neither the environment's \<^verbatim>\<open>HOME\<close> nor its state directory moves the sessions.\<close>

lemma sessions_root_env: "pl_passwd e = pl_passwd e' \<Longrightarrow> sessions_root e = sessions_root e'"
  by (simp add: sessions_root_def home_def)

lemma sessions_root_parent:
  assumes "home e = Inr h" "sessions_root e = Inr root"
  shows "path_parent root = Some (path_join h ''.nd7'')"
proof -
  have split: "rsplit_once CHR ''/'' (b @ ''.nd7/sessions'') = Some (b @ ''.nd7'', ''sessions'')" for b
    by (subst rsplit_once_Some) simp
  have "root = path_join h ''.nd7/sessions''" using assms by (simp add: sessions_root_def)
  then show ?thesis
    using split [of h] split [of "h @ ''/''"] split [of "[]"] by (simp add: path_parent_def path_join_def)
qed

text \<open>
  The two directories \<^const>\<open>own_records\<close> turns a grant away from are the two that
  \<^const>\<open>deny_records_rule\<close> names, when the policy has the same home and a state root that was
  already resolved.
\<close>

lemma own_records_rule:
  assumes "home e = Inr (po_home p)" "sessions_root e = Inr (g_root w)" "g_state w = po_state p"
  shows "deny_records_rule p = deny WRITE_OP_NAMES (map subpath [path_join (po_home p) ''.nd7'', g_state w])
    \<and> (own_records w path \<longleftrightarrow> (\<exists>d \<in> {path_join (po_home p) ''.nd7'', g_state w}. path_starts_with path d))"
  using sessions_root_parent [OF assms(1,2)] assms(3) by (auto simp: own_records_def deny_records_rule_def)

end
