(* ===== verification/Spec2Isabelle.thy ===== *)
theory Spec2Isabelle
  imports LogProperties VaultProperties EdgeProperties PolicyProperties LoopProperties Places
begin

text \<open>
  nd7: a verification development.

  \<^bold>\<open>The program.\<close> nd7 runs a coding agent (Claude Code, Codex) under a macOS sandbox, records what the
  agent does, and ships the records to a vault. Five parts work together.

    \<^item> The flight recorder. A hook of the agent starts \<^verbatim>\<open>nd7 record\<close> for each event. It parses the
      payload (\<^verbatim>\<open>src/src/hook/input.rs\<close>), makes an event of it (\<^verbatim>\<open>src/src/hook/event.rs\<close>) and appends the
      event as one frame to the log of its session (\<^verbatim>\<open>src/src/session_log.rs\<close>): a line of JSON that
      holds its number, the hash of the frame before it and its own hash. A sidecar file, \<^verbatim>\<open>head\<close>, names
      the last frame, so that a cut at the end is seen.
    \<^item> Shipping. \<^verbatim>\<open>nd7 ship\<close> (\<^verbatim>\<open>src/src/ship.rs\<close>) enrols the machine with a vault, then reads what is pending
      in each session, verifies it, cuts it into batches, seals them under a key of the session that
      is wrapped for each admin (\<^verbatim>\<open>src/src/vault/crypto.rs\<close>), adds a clear index
      (\<^verbatim>\<open>src/src/vault/index.rs\<close>, \<^verbatim>\<open>src/src/vault/wire.rs\<close>), signs each request, and notes what was
      acknowledged in \<^verbatim>\<open>shipped\<close>.
    \<^item> Confinement. \<^verbatim>\<open>nd7 run\<close> (\<^verbatim>\<open>src/src/bin/nd7.rs\<close>) writes the policy of the run
      (\<^verbatim>\<open>src/src/policy.rs\<close>) into a session directory (\<^verbatim>\<open>src/src/session.rs\<close>) and starts the agent under one
      profile, the floor. The only program the floor lets out is \<^verbatim>\<open>nd7-exec\<close>
      (\<^verbatim>\<open>src/src/bin/nd7-exec.rs\<close>), which puts each command under the second profile, which
      \<^verbatim>\<open>nd7 allow\<close> and \<^verbatim>\<open>nd7 deny\<close> change. A \<^verbatim>\<open>PreToolUse\<close> hook (\<^verbatim>\<open>src/src/hook_prefix.rs\<close>) rewrites the
      agent's commands so that they go through it.
    \<^item> Brokers. Two sockets lead out of the floor: an ssh-agent that forwards and logs every message
      (\<^verbatim>\<open>src/src/ssh_agent.rs\<close>, \<^verbatim>\<open>src/src/ssh_proxy.rs\<close>), and an opener of URLs
      (\<^verbatim>\<open>src/src/open_proxy.rs\<close>).
    \<^item> Installation. \<^verbatim>\<open>nd7 init\<close> writes nd7's hooks into the agents' configuration and the aliases into
      the shell's (\<^verbatim>\<open>src/src/agent_config.rs\<close>).

  \<^bold>\<open>Conventions.\<close> Bytes, strings and paths are lists of \<^typ>\<open>char\<close>, which has 256 values; text that must be
  UTF-8 is what \<^const>\<open>utf8_valid\<close> holds of. \<^verbatim>\<open>u64\<close> and \<^verbatim>\<open>i64\<close> are words of 64 bits and wrap as in a release
  build; where the code checks for overflow, so does the model. A \<^verbatim>\<open>Result\<close> is a sum, \<^const>\<open>Inl\<close> for the
  error; each error type is a datatype with the constructors of the source, and where the program
  prints the error, its text is a function. A panic is \<^const>\<open>None\<close>. What the program leaves on disk is
  part of the state a step returns.

  \<^bold>\<open>Which theory models what.\<close>

    \<^item> \<^verbatim>\<open>Bytes\<close>, \<^verbatim>\<open>Numerals\<close> and \<^verbatim>\<open>Paths\<close> are the prelude: byte and string operations of the Rust library,
      decimal numbers at their width, UTF-8, paths by components; the collections \<^verbatim>\<open>bytes_simps\<close> and
      \<^verbatim>\<open>bytes_dest\<close>.
    \<^item> \<^verbatim>\<open>HookInput\<close> is \<^verbatim>\<open>hook/input.rs\<close>; \<^verbatim>\<open>Frame\<close> is \<^verbatim>\<open>hook/event.rs\<close> with \<^verbatim>\<open>hook/invocation.rs\<close>: the event, \<^verbatim>\<open>seal\<close>,
      \<^verbatim>\<open>split_sealed\<close>. \<^verbatim>\<open>FrameBytes\<close> shows that the byte searches of the program find the members of
      the envelope whatever the strings of the event hold.
    \<^item> \<^verbatim>\<open>LinkedRun\<close> is the contract of a hash-linked run, a locale. \<^verbatim>\<open>Chain\<close> interprets it for frames
      (\<^verbatim>\<open>check_frame\<close>, \<^verbatim>\<open>verify_segment\<close>, \<^verbatim>\<open>head\<close>) and \<^verbatim>\<open>VaultIndex\<close> for index entries (\<^verbatim>\<open>build_index\<close>,
      \<^verbatim>\<open>verify_linkage\<close>), so the machine's rule and the vault's are proved from the same lemmas.
    \<^item> \<^verbatim>\<open>Backwards\<close> is the reader that finds the last frames from the end of the file in chunks, proved
      equal to a scan. \<^verbatim>\<open>SessionLog\<close> is the session directory: \<^verbatim>\<open>open_in\<close>, \<^verbatim>\<open>append\<close> as the list of its
      writes, each of which may be the last one before a crash, and \<^verbatim>\<open>verify\<close>. \<^verbatim>\<open>Recording\<close> is \<^verbatim>\<open>nd7 record\<close>
      and \<^verbatim>\<open>nd7 verify\<close>.
    \<^item> \<^verbatim>\<open>VaultCrypto\<close> is \<^verbatim>\<open>vault/crypto.rs\<close>. \<^verbatim>\<open>Ship\<close> is one session of \<^verbatim>\<open>ship.rs\<close> (\<^verbatim>\<open>read_pending\<close>, \<^verbatim>\<open>batches\<close>,
      \<^verbatim>\<open>push\<close>, \<^verbatim>\<open>finish\<close>), with lemmas in \<^verbatim>\<open>ShipProofs\<close>, \<^verbatim>\<open>FrameMembers\<close>, \<^verbatim>\<open>Delivery\<close>, \<^verbatim>\<open>Vouched\<close> and \<^verbatim>\<open>EndToEnd\<close>;
      \<^verbatim>\<open>Fleet\<close> is enrolment, the recipients and \<^verbatim>\<open>run_once\<close>; \<^verbatim>\<open>ShipLoop\<close> is \<^verbatim>\<open>ship\<close>, the loop of \<^verbatim>\<open>--every\<close>.
    \<^item> \<^verbatim>\<open>Seatbelt\<close> specifies the part of the profile language that is used. \<^verbatim>\<open>Policy\<close> renders both profiles
      line by line and states the rules they are meant to be; \<^verbatim>\<open>PolicyRules\<close> works out what these
      decide.
    \<^item> \<^verbatim>\<open>Disk\<close> is \<^verbatim>\<open>write_atomic\<close> as interleaved system calls on a disk of names and inodes; \<^verbatim>\<open>Sessions\<close> is the
      session directory; \<^verbatim>\<open>Exec\<close> is \<^verbatim>\<open>nd7-exec\<close>; \<^verbatim>\<open>Grant\<close> is \<^verbatim>\<open>allow\<close> and \<^verbatim>\<open>deny\<close> and the policy of a run; \<^verbatim>\<open>Launch\<close>
      is \<^verbatim>\<open>nd7 run\<close> up to its child; \<^verbatim>\<open>Places\<close> is where the files are kept.
    \<^item> \<^verbatim>\<open>Toml\<close>, \<^verbatim>\<open>CodexConfig\<close> and \<^verbatim>\<open>ClaudeConfig\<close> are \<^verbatim>\<open>agent_config.rs\<close>, with lemmas in \<^verbatim>\<open>CodexProofs\<close> and
      \<^verbatim>\<open>ClaudeProofs\<close>. \<^verbatim>\<open>SettledFiles\<close> is the contract of an install, a locale; \<^verbatim>\<open>Init\<close> is \<^verbatim>\<open>nd7 init\<close> and
      interprets it twice, for the agents and for the shell's files. \<^verbatim>\<open>Commands\<close> is the dispatch of
      the command line.
    \<^item> \<^verbatim>\<open>HookPrefix\<close> is \<^verbatim>\<open>hook_prefix.rs\<close>; \<^verbatim>\<open>SshAgent\<close> the agent protocol and one connection of its proxy;
      \<^verbatim>\<open>OpenProxy\<close> one request to the opener. \<^verbatim>\<open>Brokers\<close> is the server both share, as a step relation:
      connections, threads, the mutex, and a log written piece by piece. \<^verbatim>\<open>Serve\<close> has the two kinds of
      thread, and the locales \<^verbatim>\<open>broker\<close> and \<^verbatim>\<open>line_broker\<close> of what a server promises of its log.
    \<^item> \<^verbatim>\<open>Samples\<close> has concrete parameters. The theories ending in \<^verbatim>\<open>Properties\<close> hold the numbered
      properties; each one that has hypotheses is followed by itself at a concrete input.

  \<^bold>\<open>What is shown.\<close>

    \<^item> The log: verification accepts exactly the hash chains; two logs with one head are the same bytes
      or a collision; appends keep the chain through crashes at any write, and what a second crash
      does; every sealed event is read back by the byte searches.
    \<^item> Shipping: the batches are a partition; requests are signed over their body and hold frames only
      sealed under the one chain key of the session, whatever the vault answers and whoever appends
      meanwhile; a pass that reaches an accepting vault sends it every frame hooks recorded, also
      after any number of passes that did not; what ends the loop; what is pruned; which recipient
      sets are accepted, and that a signature fits one version and one set of admins; the vault's
      rule agrees with the machine's; an index is well typed.
    \<^item> Confinement: the rendered text of the profiles reads back as the intended rules, which leave
      the records and the credentials closed whatever is granted; what \<^verbatim>\<open>allow\<close> and \<^verbatim>\<open>deny\<close>
      change, in the record and in what can be written; a command that \<^verbatim>\<open>nd7-exec\<close> runs
      is under the profile of the nearest session above it; policy files are whole under interleaving,
      except as the findings say.
    \<^item> Brokers: however threads and runs interleave, a connection carries what the sequential proxy
      would, which is a refinement proved from the step relation; the opener's log is one line per
      request of its run, and it opens exactly the URLs of one shape.
    \<^item> Installation: a successful \<^verbatim>\<open>nd7 init\<close> of a binary whose path ends in \<^verbatim>\<open>nd7\<close> is complete and can be repeated;
      what was there is kept.

  Where the code does not do what it says, a theorem shows that: after a crash of the first append
  \<^verbatim>\<open>--prune-after\<close> deletes a session that was never sent; a second crash in a row stops a log for good;
  a profile can be seen half written, and a \<^verbatim>\<open>deny\<close> that was killed stays without effect; grants made
  at once are lost (\<^verbatim>\<open>grants_race\<close>); the log lines of two runs mix (\<^verbatim>\<open>lines_mix\<close>); a directory of another
  name ends the loop of \<^verbatim>\<open>ship\<close>; names, commands and directories are taken at their word
  (\<^verbatim>\<open>extension_name_verbatim\<close>, \<^verbatim>\<open>prefixed_left_alone\<close>, \<^verbatim>\<open>userinfo_accepted\<close>,
  \<^verbatim>\<open>records_open_through_link\<close>).

  \<^bold>\<open>Parameters and hypotheses.\<close> Code that is not in the repository is an argument, with its documented
  behaviour as a named predicate: serde's text of strings, bodies and policies (\<^verbatim>\<open>serde_str\<close>,
  \<^verbatim>\<open>serde_body\<close>, \<^verbatim>\<open>json_round_trip\<close>); BLAKE3 as a function to 64 hex digits (\<^verbatim>\<open>hash_hex\<close>), never assumed
  injective: theorems name the collision instead; the crates behind \<^verbatim>\<open>vault/crypto.rs\<close> as the record
  \<^verbatim>\<open>crypto_api\<close> with \<^verbatim>\<open>crypto_ok\<close>, which says that what is sealed opens and what is signed verifies, and
  nothing about attackers; the system's own sandbox profile and the matcher of regular expressions,
  which are arbitrary. The vault's answers, the clock, random bytes, other processes' appends and
  the order of threads are arguments as well, and arbitrary unless a theorem says otherwise.

  \<^bold>\<open>Bounds and loops.\<close> Loops are recursive functions with a termination proof: on the bytes that are left
  (frames, TOML text, agent messages), on the position in the file (the backwards reader), on the
  batches still to send. The search of \<^verbatim>\<open>nd7-exec\<close> up the chain of parents may not end, so it is a
  \<^verbatim>\<open>partial_function\<close>, and a property shows that it returns when the chain ends. The loop of
  \<^verbatim>\<open>ship --every\<close> runs over the list of the passes that happen. No other definition takes fuel. The
  number of frames of a session is assumed below \<open>2 ^ 64\<close> where its count is a \<^verbatim>\<open>u64\<close>.

  \<^bold>\<open>Not modelled.\<close> The system calls themselves (applying a profile, starting a process, binding and
  accepting on sockets, the password database, file locks, which are atomic operations here, sleeping), and the
  HTTP client: their outcomes are arguments. What the commands print, but for \<^verbatim>\<open>verify\<close>, grants and the
  errors of durations, and the part of a vault's answer that is quoted in a diagnostic. Directories
  and file modes of the files \<^verbatim>\<open>init\<close> writes, and a write of it that fails; a read that fails is
  modelled. The serde derives and the formats of third-party crates.
  The \<^verbatim>\<open>test-seams\<close> feature, and the tests under \<^verbatim>\<open>src/src/tests\<close> and in the \<^verbatim>\<open>tests\<close> modules, which a
  release build does not hold: they are the larger part of the lines no definition models.
\<close>

end
